(* ===== verification/Prelude.thy ===== *)
theory Prelude
  imports Complex_Main "HOL-Library.AList" "HOL-Library.Sublist"
begin

text \<open>
  Values, exceptions and effects that every component shares.

  \<^item> JSON values and Python exceptions (the class matters to the handlers, the message
    to the tests such as \<^verbatim>\<open>'nonce too low' in str(e)\<close>).
  \<^item> The result of running Python code: a returned value, a raised exception, or
    \<open>Pending\<close>, the outcome of a \<^verbatim>\<open>while True\<close> loop that is still running after the
    number of rounds it was given.
  \<^item> State passing with exceptions. The state is an extension of the record \<open>world\<close>:
    \<open>ext\<close> is everything outside the program (chain, RPC nodes, Redis, clock, random
    source), of an arbitrary type, and \<open>trace\<close> logs, in order, the calls by which the
    program acts on it.
  \<^item> Rules for relations between the states before and after a computation, stated once
    in the locale \<open>frame\<close> and used by every component.
\<close>

section \<open>Values and exceptions\<close>

datatype json =
    JNull
  | JBool bool
  | JInt int
  | JStr string
  | JList "json list"
  | JObj "(string \<times> json) list"

datatype exn_class =
    PyException \<comment> \<open>raised as plain \<^verbatim>\<open>Exception\<close>\<close>
  | TimeExhausted
  | BailException
  | GenericExitOnSignal
  | ValueError
  | TypeError
  | KeyError
  | IndexError
  | AttributeError
  | ZeroDivisionError
  | UnboundLocalError
  | RequestsTimeout
  | RequestsConnectionError
  | RequestsHTTPError
  | RedisConnectionError
  | RedisTimeoutError
  | RedisResponseError
  | OtherException string \<comment> \<open>any other subclass of \<^verbatim>\<open>Exception\<close>\<close>
  | OtherBaseException string \<comment> \<open>outside \<^verbatim>\<open>Exception\<close>: \<^verbatim>\<open>KeyboardInterrupt\<close>, \<^verbatim>\<open>CancelledError\<close>\<close>

text \<open>The field \<^verbatim>\<open>underlying_exception\<close> of \<^verbatim>\<open>RPCException\<close> holds nothing, an exception or
  a list of error objects.\<close>

datatype 'e underlying = NoCause | CauseExn 'e | CauseList "json list"

datatype exn =
    Exn exn_class string
  | RPCException json json "exn underlying" json

fun is_Exception :: "exn \<Rightarrow> bool" where
  "is_Exception (Exn (OtherBaseException n) m) = False"
| "is_Exception (Exn c m) = True"
| "is_Exception (RPCException rq rs u x) = True"

fun is_RPCException :: "exn \<Rightarrow> bool" where
  "is_RPCException (RPCException rq rs u x) = True"
| "is_RPCException (Exn c m) = False"

fun has_class :: "exn_class \<Rightarrow> exn \<Rightarrow> bool" where
  "has_class c (Exn d m) = (c = d)"
| "has_class c (RPCException rq rs u x) = False"

lemma is_RPCException_is_Exception: "is_RPCException e \<Longrightarrow> is_Exception e"
  by (cases e) auto

subsection \<open>Reading Python values\<close>

text \<open>\<^verbatim>\<open>d[key]\<close> on a decoded JSON value.\<close>

fun json_item :: "string \<Rightarrow> json \<Rightarrow> exn + json" where
  "json_item k (JObj kvs) =
     (case map_of kvs k of Some v \<Rightarrow> Inr v | None \<Rightarrow> Inl (Exn KeyError k))"
| "json_item k j = Inl (Exn TypeError ''not subscriptable by a string'')"

lemma json_item_Exception: "json_item k j = Inl e \<Longrightarrow> is_Exception e"
  by (cases j) (auto split: option.splits)

text \<open>Truth value of a decoded JSON value.\<close>

fun json_truthy :: "json \<Rightarrow> bool" where
  "json_truthy JNull = False"
| "json_truthy (JBool b) = b"
| "json_truthy (JInt i) = (i \<noteq> 0)"
| "json_truthy (JStr s) = (s \<noteq> [])"
| "json_truthy (JList xs) = (xs \<noteq> [])"
| "json_truthy (JObj kvs) = (kvs \<noteq> [])"

text \<open>\<^verbatim>\<open>v == 1\<close>; a Python \<^verbatim>\<open>bool\<close> is an \<^verbatim>\<open>int\<close>.\<close>

fun json_is_one :: "json \<Rightarrow> bool" where
  "json_is_one (JInt i) = (i = 1)"
| "json_is_one (JBool b) = b"
| "json_is_one j = False"

text \<open>\<^verbatim>\<open>key in v\<close>\<close>

fun json_has_key :: "string \<Rightarrow> json \<Rightarrow> exn + bool" where
  "json_has_key k (JObj kvs) = Inr (k \<in> fst ` set kvs)"
| "json_has_key k (JStr s) = Inr (sublist k s)"
| "json_has_key k (JList xs) = Inr (JStr k \<in> set xs)"
| "json_has_key k j = Inl (Exn TypeError ''argument is not iterable'')"

text \<open>\<^verbatim>\<open>xs[i]\<close> on a list or tuple, negative indices from the end.\<close>

definition py_index :: "'a list \<Rightarrow> int \<Rightarrow> exn + 'a" where
  "py_index xs i =
     (if 0 \<le> i \<and> nat i < length xs then Inr (xs ! nat i)
      else if i < 0 \<and> nat (- i) \<le> length xs then Inr (xs ! (length xs - nat (- i)))
      else Inl (Exn IndexError ''list index out of range''))"

lemma py_index_nth [simp]: "i < length xs \<Longrightarrow> py_index xs (int i) = Inr (xs ! i)"
  by (simp add: py_index_def)

text \<open>\<^verbatim>\<open>int(x)\<close> of a float truncates towards zero.\<close>

definition py_trunc :: "real \<Rightarrow> int" where
  "py_trunc x = (if 0 \<le> x then \<lfloor>x\<rfloor> else \<lceil>x\<rceil>)"

lemma py_trunc_of_int [simp]: "py_trunc (of_int i) = i"
  by (simp add: py_trunc_def)

lemma py_trunc_le: "0 \<le> x \<Longrightarrow> of_int (py_trunc x) \<le> x"
  by (simp add: py_trunc_def)

section \<open>Effects\<close>

text \<open>A transaction handed to the node: the contract function and its arguments, and the
  parameters \<^verbatim>\<open>write_transaction\<close> sets.\<close>

record txn =
  tx_from :: string
  tx_function :: string
  tx_args :: "json list"
  tx_gas_limit :: int
  tx_gas_price :: int
  tx_nonce :: int
  tx_chain_id :: int

text \<open>A member of a Redis sorted set of call records: the dumped JSON, with or without a
  key \<^verbatim>\<open>'time'\<close> holding the (float) call time.\<close>

datatype zmember = ZJson json | ZTimed json real

text \<open>The calls by which the program acts on its environment.\<close>

datatype event =
    TxSubmit txn \<comment> \<open>\<^verbatim>\<open>send_raw_transaction\<close>\<close>
  | AwaitReceipt string \<comment> \<open>\<^verbatim>\<open>wait_for_transaction_receipt\<close>\<close>
  | AsyncSleep int \<comment> \<open>\<^verbatim>\<open>await asyncio.sleep\<close>\<close>
  | BlockingSleep int \<comment> \<open>\<^verbatim>\<open>time.sleep\<close>\<close>
  | Notify string json \<comment> \<open>scheduled \<^verbatim>\<open>client.post\<close> of a report\<close>
  | RpcPost string json \<comment> \<open>JSON-RPC request to a node\<close>
  | SignalInstall string \<comment> \<open>\<^verbatim>\<open>signal(signame, handler)\<close>\<close>
  | GetLogs string int int \<comment> \<open>\<^verbatim>\<open>eth.get_logs\<close> of a node over a block range\<close>
  | NodeCall string string \<comment> \<open>any other call of a node: its URL and the call\<close>
  | RedisZAdd string zmember real
  | RedisZRemRangeByScore string real real
  | RedisGet string
  | RedisSet string string
  | RateHit string "string list" int \<comment> \<open>\<^verbatim>\<open>limiter.hit\<close> of a limit for a key\<close>
  | ScriptLoad string
  | SpawnForceConsensus \<comment> \<open>\<^verbatim>\<open>ensure_future(self._force_complete_consensus())\<close>\<close>
  | SemaphoreAcquire
  | SemaphoreRelease
  | WriterLockAcquire
  | WriterLockRelease

record 'w world =
  ext :: 'w
  trace :: "event list"

lemma world_update_swap [simp]: "s\<lparr>trace := x, ext := y\<rparr> = s\<lparr>ext := y, trace := x\<rparr>"
  by (cases s) simp

datatype 'a res = Ret 'a | Raise exn | Pending

type_synonym ('s, 'a) M = "'s \<Rightarrow> 'a res \<times> 's"

definition returnM :: "'a \<Rightarrow> ('s, 'a) M" where
  "returnM a s = (Ret a, s)"

definition raiseM :: "exn \<Rightarrow> ('s, 'a) M" where
  "raiseM e s = (Raise e, s)"

definition pendingM :: "('s, 'a) M" where
  "pendingM s = (Pending, s)"

definition bindM :: "('s, 'a) M \<Rightarrow> ('a \<Rightarrow> ('s, 'b) M) \<Rightarrow> ('s, 'b) M" where
  "bindM m f s =
     (case m s of (Ret a, t) \<Rightarrow> f a t | (Raise e, t) \<Rightarrow> (Raise e, t) | (Pending, t) \<Rightarrow> (Pending, t))"

definition thenM :: "('s, 'a) M \<Rightarrow> ('s, 'b) M \<Rightarrow> ('s, 'b) M" where
  "thenM m n = bindM m (\<lambda>_. n)"

text \<open>
  \<^verbatim>\<open>try: m; except <caught>: h; else: k\<close>. The \<^verbatim>\<open>else\<close> block is not protected by the handler;
  an exception outside the caught classes passes through.
\<close>

definition try_elseM ::
  "(exn \<Rightarrow> bool) \<Rightarrow> ('s, 'a) M \<Rightarrow> (exn \<Rightarrow> ('s, 'b) M) \<Rightarrow> ('a \<Rightarrow> ('s, 'b) M) \<Rightarrow> ('s, 'b) M" where
  "try_elseM p m h k s =
     (case m s of
        (Ret a, t) \<Rightarrow> k a t
      | (Raise e, t) \<Rightarrow> (if p e then h e t else (Raise e, t))
      | (Pending, t) \<Rightarrow> (Pending, t))"

text \<open>\<^verbatim>\<open>try: m; except Exception as e: h\<close>\<close>

definition tryM :: "('s, 'a) M \<Rightarrow> (exn \<Rightarrow> ('s, 'a) M) \<Rightarrow> ('s, 'a) M" where
  "tryM m h = try_elseM is_Exception m h returnM"

definition getsM :: "('s \<Rightarrow> 'a) \<Rightarrow> ('s, 'a) M" where
  "getsM f s = (Ret (f s), s)"

definition modifyM :: "('s \<Rightarrow> 's) \<Rightarrow> ('s, unit) M" where
  "modifyM f s = (Ret (), f s)"

definition liftM :: "exn + 'a \<Rightarrow> ('s, 'a) M" where
  "liftM r s = (case r of Inl e \<Rightarrow> (Raise e, s) | Inr a \<Rightarrow> (Ret a, s))"

definition whenM :: "bool \<Rightarrow> ('s, unit) M \<Rightarrow> ('s, unit) M" where
  "whenM b m = (if b then m else returnM ())"

text \<open>A call of the environment: it may change it, and answers or raises.\<close>

definition extM :: "('w \<Rightarrow> (exn + 'a) \<times> 'w) \<Rightarrow> (('w, 'z) world_scheme, 'a) M" where
  "extM f s = (case f (ext s) of (r, w) \<Rightarrow> liftM r (s\<lparr>ext := w\<rparr>))"

definition emitM :: "event \<Rightarrow> (('w, 'z) world_scheme, unit) M" where
  "emitM ev s = (Ret (), s\<lparr>trace := trace s @ [ev]\<rparr>)"

text \<open>A call of the environment that is logged when it is made, whatever its answer.\<close>

definition callM :: "event \<Rightarrow> ('w \<Rightarrow> (exn + 'a) \<times> 'w) \<Rightarrow> (('w, 'z) world_scheme, 'a) M" where
  "callM ev f = thenM (emitM ev) (extM f)"

text \<open>\<^verbatim>\<open>for x in xs: body(x)\<close>\<close>

primrec forM :: "'a list \<Rightarrow> ('a \<Rightarrow> ('s, unit) M) \<Rightarrow> ('s, unit) M" where
  "forM [] f = returnM ()"
| "forM (x # xs) f = thenM (f x) (forM xs f)"

text \<open>\<^verbatim>\<open>[f(x) for x in xs]\<close>\<close>

primrec mapM :: "('a \<Rightarrow> ('s, 'b) M) \<Rightarrow> 'a list \<Rightarrow> ('s, 'b list) M" where
  "mapM f [] = returnM []"
| "mapM f (x # xs) = bindM (f x) (\<lambda>y. bindM (mapM f xs) (\<lambda>ys. returnM (y # ys)))"

text \<open>
  \<^verbatim>\<open>await gather(*ms)\<close>. Every call runs, also after one has failed; the first failure is what
  \<^verbatim>\<open>gather\<close> raises. The calls are run one after the other in the order given, one of the
  interleavings of the event loop.
\<close>

primrec gatherM :: "('s, 'a) M list \<Rightarrow> ('s, 'a list) M" where
  "gatherM [] = returnM []"
| "gatherM (m # ms) =
     (\<lambda>s. case m s of
        (Ret a, t) \<Rightarrow> bindM (gatherM ms) (\<lambda>xs. returnM (a # xs)) t
      | (Raise e, t) \<Rightarrow> (Raise e, snd (gatherM ms t))
      | (Pending, t) \<Rightarrow> (Pending, t))"

text \<open>
  \<^verbatim>\<open>while True: body\<close>, for at most the given number of rounds. A round answers \<open>Inl a\<close> to go
  round again with loop variables \<open>a\<close>, or \<open>Inr b\<close> to leave with \<open>b\<close>.
\<close>

primrec loopM :: "nat \<Rightarrow> ('a \<Rightarrow> ('s, 'a + 'b) M) \<Rightarrow> 'a \<Rightarrow> ('s, 'b) M" where
  "loopM 0 body a = pendingM"
| "loopM (Suc n) body a =
     bindM (body a) (\<lambda>r. case r of Inl a' \<Rightarrow> loopM n body a' | Inr b \<Rightarrow> returnM b)"

lemmas M_defs = returnM_def raiseM_def pendingM_def bindM_def thenM_def try_elseM_def tryM_def
  getsM_def modifyM_def liftM_def whenM_def extM_def emitM_def callM_def

subsection \<open>Evaluation rules\<close>

named_theorems M_simps "evaluation of the effect combinators"

lemma returnM_apply [M_simps]: "returnM a s = (Ret a, s)"
  by (simp add: returnM_def)

lemma raiseM_apply [M_simps]: "raiseM e s = (Raise e, s)"
  by (simp add: raiseM_def)

lemma pendingM_apply [M_simps]: "pendingM s = (Pending, s)"
  by (simp add: pendingM_def)

lemma getsM_apply [M_simps]: "getsM f s = (Ret (f s), s)"
  by (simp add: getsM_def)

lemma modifyM_apply [M_simps]: "modifyM f s = (Ret (), f s)"
  by (simp add: modifyM_def)

lemma emitM_apply [M_simps]: "emitM ev s = (Ret (), s\<lparr>trace := trace s @ [ev]\<rparr>)"
  by (simp add: emitM_def)

lemma liftM_Inl [M_simps]: "liftM (Inl e) s = (Raise e, s)"
  by (simp add: liftM_def)

lemma liftM_Inr [M_simps]: "liftM (Inr a) s = (Ret a, s)"
  by (simp add: liftM_def)

lemma bindM_Ret [M_simps]: "m s = (Ret a, t) \<Longrightarrow> bindM m f s = f a t"
  by (simp add: bindM_def)

lemma bindM_Raise [M_simps]: "m s = (Raise e, t) \<Longrightarrow> bindM m f s = (Raise e, t)"
  by (simp add: bindM_def)

lemma bindM_Pending [M_simps]: "m s = (Pending, t) \<Longrightarrow> bindM m f s = (Pending, t)"
  by (simp add: bindM_def)

lemma thenM_Ret [M_simps]: "m s = (Ret a, t) \<Longrightarrow> thenM m n s = n t"
  by (simp add: thenM_def bindM_def)

lemma thenM_Raise [M_simps]: "m s = (Raise e, t) \<Longrightarrow> thenM m n s = (Raise e, t)"
  by (simp add: thenM_def bindM_def)

lemma thenM_Pending [M_simps]: "m s = (Pending, t) \<Longrightarrow> thenM m n s = (Pending, t)"
  by (simp add: thenM_def bindM_def)

lemma tryM_Ret [M_simps]: "m s = (Ret a, t) \<Longrightarrow> tryM m h s = (Ret a, t)"
  by (simp add: tryM_def try_elseM_def returnM_def)

lemma tryM_Raise [M_simps]: "m s = (Raise e, t) \<Longrightarrow> is_Exception e \<Longrightarrow> tryM m h s = h e t"
  by (simp add: tryM_def try_elseM_def)

lemma tryM_BaseException [M_simps]:
  "m s = (Raise e, t) \<Longrightarrow> \<not> is_Exception e \<Longrightarrow> tryM m h s = (Raise e, t)"
  by (simp add: tryM_def try_elseM_def)

lemma try_elseM_Ret [M_simps]: "m s = (Ret a, t) \<Longrightarrow> try_elseM p m h k s = k a t"
  by (simp add: try_elseM_def)

lemma try_elseM_Raise [M_simps]:
  "m s = (Raise e, t) \<Longrightarrow> try_elseM p m h k s = (if p e then h e t else (Raise e, t))"
  by (simp add: try_elseM_def)

lemma whenM_True [M_simps]: "whenM True m = m"
  by (simp add: whenM_def)

lemma whenM_False [M_simps]: "whenM False m = returnM ()"
  by (simp add: whenM_def)

lemma extM_Inr [M_simps]: "f (ext s) = (Inr a, w) \<Longrightarrow> extM f s = (Ret a, s\<lparr>ext := w\<rparr>)"
  by (simp add: extM_def liftM_def)

lemma extM_Inl [M_simps]: "f (ext s) = (Inl e, w) \<Longrightarrow> extM f s = (Raise e, s\<lparr>ext := w\<rparr>)"
  by (simp add: extM_def liftM_def)

lemma callM_Inr [M_simps]:
  "f (ext s) = (Inr a, w) \<Longrightarrow>
     callM ev f s = (Ret a, s\<lparr>ext := w, trace := trace s @ [ev]\<rparr>)"
  by (simp add: callM_def thenM_def bindM_def emitM_def extM_def liftM_def)

lemma callM_Inl [M_simps]:
  "f (ext s) = (Inl e, w) \<Longrightarrow>
     callM ev f s = (Raise e, s\<lparr>ext := w, trace := trace s @ [ev]\<rparr>)"
  by (simp add: callM_def thenM_def bindM_def emitM_def extM_def liftM_def)

text \<open>The same for the leaves that cannot fail, without conditions.\<close>

lemma M_step:
  "bindM (returnM a) f s = f a s"
  "bindM (getsM g) f s = f (g s) s"
  "bindM (modifyM h) f' s = f' () (h s)"
  "bindM (liftM (Inr a)) f s = f a s"
  "thenM (returnM a) n s = n s"
  "thenM (modifyM h) n s = n (h s)"
  "thenM (liftM (Inr a)) n s = n s"
  "thenM (emitM ev) n' w = n' (w\<lparr>trace := trace w @ [ev]\<rparr>)"
  by (simp_all add: M_defs)

text \<open>A round of a loop goes on, leaves, or ends the loop.\<close>

lemma loopM_Inl: "body a s = (Ret (Inl a'), t) \<Longrightarrow> loopM (Suc n) body a s = loopM n body a' t"
  by (simp add: bindM_Ret)

lemma loopM_Inr: "body a s = (Ret (Inr b), t) \<Longrightarrow> loopM (Suc n) body a s = (Ret b, t)"
  by (simp add: bindM_Ret returnM_def)

lemma loopM_Raise: "body a s = (Raise e, t) \<Longrightarrow> loopM (Suc n) body a s = (Raise e, t)"
  by (simp add: bindM_Raise)

lemma loopM_Pending: "body a s = (Pending, t) \<Longrightarrow> loopM (Suc n) body a s = (Pending, t)"
  by (simp add: bindM_Pending)

subsection \<open>Case rules\<close>

text \<open>How a composed run can have gone, for proofs that follow one run.\<close>

lemma bindM_E:
  assumes "bindM m f s = (r, t)"
  obtains (Ret) a u where "m s = (Ret a, u)" and "f a u = (r, t)"
  | (Raise) e where "m s = (Raise e, t)" and "r = Raise e"
  | (Pending) "m s = (Pending, t)" and "r = Pending"
  using assms by (auto simp: bindM_def split: prod.splits res.splits)

lemma thenM_E:
  assumes "thenM m n s = (r, t)"
  obtains (Ret) a u where "m s = (Ret a, u)" and "n u = (r, t)"
  | (Raise) e where "m s = (Raise e, t)" and "r = Raise e"
  | (Pending) "m s = (Pending, t)" and "r = Pending"
  using assms by (auto simp: thenM_def elim: bindM_E)

lemma try_elseM_E:
  assumes "try_elseM p m h k s = (r, t)"
  obtains (Ret) a u where "m s = (Ret a, u)" and "k a u = (r, t)"
  | (Caught) e u where "m s = (Raise e, u)" and "p e" and "h e u = (r, t)"
  | (Raise) e where "m s = (Raise e, t)" and "\<not> p e" and "r = Raise e"
  | (Pending) "m s = (Pending, t)" and "r = Pending"
  using assms by (auto simp: try_elseM_def split: prod.splits res.splits if_splits)

lemma tryM_E:
  assumes "tryM m h s = (r, t)"
  obtains (Ret) a where "m s = (Ret a, t)" and "r = Ret a"
  | (Caught) e u where "m s = (Raise e, u)" and "is_Exception e" and "h e u = (r, t)"
  | (Raise) e where "m s = (Raise e, t)" and "\<not> is_Exception e" and "r = Raise e"
  | (Pending) "m s = (Pending, t)" and "r = Pending"
  using assms by (auto simp: tryM_def returnM_def elim: try_elseM_E)

text \<open>The run of a composed computation that returned.\<close>

lemma bindM_RetE:
  assumes "bindM m f s = (Ret b, t)"
  obtains a u where "m s = (Ret a, u)" and "f a u = (Ret b, t)"
  using assms by (auto elim: bindM_E)

lemma thenM_RetE:
  assumes "thenM m n s = (Ret b, t)"
  obtains a u where "m s = (Ret a, u)" and "n u = (Ret b, t)"
  using assms by (auto elim: thenM_E)

section \<open>Relations between the states before and after\<close>

text \<open>
  \<open>keepsM R m\<close>: whatever the outcome of \<open>m\<close> (a value, an exception, still running), the
  state it leaves is related by \<open>R\<close> to the state it started in.
\<close>

definition keepsM :: "('s \<Rightarrow> 's \<Rightarrow> bool) \<Rightarrow> ('s, 'a) M \<Rightarrow> bool" where
  "keepsM R m \<longleftrightarrow> (\<forall>s. R s (snd (m s)))"

lemma keepsMI: "(\<And>s r t. m s = (r, t) \<Longrightarrow> R s t) \<Longrightarrow> keepsM R m"
  by (simp add: keepsM_def) (metis prod.collapse)

lemma keepsMD: "keepsM R m \<Longrightarrow> m s = (r, t) \<Longrightarrow> R s t"
  by (metis keepsM_def snd_conv)

lemma keepsM_mono: "keepsM R m \<Longrightarrow> (\<And>s t. R s t \<Longrightarrow> R' s t) \<Longrightarrow> keepsM R' m"
  by (simp add: keepsM_def)

text \<open>
  Any reflexive and transitive relation composes along programs. The rules below are the
  syntax-directed way to prove \<open>keepsM R\<close> for a whole operation from its leaves.
\<close>

locale frame =
  fixes R :: "'s \<Rightarrow> 's \<Rightarrow> bool"
  assumes R_refl: "R s s"
    and R_trans: "R s t \<Longrightarrow> R t u \<Longrightarrow> R s u"
begin

lemma keeps_return: "keepsM R (returnM a)"
  by (simp add: keepsM_def returnM_def R_refl)

lemma keeps_raise: "keepsM R (raiseM e)"
  by (simp add: keepsM_def raiseM_def R_refl)

lemma keeps_pending: "keepsM R pendingM"
  by (simp add: keepsM_def pendingM_def R_refl)

lemma keeps_gets: "keepsM R (getsM f)"
  by (simp add: keepsM_def getsM_def R_refl)

lemma keeps_lift: "keepsM R (liftM r)"
  by (simp add: keepsM_def liftM_def R_refl split: sum.split)

lemma keeps_bind: "keepsM R m \<Longrightarrow> (\<And>a. keepsM R (f a)) \<Longrightarrow> keepsM R (bindM m f)"
  by (auto simp: keepsM_def bindM_def split: prod.split res.split)
     (metis R_trans snd_conv)+

lemma keeps_then: "keepsM R m \<Longrightarrow> keepsM R n \<Longrightarrow> keepsM R (thenM m n)"
  by (simp add: thenM_def keeps_bind)

lemma keeps_try_else:
  "keepsM R m \<Longrightarrow> (\<And>e. keepsM R (h e)) \<Longrightarrow> (\<And>a. keepsM R (k a)) \<Longrightarrow>
     keepsM R (try_elseM p m h k)"
  by (auto simp: keepsM_def try_elseM_def split: prod.split res.split)
     (metis R_trans snd_conv)+

lemma keeps_try: "keepsM R m \<Longrightarrow> (\<And>e. keepsM R (h e)) \<Longrightarrow> keepsM R (tryM m h)"
  by (simp add: tryM_def keeps_try_else keeps_return)

lemma keeps_when: "keepsM R m \<Longrightarrow> keepsM R (whenM b m)"
  by (simp add: whenM_def keeps_return)

lemma keeps_if: "keepsM R m \<Longrightarrow> keepsM R n \<Longrightarrow> keepsM R (if b then m else n)"
  by simp

lemma keeps_case_prod: "(\<And>a b. keepsM R (f a b)) \<Longrightarrow> keepsM R (case x of (a, b) \<Rightarrow> f a b)"
  by (simp split: prod.split)

lemma keeps_case_option:
  "keepsM R m \<Longrightarrow> (\<And>a. keepsM R (f a)) \<Longrightarrow> keepsM R (case x of None \<Rightarrow> m | Some a \<Rightarrow> f a)"
  by (simp split: option.split)

lemma keeps_for: "(\<And>x. keepsM R (f x)) \<Longrightarrow> keepsM R (forM xs f)"
  by (induction xs) (simp_all add: keeps_return keeps_then)

lemma keeps_mapM: "(\<And>x. keepsM R (f x)) \<Longrightarrow> keepsM R (mapM f xs)"
  by (induction xs) (simp_all add: keeps_return keeps_bind)

lemma keeps_gather:
  assumes "list_all (keepsM R) ms"
  shows "keepsM R (gatherM ms)"
  using assms
proof (induction ms)
  case Nil
  show ?case by (simp add: keeps_return)
next
  case (Cons m ms)
  then have m: "keepsM R m" and ms: "keepsM R (gatherM ms)" by simp_all
  then have rest: "keepsM R (bindM (gatherM ms) (\<lambda>xs. returnM (a # xs)))" for a
    by (intro keeps_bind keeps_return)
  show ?case
  proof (rule keepsMI)
    fix s r t
    assume run: "gatherM (m # ms) s = (r, t)"
    obtain r1 u where mu: "m s = (r1, u)" by (cases "m s")
    with m have su: "R s u" by (rule keepsMD)
    have "R u t"
    proof (cases r1)
      case (Ret a)
      with run mu rest show ?thesis by (auto dest: keepsMD)
    next
      case (Raise e)
      with run mu ms show ?thesis by (auto simp: keepsM_def)
    next
      case Pending
      with run mu show ?thesis by (simp add: R_refl)
    qed
    with su show "R s t" by (rule R_trans)
  qed
qed

lemma keeps_loop: "(\<And>a. keepsM R (body a)) \<Longrightarrow> keepsM R (loopM n body a)"
proof (induction n arbitrary: a)
  case 0
  show ?case by (simp add: keeps_pending)
next
  case (Suc n)
  then show ?case
    by (auto intro!: keeps_bind simp: keeps_return split: sum.split)
qed

lemmas keeps_rules = keeps_return keeps_raise keeps_pending keeps_gets keeps_lift keeps_bind
  keeps_then keeps_try_else keeps_try keeps_when keeps_if keeps_for keeps_mapM
  keeps_loop keeps_case_prod keeps_case_option

end

text \<open>Relations that allow any change of the environment.\<close>

locale env_frame = frame R
  for R :: "('w, 'z) world_scheme \<Rightarrow> ('w, 'z) world_scheme \<Rightarrow> bool" +
  assumes R_ext: "R s (s\<lparr>ext := w\<rparr>)"
begin

lemma keeps_ext: "keepsM R (extM f)"
  by (simp add: keepsM_def extM_def liftM_def R_ext split: prod.split sum.split)

lemma keeps_call:
  assumes "\<And>s. R s (s\<lparr>trace := trace s @ [ev]\<rparr>)"
  shows "keepsM R (callM ev f)"
  unfolding callM_def
  by (rule keeps_then[OF _ keeps_ext]) (simp add: keepsM_def emitM_def assms)

end


section \<open>What a computation adds to the log\<close>

text \<open>
  \<open>logs P\<close>: only the environment and the log changed, the log by events satisfying \<open>P\<close>.
  \<open>grows P\<close>: the log grew by events satisfying \<open>P\<close>; the program's fields may differ.
\<close>

definition logs :: "(event \<Rightarrow> bool) \<Rightarrow> ('w, 'z) world_scheme \<Rightarrow> ('w, 'z) world_scheme \<Rightarrow> bool" where
  "logs P s t \<longleftrightarrow>
     (\<exists>w evs. t = s\<lparr>ext := w, trace := trace s @ evs\<rparr> \<and> list_all P evs)"

definition grows :: "(event \<Rightarrow> bool) \<Rightarrow> ('w, 'z) world_scheme \<Rightarrow> ('w, 'z) world_scheme \<Rightarrow> bool" where
  "grows P s t \<longleftrightarrow> (\<exists>evs. trace t = trace s @ evs \<and> list_all P evs)"

lemma logs_refl: "logs P s s"
  unfolding logs_def by (rule exI[of _ "ext s"], rule exI[of _ "[]"]) simp

lemma logs_trans:
  assumes "logs P s t" and "logs P t u"
  shows "logs P s u"
proof -
  from assms obtain w evs w' evs' where
    "t = s\<lparr>ext := w, trace := trace s @ evs\<rparr>" "list_all P evs"
    "u = t\<lparr>ext := w', trace := trace t @ evs'\<rparr>" "list_all P evs'"
    unfolding logs_def by blast
  then show ?thesis
    unfolding logs_def by (intro exI[of _ w'] exI[of _ "evs @ evs'"]) simp
qed

interpretation logs: env_frame "logs P" for P
proof unfold_locales
  show "logs P s (s\<lparr>ext := w\<rparr>)" for s :: "('w, 'z) world_scheme" and w
    unfolding logs_def by (rule exI[of _ w], rule exI[of _ "[]"]) simp
qed (fact logs_refl, fact logs_trans)

interpretation grows: env_frame "grows P" for P
  by unfold_locales (auto simp: grows_def)

lemma logs_event: "P ev \<Longrightarrow> logs P s (s\<lparr>trace := trace s @ [ev]\<rparr>)"
  unfolding logs_def by (rule exI[of _ "ext s"], rule exI[of _ "[ev]"]) simp

lemma logs_mono: "logs P s t \<Longrightarrow> (\<And>ev. P ev \<Longrightarrow> Q ev) \<Longrightarrow> logs Q s t"
  unfolding logs_def by (metis list.pred_mono_strong)

lemma logs_grows: "logs P s t \<Longrightarrow> grows P s t"
  by (auto simp: logs_def grows_def)

named_theorems logging "operations that only log events of some kind"

lemma logs_emitM [logging]: "P ev \<Longrightarrow> keepsM (logs P) (emitM ev)"
  by (simp add: keepsM_def emitM_def logs_event)

lemma logs_callM [logging]: "P ev \<Longrightarrow> keepsM (logs P) (callM ev f)"
  by (rule logs.keeps_call) (rule logs_event)

lemma logs_extM [logging]: "keepsM (logs P) (extM f)"
  by (rule logs.keeps_ext)

lemmas [logging] = logs.keeps_rules

lemma grows_of_logs: "keepsM (logs P) m \<Longrightarrow> keepsM (grows P) m"
  by (erule keepsM_mono) (rule logs_grows)

lemma grows_modifyM: "(\<And>s. trace (f s) = trace s) \<Longrightarrow> keepsM (grows P) (modifyM f)"
  by (simp add: keepsM_def modifyM_def grows_def)

named_theorems growing "operations that let the log grow by events of some kind"

lemma grows_emitM [growing]: "P ev \<Longrightarrow> keepsM (grows P) (emitM ev)"
  by (rule grows_of_logs) (rule logs_emitM)

lemma grows_callM [growing]: "P ev \<Longrightarrow> keepsM (grows P) (callM ev f)"
  by (rule grows_of_logs) (rule logs_callM)

lemma grows_extM [growing]: "keepsM (grows P) (extM f)"
  by (rule grows.keeps_ext)

lemmas [growing] = grows.keeps_rules grows_modifyM

text \<open>Reading off an operation that only logs, or that lets the log grow.\<close>

lemma growsE:
  assumes "keepsM (grows P) m" and "m s = (r, t)"
  obtains evs where "trace t = trace s @ evs" and "list_all P evs"
  using keepsMD[OF assms] unfolding grows_def by blast


lemma logsE:
  assumes "keepsM (logs P) m" and "m s = (r, t)"
  obtains w evs where "t = s\<lparr>ext := w, trace := trace s @ evs\<rparr>" and "list_all P evs"
  using keepsMD[OF assms] unfolding logs_def by blast

section \<open>The transactions in a log\<close>

fun submitted :: "event list \<Rightarrow> txn list" where
  "submitted [] = []"
| "submitted (TxSubmit tx # evs) = tx # submitted evs"
| "submitted (ev # evs) = submitted evs"

lemma submitted_append [simp]: "submitted (evs @ evs') = submitted evs @ submitted evs'"
  by (induction evs rule: submitted.induct) auto

abbreviation is_submit :: "event \<Rightarrow> bool" where
  "is_submit ev \<equiv> (\<exists>tx. ev = TxSubmit tx)"

lemma submitted_none: "list_all (\<lambda>ev. \<not> is_submit ev) evs \<Longrightarrow> submitted evs = []"
  by (induction evs rule: submitted.induct) auto

lemma in_submitted: "tx \<in> set (submitted evs) \<longleftrightarrow> TxSubmit tx \<in> set evs"
  by (induction evs rule: submitted.induct) auto

end
