(* ===== verification/Chunks.thy ===== *)
theory Chunks
  imports Prelude
begin

text \<open>
  The generator \<^verbatim>\<open>chunks\<close> of \<^verbatim>\<open>utils/helpers.py\<close>, which cuts a block range into epochs. It is
  pure, so the list of what it yields stands for it; \<^verbatim>\<open>range\<close> with step 0 raises when the
  generator is first advanced.
\<close>

section \<open>The code\<close>

text \<open>\<^verbatim>\<open>range(start, stop, step)\<close>\<close>

function range_up :: "int \<Rightarrow> int \<Rightarrow> int \<Rightarrow> int list" where
  "range_up start stop step =
     (if 0 < step \<and> start < stop then start # range_up (start + step) stop step else [])"
  by pat_completeness auto
termination
  by (relation "measure (\<lambda>(start, stop, step). nat (stop - start))") auto

function range_down :: "int \<Rightarrow> int \<Rightarrow> int \<Rightarrow> int list" where
  "range_down start stop step =
     (if step < 0 \<and> stop < start then start # range_down (start + step) stop step else [])"
  by pat_completeness auto
termination
  by (relation "measure (\<lambda>(start, stop, step). nat (start - stop))") auto

declare range_up.simps [simp del] range_down.simps [simp del]

definition py_range :: "int \<Rightarrow> int \<Rightarrow> int \<Rightarrow> exn + int list" where
  "py_range start stop step =
     (if step = 0 then Inl (Exn ValueError ''range() arg 3 must not be zero'')
      else if 0 < step then Inr (range_up start stop step)
      else Inr (range_down start stop step))"

text \<open>The loop body over the remaining start indices; \<open>run_idx\<close> counts the yields.\<close>

fun chunks_loop :: "int \<Rightarrow> int \<Rightarrow> int \<Rightarrow> int list \<Rightarrow> (int \<times> int \<times> int) list" where
  "chunks_loop stop_idx n run_idx [] = []"
| "chunks_loop stop_idx n run_idx (i # is) =
     (let begin_idx = i
      in if begin_idx = stop_idx + 1 then []
         else (let end_idx = (if i + n - 1 \<le> stop_idx then i + n - 1 else stop_idx)
               in (begin_idx, end_idx, run_idx + 1) # chunks_loop stop_idx n (run_idx + 1) is))"

definition chunks :: "int \<Rightarrow> int \<Rightarrow> int \<Rightarrow> exn + (int \<times> int \<times> int) list" where
  "chunks start_idx stop_idx n =
     (case py_range start_idx (stop_idx + 1) n of
        Inl e \<Rightarrow> Inl e
      | Inr is \<Rightarrow> Inr (chunks_loop stop_idx n 0 is))"

section \<open>What it yields\<close>

definition chunks_from :: "int \<Rightarrow> int \<Rightarrow> int \<Rightarrow> int \<Rightarrow> (int \<times> int \<times> int) list" where
  "chunks_from n i stop r = chunks_loop stop n r (range_up i (stop + 1) n)"

lemma chunks_pos: "0 < n \<Longrightarrow> chunks i stop n = Inr (chunks_from n i stop 0)"
  by (simp add: chunks_def py_range_def chunks_from_def)

lemma chunks_from_Nil: "stop < i \<Longrightarrow> chunks_from n i stop r = []"
  by (simp add: chunks_from_def range_up.simps)

text \<open>The generator as a recursion on the start of the rest of the range.\<close>

lemma chunks_from_step:
  assumes "0 < n" and "i \<le> stop"
  shows "chunks_from n i stop r =
           (i, min (i + n - 1) stop, r + 1) # chunks_from n (i + n) stop (r + 1)"
  using assms unfolding chunks_from_def
  by (subst range_up.simps) (simp add: Let_def min_def)

text \<open>Induction on the rest of the range, in steps of the chunk size.\<close>

lemma chunks_induct [consumes 1, case_names Empty Chunk]:
  fixes n :: int
  assumes "0 < n"
    and empty: "\<And>i r. stop < i \<Longrightarrow> P i r"
    and step: "\<And>i r. i \<le> stop \<Longrightarrow> P (i + n) (r + 1) \<Longrightarrow> P i r"
  shows "P i (r :: int)"
proof (induction "nat (stop + 1 - i)" arbitrary: i r rule: less_induct)
  case (less i r)
  show ?case
  proof (cases "stop < i")
    case True
    then show ?thesis by (rule empty)
  next
    case False
    then have "nat (stop + 1 - (i + n)) < nat (stop + 1 - i)"
      using assms(1) by simp
    then have "P (i + n) (r + 1)"
      by (rule less)
    with False show ?thesis
      by (simp add: step linorder_not_less)
  qed
qed

text \<open>
  C26: the chunks cut the range exactly: laid end to end they are the blocks from
  \<open>start_idx\<close> to \<open>stop_idx\<close>, in order, none missing and none twice.
\<close>

theorem chunks_partition:
  assumes "0 < n" and "chunks start_idx stop_idx n = Inr cs"
  shows "concat (map (\<lambda>(b, e, r). [b..e]) cs) = [start_idx..stop_idx]"
proof -
  have "concat (map (\<lambda>(b, e, r). [b..e]) (chunks_from n i stop_idx r)) = [i..stop_idx]" for i r
    using assms(1)
  proof (induction i r rule: chunks_induct[where stop = stop_idx])
    case (Empty i r)
    then show ?case by (simp add: chunks_from_Nil)
  next
    case (Chunk i r)
    show ?case
    proof (cases "i + n - 1 \<le> stop_idx")
      case True
      then have "[i..stop_idx] = [i..i + n - 1] @ [i + n..stop_idx]"
        using Chunk.hyps assms(1) upto_split2[of i "i + n - 1" stop_idx] by simp
      with Chunk True assms(1) show ?thesis
        by (simp add: chunks_from_step min_def)
    next
      case False
      with Chunk assms(1) show ?thesis
        by (simp add: chunks_from_step min_def chunks_from_Nil)
    qed
  qed
  then show ?thesis
    using assms by (auto simp: chunks_pos)
qed

theorem chunks_partition_witness:
  "concat (map (\<lambda>(b, e, r). [b..e]) [(100, 109, 1), (110, 119, 2), (120, 124, 3 :: int)])
     = [100..124 :: int]"
proof (rule chunks_partition[of 10 100 124])
  show "chunks 100 124 10 = Inr [(100, 109, 1), (110, 119, 2), (120, 124, 3)]"
    by (simp add: chunks_def py_range_def range_up.simps)
qed simp

definition n_chunks :: "int \<Rightarrow> int \<Rightarrow> int \<Rightarrow> nat" where
  "n_chunks start stop n = nat ((stop - start + n) div n)"

lemma n_chunks_step:
  assumes "0 < n" and "i \<le> stop"
  shows "n_chunks i stop n = Suc (n_chunks (i + n) stop n)"
proof -
  have "(stop - i + n) div n = (stop - i) div n + 1"
    using assms by (simp add: div_add_self2)
  moreover have "0 \<le> (stop - i) div n"
    using assms by (simp add: pos_imp_zdiv_nonneg_iff)
  ultimately show ?thesis by (simp add: n_chunks_def)
qed

lemma n_chunks_Nil: "0 < n \<Longrightarrow> stop < i \<Longrightarrow> n_chunks i stop n = 0"
proof -
  assume n: "0 < n" and "stop < i"
  then have "(stop - i + n) div n < 1"
    using pos_imp_zdiv_neg_iff[OF n, of "stop - i"] by simp
  then show ?thesis by (simp add: n_chunks_def)
qed

lemma chunks_from_nth:
  assumes "0 < n"
  shows "chunks_from n i stop r =
          map (\<lambda>k. (i + int k * n, min (i + int k * n + n - 1) stop, r + int k + 1))
            [0..<n_chunks i stop n]"
  using assms
proof (induction i r rule: chunks_induct[where stop = stop])
  case (Empty i r)
  then show ?case by (simp add: chunks_from_Nil n_chunks_Nil assms)
next
  case (Chunk i r)
  then show ?case
    by (simp add: chunks_from_step n_chunks_step assms map_upt_Suc algebra_simps del: upt_Suc)
qed

lemma chunks_from_size:
  assumes "0 < n" and "(b, e, k) \<in> set (chunks_from n i stop r)"
  shows "e - b + 1 \<le> n" and "e \<le> stop"
  using assms by (auto simp: chunks_from_nth)

text \<open>
  For a positive size the generator yields one chunk per started size, numbered from
  1; chunk \<open>k\<close> begins \<open>k\<close> sizes after the start and is a full size long unless the range
  ends inside it, which only the last one can.
\<close>

theorem chunks_nth:
  assumes "0 < n"
  shows "chunks start_idx stop_idx n =
           Inr (map (\<lambda>k. (start_idx + int k * n, min (start_idx + int k * n + n - 1) stop_idx, int k + 1))
                  [0..<n_chunks start_idx stop_idx n])"
  using assms by (simp add: chunks_pos chunks_from_nth)

theorem chunks_nth_witness:
  "chunks 100 124 10 = Inr [(100, 109, 1), (110, 119, 2), (120, 124, 3)]"
  using chunks_nth[of 10 100 124] by (simp add: n_chunks_def upt_rec)

text \<open>The size of a chunk, and what the other sizes do.\<close>

lemma chunks_zero: "chunks start_idx stop_idx 0 = Inl (Exn ValueError ''range() arg 3 must not be zero'')"
  by (simp add: chunks_def py_range_def)

lemma chunks_negative_forward:
  "n < 0 \<Longrightarrow> start_idx \<le> stop_idx + 1 \<Longrightarrow> chunks start_idx stop_idx n = Inr []"
  by (simp add: chunks_def py_range_def range_down.simps)

end
