(* ===== verification/Retry.thy ===== *)
theory Retry
  imports Prelude
begin

text \<open>
  The retrying decorator \<^verbatim>\<open>tenacity.retry\<close> that \<^verbatim>\<open>epoch_generator.py\<close>,
  \<^verbatim>\<open>force_consensus.py\<close> and \<^verbatim>\<open>rpc.py\<close> put on their operations. Tenacity is a package
  outside the repository, so it is a parameter of the operations that use it; \<open>tenacity\<close>
  states the documented behaviour they rely on.
\<close>

text \<open>
  \<open>retry p n bs f k\<close> stands for a function decorated with
  \<^verbatim>\<open>@retry(reraise=True, retry=p, stop=stop_after_attempt(n), before_sleep=bs)\<close> and called
  with keyword arguments \<open>k\<close>. The call-back \<open>bs\<close> gets the arguments and the exception of
  the failed attempt and leaves the arguments of the next one in \<^verbatim>\<open>retry_state.kwargs\<close>.
\<close>

type_synonym ('k, 's, 'a) retrying =
  "(exn \<Rightarrow> bool) \<Rightarrow> int \<Rightarrow> ('k \<Rightarrow> exn \<Rightarrow> ('s, 'k) M) \<Rightarrow> ('k \<Rightarrow> ('s, 'a) M) \<Rightarrow> 'k \<Rightarrow> ('s, 'a) M"

text \<open>A computation that ends and changes nothing but the environment (the random wait).\<close>

definition env_only :: "(('w, 'z) world_scheme, 'a) M \<Rightarrow> bool" where
  "env_only m \<longleftrightarrow> (\<forall>s. fst (m s) \<noteq> Pending \<and> (\<exists>w. snd (m s) = s\<lparr>ext := w\<rparr>))"

lemma env_only_return: "env_only (returnM a)"
proof -
  have "s = s\<lparr>ext := ext s\<rparr>" for s :: "('w, 'z) world_scheme"
    by simp
  then show ?thesis
    unfolding env_only_def returnM_def by (metis fst_conv res.distinct(3) snd_conv)
qed

text \<open>
  One attempt with the rest of the call to follow: a retryable exception before the last
  attempt leads to the call-back and on to \<open>rest\<close>, anything else is the outcome.
\<close>

definition retry_round ::
  "(exn \<Rightarrow> bool) \<Rightarrow> int \<Rightarrow> ('k \<Rightarrow> exn \<Rightarrow> ('s, 'k) M) \<Rightarrow> ('k \<Rightarrow> ('s, 'a) M) \<Rightarrow> 'k \<Rightarrow>
     ('k \<Rightarrow> ('s, 'a) M) \<Rightarrow> ('s, 'a) M" where
  "retry_round p n bs f k rest s =
     (case f k s of
        (Ret a, t) \<Rightarrow> (Ret a, t)
      | (Raise e, t) \<Rightarrow> (if p e \<and> 1 < n then bindM (bs k e) rest t else (Raise e, t))
      | (Pending, t) \<Rightarrow> (Pending, t))"

text \<open>The documented contract: attempts with a wait between them, at most \<open>n\<close>.\<close>

definition tenacity :: "('k, ('w, 'z) world_scheme, 'a) retrying \<Rightarrow> bool" where
  "tenacity retry \<longleftrightarrow>
     (\<exists>wait :: (('w, 'z) world_scheme, unit) M. env_only wait \<and>
       (\<forall>p n bs f k. retry p n bs f k =
          retry_round p n bs f k (\<lambda>k'. thenM wait (retry p (n - 1) bs f k'))))"

lemma tenacityE:
  assumes "tenacity (retry :: ('k, ('w, 'z) world_scheme, 'a) retrying)"
  obtains wait :: "(('w, 'z) world_scheme, unit) M" where "env_only wait"
    and "\<And>p n bs f k. retry p n bs f k =
           retry_round p n bs f k (\<lambda>k'. thenM wait (retry p (n - 1) bs f k'))"
  using assms unfolding tenacity_def by blast

lemma tenacity_round:
  assumes "tenacity (retry :: ('k, ('w, 'z) world_scheme, 'a) retrying)"
  shows "\<exists>rest. retry p n bs f k = retry_round p n bs f k rest"
  by (rule tenacityE[OF assms]) (rule exI)

text \<open>A first attempt that returns, or raises what is not retried, decides.\<close>

lemma tenacity_Ret:
  assumes "tenacity retry" and "f k s = (Ret a, t)"
  shows "retry p n bs f k s = (Ret a, t)"
proof -
  from tenacity_round[OF assms(1), of p n bs f k]
  obtain rest where "retry p n bs f k = retry_round p n bs f k rest" ..
  from fun_cong[OF this, of s] show ?thesis
    using assms(2) by (simp add: retry_round_def)
qed

lemma tenacity_not_retried:
  assumes "tenacity retry" and "f k s = (Raise e, t)" and "\<not> p e \<or> n \<le> 1"
  shows "retry p n bs f k s = (Raise e, t)"
proof -
  from tenacity_round[OF assms(1), of p n bs f k]
  obtain rest where "retry p n bs f k = retry_round p n bs f k rest" ..
  from fun_cong[OF this, of s] show ?thesis
    using assms(2,3) by (auto simp: retry_round_def)
qed

text \<open>The loop with no wait satisfies the contract; the examples run with it.\<close>

primrec retry_loop :: "nat \<Rightarrow> ('k, 's, 'a) retrying" where
  "retry_loop 0 p n bs f k = f k"
| "retry_loop (Suc fuel) p n bs f k = retry_round p n bs f k (retry_loop fuel p (n - 1) bs f)"

definition plain_retry :: "('k, 's, 'a) retrying" where
  "plain_retry p n = retry_loop (nat (n - 1)) p n"

lemma plain_retry_tenacity: "tenacity (plain_retry :: ('k, ('w, 'z) world_scheme, 'a) retrying)"
proof -
  have skip: "thenM (returnM ()) m = m" for m :: "(('w, 'z) world_scheme, 'a) M"
    by (simp add: fun_eq_iff thenM_def bindM_def returnM_def)
  have "plain_retry p n bs f k =
      retry_round p n bs f k (\<lambda>k'. thenM (returnM ()) (plain_retry p (n - 1) bs f k'))"
    for p n bs and f :: "'k \<Rightarrow> (('w, 'z) world_scheme, 'a) M" and k
  proof (cases "1 < n")
    case True
    then have "nat (n - 1) = Suc (nat (n - 1 - 1))" by simp
    then show ?thesis by (simp add: plain_retry_def skip)
  next
    case False
    then show ?thesis
      by (auto simp: plain_retry_def retry_round_def fun_eq_iff split: prod.split res.split)
  qed
  then show ?thesis
    unfolding tenacity_def
    by (intro exI[of _ "returnM ()"] conjI allI env_only_return)
qed

text \<open>Attempts that end make a call that ends.\<close>

lemma retry_round_ends:
  assumes "\<And>k s. fst (f k s) \<noteq> Pending" and "\<And>k e s. fst (bs k e s) \<noteq> Pending"
    and "1 < n \<Longrightarrow> (\<And>k s. fst (rest k s) \<noteq> Pending)"
  shows "fst (retry_round p n bs f k rest s) \<noteq> Pending"
proof -
  obtain r t where att: "f k s = (r, t)" by (cases "f k s")
  have "fst (bindM (bs k e) rest t) \<noteq> Pending" if "1 < n" for e
    using assms(2)[of k e t] assms(3)[OF that]
    by (auto simp: bindM_def split: prod.split res.split)
  then show ?thesis
    using att assms(1)[of k s] by (auto simp: retry_round_def split: res.split)
qed

lemma tenacity_ends:
  assumes "tenacity (retry :: ('k, ('w, 'z) world_scheme, 'a) retrying)"
    and "\<And>k s. fst (f k s) \<noteq> Pending" and "\<And>k e s. fst (bs k e s) \<noteq> Pending"
  shows "fst (retry p n bs f k s) \<noteq> Pending"
proof -
  obtain wait :: "(('w, 'z) world_scheme, unit) M" where wait: "env_only wait"
    and round: "\<And>p n bs f k. retry p n bs f k =
           retry_round p n bs f k (\<lambda>k'. thenM wait (retry p (n - 1) bs f k'))"
    by (rule tenacityE[OF assms(1)], rule that)
  have w: "fst (thenM wait m s) \<noteq> Pending" if "\<And>s. fst (m s) \<noteq> Pending" for m :: "(('w, 'z) world_scheme, 'a) M" and s
    using wait[unfolded env_only_def] that
    by (auto simp: thenM_def bindM_def split: prod.split res.split) (metis fst_conv)
  show ?thesis
  proof (induction "nat n" arbitrary: n k s)
    case 0
    show ?case
      by (subst round, rule retry_round_ends) (use 0 assms(2,3) in auto)
  next
    case (Suc m)
    show ?case
      by (subst round, rule retry_round_ends) (use Suc assms(2,3) w in auto)
  qed
qed

text \<open>A call that returns, returns what one of its attempts returned, in the state that attempt left.\<close>

lemma tenacity_Ret_from:
  assumes "tenacity (retry :: ('k, ('w, 'z) world_scheme, 'a) retrying)"
    and run: "retry p n bs f k s = (Ret a, t)"
  obtains k' s' where "f k' s' = (Ret a, t)"
proof -
  obtain wait :: "(('w, 'z) world_scheme, unit) M" where
    round: "\<And>p n bs f k. retry p n bs f k =
           retry_round p n bs f k (\<lambda>k'. thenM wait (retry p (n - 1) bs f k'))"
    by (rule tenacityE[OF assms(1)], rule that)
  from run have "\<exists>k' s'. f k' s' = (Ret a, t)"
  proof (induction "nat n" arbitrary: n k s rule: less_induct)
    case less
    obtain r1 u where att: "f k s = (r1, u)" by (cases "f k s")
    show ?case
    proof (cases "\<exists>e. r1 = Raise e \<and> p e \<and> 1 < n")
      case False
      with less.prems att have "f k s = (Ret a, t)"
        by (subst (asm) round) (auto simp: retry_round_def split: res.splits if_splits)
      then show ?thesis by blast
    next
      case True
      then obtain e where e: "r1 = Raise e" "p e" "1 < n" by blast
      have "bindM (bs k e) (\<lambda>k'. thenM wait (retry p (n - 1) bs f k')) u = (Ret a, t)"
        using less.prems att e by (subst (asm) round) (simp add: retry_round_def)
      then obtain k' v y where "retry p (n - 1) bs f k' v = (Ret a, t)"
        by (auto elim!: bindM_E thenM_E)
      with e(3) show ?thesis by (intro less.hyps[of "n - 1"]) auto
    qed
  qed
  then show thesis using that by blast
qed

text \<open>A quantity that grows by at most \<open>c\<close> per attempt grows by at most \<open>c\<close> times the limit.\<close>

lemma tenacity_count:
  fixes \<mu> :: "('w, 'z) world_scheme \<Rightarrow> nat"
  assumes "tenacity (retry :: ('k, ('w, 'z) world_scheme, 'a) retrying)"
    and f: "\<And>k s r t. f k s = (r, t) \<Longrightarrow> \<mu> t \<le> \<mu> s + c"
    and bs: "\<And>k e s r t. bs k e s = (r, t) \<Longrightarrow> \<mu> t \<le> \<mu> s"
    and ext: "\<And>s w. \<mu> (s\<lparr>ext := w\<rparr>) = \<mu> s"
    and run: "retry p n bs f k s = (r, t)"
  shows "\<mu> t \<le> \<mu> s + c * max 1 (nat n)"
proof -
  obtain wait :: "(('w, 'z) world_scheme, unit) M" where wait: "env_only wait"
    and round: "\<And>p n bs f k. retry p n bs f k =
           retry_round p n bs f k (\<lambda>k'. thenM wait (retry p (n - 1) bs f k'))"
    by (rule tenacityE[OF assms(1)], rule that)
  have w: "\<mu> t = \<mu> s" if "wait s = (r, t)" for s r t
    using wait that ext unfolding env_only_def by (metis snd_conv)
  from run show ?thesis
  proof (induction "nat n" arbitrary: n k s rule: less_induct)
    case less
    obtain r1 u where att: "f k s = (r1, u)" by (cases "f k s")
    from f[OF att] have u: "\<mu> u \<le> \<mu> s + c" .
    show ?case
    proof (cases "\<exists>e. r1 = Raise e \<and> p e \<and> 1 < n")
      case False
      with less.prems att have "t = u"
        by (subst (asm) round) (auto simp: retry_round_def split: res.splits if_splits)
      with u show ?thesis by (simp add: max_def) (use le_trans in fastforce)
    next
      case True
      then obtain e where e: "r1 = Raise e" "p e" "1 < n" by blast
      have "bindM (bs k e) (\<lambda>k'. thenM wait (retry p (n - 1) bs f k')) u = (r, t)"
        using less.prems att e by (subst (asm) round) (simp add: retry_round_def)
      then have "\<mu> t \<le> \<mu> u + c * max 1 (nat (n - 1))"
      proof (cases rule: bindM_E)
        case (Ret k' v)
        from Ret(2) show ?thesis
        proof (cases rule: thenM_E)
          case ret: (Ret x y)
          from less.hyps[OF _ ret(2)] e(3) have "\<mu> t \<le> \<mu> y + c * max 1 (nat (n - 1))" by simp
          with bs[OF Ret(1)] w[OF ret(1)] show ?thesis by simp
        qed (use bs[OF Ret(1)] w in fastforce)+
      qed (use bs in fastforce)+
      moreover have "max 1 (nat n) = Suc (max 1 (nat (n - 1)))"
      proof -
        from e(3) have "nat n = Suc (nat (n - 1))" "1 \<le> nat (n - 1)" by arith+
        then show ?thesis by simp
      qed
      ultimately show ?thesis using u by simp
    qed
  qed
qed

text \<open>
  Runs of a retried call by their number of attempts. A run stops with an attempt \<open>f k\<close> and
  perhaps the call-back and the wait after it, or goes on after them with the next argument.
\<close>

lemma tenacity_run:
  fixes R :: "nat \<Rightarrow> 'k \<Rightarrow> ('w, 'z) world_scheme \<Rightarrow> ('w, 'z) world_scheme \<Rightarrow> bool"
  assumes "tenacity (retry :: ('k, ('w, 'z) world_scheme, 'a) retrying)"
    and last: "\<And>k s x u. f k s = (x, u) \<Longrightarrow> R 1 k s u"
    and stop: "\<And>k s e u x v. f k s = (Raise e, u) \<Longrightarrow> bs k e u = (x, v) \<Longrightarrow> R 1 k s v"
    and stop_wait: "\<And>k s e u k' v w. f k s = (Raise e, u) \<Longrightarrow> bs k e u = (Ret k', v) \<Longrightarrow> R 1 k s (v\<lparr>ext := w\<rparr>)"
    and step: "\<And>k s e u k' v w m t. f k s = (Raise e, u) \<Longrightarrow> bs k e u = (Ret k', v) \<Longrightarrow>
        R m k' (v\<lparr>ext := w\<rparr>) t \<Longrightarrow> R (Suc m) k s t"
    and run: "retry p n bs f k s = (r, t)"
  shows "\<exists>m. 1 \<le> m \<and> m \<le> max 1 (nat n) \<and> R m k s t"
proof -
  obtain wait :: "(('w, 'z) world_scheme, unit) M" where wait: "env_only wait"
    and round: "\<And>p n bs f k. retry p n bs f k =
           retry_round p n bs f k (\<lambda>k'. thenM wait (retry p (n - 1) bs f k'))"
    by (rule tenacityE[OF assms(1)], rule that)
  from run show ?thesis
  proof (induction "nat n" arbitrary: n k s rule: less_induct)
    case less
    obtain x u where att: "f k s = (x, u)" by (cases "f k s")
    show ?case
    proof (cases "\<exists>e. x = Raise e \<and> p e \<and> 1 < n")
      case False
      with less.prems att have "t = u"
        by (subst (asm) round) (auto simp: retry_round_def split: res.splits if_splits)
      with last[OF att] show ?thesis by (intro exI[of _ 1]) simp
    next
      case True
      then obtain e where e: "x = Raise e" "p e" "1 < n" by blast
      have "bindM (bs k e) (\<lambda>k'. thenM wait (retry p (n - 1) bs f k')) u = (r, t)"
        using less.prems att e by (subst (asm) round) (simp add: retry_round_def)
      then show ?thesis
      proof (cases rule: bindM_E)
        case (Ret k' v)
        from wait obtain w where w: "snd (wait v) = v\<lparr>ext := w\<rparr>" unfolding env_only_def by blast
        from Ret(2) show ?thesis
        proof (cases rule: thenM_E)
          case ret: (Ret y v')
          with w have v': "v' = v\<lparr>ext := w\<rparr>" by simp
          from e(3) have "nat (n - 1) < nat n" by simp
          from less.hyps[OF this ret(2)] obtain m where
            "1 \<le> m" "m \<le> max 1 (nat (n - 1))" "R m k' v' t" by blast
          moreover from this(3) have "R (Suc m) k s t"
            using step[OF _ Ret(1)] att e(1) v' by simp
          moreover from e(3) have "nat n = Suc (nat (n - 1))" "1 \<le> nat (n - 1)" by arith+
          ultimately show ?thesis by (intro exI[of _ "Suc m"]) simp
        qed (use stop_wait[OF _ Ret(1)] att e(1) w in \<open>auto intro!: exI[of _ 1]\<close>)
      qed (use stop att e(1) in \<open>auto intro!: exI[of _ 1]\<close>)
    qed
  qed
qed

text \<open>A relation every attempt keeps, and that allows the wait, is kept by the whole call.\<close>

context env_frame
begin

lemma keeps_env_only: "env_only m \<Longrightarrow> keepsM R m"
  unfolding env_only_def keepsM_def using R_ext by metis

lemma keeps_retry_round:
  assumes "\<And>k. keepsM R (f k)" and "\<And>k e. keepsM R (bs k e)"
    and "1 < n \<Longrightarrow> (\<And>k. keepsM R (rest k))"
  shows "keepsM R (retry_round p n bs f k rest)"
proof (rule keepsMI)
  fix s r u
  assume run: "retry_round p n bs f k rest s = (r, u)"
  obtain r1 t where att: "f k s = (r1, t)" by (cases "f k s")
  then have st: "R s t" by (rule keepsMD[OF assms(1)])
  show "R s u"
  proof (cases "\<exists>e. r1 = Raise e \<and> p e \<and> 1 < n")
    case False
    with run att st show ?thesis
      by (auto simp: retry_round_def split: res.splits if_splits)
  next
    case True
    then obtain e where e: "r1 = Raise e" "p e" "1 < n" by blast
    from assms(2) assms(3)[OF e(3)] have "keepsM R (bindM (bs k e) rest)"
      by (rule keeps_bind)
    moreover have "bindM (bs k e) rest t = (r, u)"
      using run att e by (simp add: retry_round_def)
    ultimately have "R t u" by (rule keepsMD)
    with st show ?thesis by (rule R_trans)
  qed
qed

lemma keeps_retry:
  assumes "tenacity retry"
    and f: "\<And>k. keepsM R (f k)" and bs: "\<And>k e. keepsM R (bs k e)"
  shows "keepsM R (retry p n bs f k)"
proof -
  obtain wait :: "(('w, 'z) world_scheme, unit) M" where wait: "env_only wait"
    and round: "\<And>p n bs f k. retry p n bs f k =
           retry_round p n bs f k (\<lambda>k'. thenM wait (retry p (n - 1) bs f k'))"
    by (rule tenacityE[OF assms(1)], rule that)
  have one: "keepsM R (retry p n bs f k)"
    if "1 < n \<Longrightarrow> (\<And>k. keepsM R (retry p (n - 1) bs f k))" for n k
    by (subst round, rule keeps_retry_round)
       (use that in \<open>auto intro!: f bs keeps_then keeps_env_only[OF wait]\<close>)
  have "keepsM R (retry p n bs f k)" for k
  proof (induction "nat n" arbitrary: n k)
    case 0
    then show ?case by (auto intro: one)
  next
    case (Suc m)
    show ?case by (rule one) (use Suc in auto)
  qed
  then show ?thesis .
qed

end

end
