(* ===== verification/Py_Strings.thy ===== *)
theory Py_Strings
  imports Prelude
begin

text \<open>
  The conversions between integers and strings the program uses: \<^verbatim>\<open>str(n)\<close>, \<^verbatim>\<open>hex(n)\<close>,
  \<^verbatim>\<open>int(s, 16)\<close>, \<^verbatim>\<open>json.dumps\<close> of the values without floats, \<^verbatim>\<open>json.loads\<close> of an integer, and
  \<^verbatim>\<open>str(e)\<close> of an exception. A \<open>char\<close> stands for a code point below 256.
\<close>

section \<open>Digits\<close>

fun nat_digits :: "nat \<Rightarrow> nat \<Rightarrow> nat list" where
  "nat_digits b n = (if b < 2 \<or> n < b then [n] else nat_digits b (n div b) @ [n mod b])"

declare nat_digits.simps [simp del]

definition digits_value :: "nat \<Rightarrow> nat \<Rightarrow> nat list \<Rightarrow> nat" where
  "digits_value b acc ds = foldl (\<lambda>a d. a * b + d) acc ds"

lemma digits_value_simps [simp]:
  "digits_value b acc [] = acc"
  "digits_value b acc (d # ds) = digits_value b (acc * b + d) ds"
  "digits_value b acc (ds @ es) = digits_value b (digits_value b acc ds) es"
  by (simp_all add: digits_value_def)

lemma nat_digits_value: "digits_value b 0 (nat_digits b n) = n"
proof (induction b n rule: nat_digits.induct)
  case (1 b n)
  then show ?case
    by (cases "b < 2 \<or> n < b") (auto simp: nat_digits.simps[of b n])
qed

lemma nat_digits_bound: "2 \<le> b \<Longrightarrow> d \<in> set (nat_digits b n) \<Longrightarrow> d < b"
proof (induction b n rule: nat_digits.induct)
  case (1 b n)
  then show ?case
    by (cases "n < b") (auto simp: nat_digits.simps[of b n])
qed

lemma nat_digits_ne [simp]: "nat_digits b n \<noteq> []"
  by (subst nat_digits.simps) auto

lemma nat_digits_hd_pos: "0 < n \<Longrightarrow> 2 \<le> b \<Longrightarrow> 0 < hd (nat_digits b n)"
proof (induction b n rule: nat_digits.induct)
  case (1 b n)
  then show ?case
    by (cases "n < b") (auto simp: nat_digits.simps[of b n] div_greater_zero_iff)
qed

lemma nat_digits_zero: "nat_digits b 0 = [0]"
  by (subst nat_digits.simps) auto

definition digit_char :: "nat \<Rightarrow> char" where
  "digit_char d = char_of (if d < 10 then 48 + d else 87 + d)"

text \<open>The value of a digit in a base up to 36, in either case of the letters.\<close>

definition digit_of :: "nat \<Rightarrow> char \<Rightarrow> nat option" where
  "digit_of b c =
     (let n = of_char c;
          v = (if 48 \<le> n \<and> n \<le> 57 then n - 48
               else if 97 \<le> n \<and> n \<le> 122 then n - 87
               else if 65 \<le> n \<and> n \<le> 90 then n - 55 else b)
      in if v < b then Some v else None)"

lemma of_char_digit_char: "d < 36 \<Longrightarrow> of_char (digit_char d) = (if d < 10 then 48 + d else 87 + d)"
  by (simp add: digit_char_def)

lemma digit_of_digit_char: "d < b \<Longrightarrow> b \<le> 36 \<Longrightarrow> digit_of b (digit_char d) = Some d"
  by (simp add: digit_of_def of_char_digit_char Let_def)

lemma digit_char_neq:
  "d < 36 \<Longrightarrow> digit_char d \<noteq> CHR ''_'' \<and> digit_char d \<noteq> CHR ''-'' \<and> digit_char d \<noteq> CHR ''+''"
proof -
  assume d: "d < 36"
  have "of_char (digit_char d) \<noteq> (95 :: nat) \<and> of_char (digit_char d) \<noteq> (45 :: nat) \<and>
        of_char (digit_char d) \<noteq> (43 :: nat)"
    using d by (auto simp: of_char_digit_char)
  then show ?thesis by auto
qed

section \<open>Printing and parsing integers\<close>

definition nat_str :: "nat \<Rightarrow> nat \<Rightarrow> string" where
  "nat_str b n = map digit_char (nat_digits b n)"

text \<open>\<^verbatim>\<open>str(i)\<close>\<close>

definition int_str :: "int \<Rightarrow> string" where
  "int_str i = (if i < 0 then ''-'' @ nat_str 10 (nat (- i)) else nat_str 10 (nat i))"

text \<open>\<^verbatim>\<open>hex(i)\<close>\<close>

definition hex_str :: "int \<Rightarrow> string" where
  "hex_str i =
     (if i < 0 then ''-0x'' @ nat_str 16 (nat (- i)) else ''0x'' @ nat_str 16 (nat i))"

text \<open>Digits with single underscores between them, as the Python literals allow.\<close>

fun scan_digits :: "nat \<Rightarrow> nat \<Rightarrow> string \<Rightarrow> nat option" where
  "scan_digits b acc [] = Some acc"
| "scan_digits b acc (c # cs) =
     (if c = CHR ''_''
      then (case cs of
              [] \<Rightarrow> None
            | d # ds \<Rightarrow> (case digit_of b d of
                          None \<Rightarrow> None
                        | Some v \<Rightarrow> scan_digits b (acc * b + v) ds))
      else (case digit_of b c of
              None \<Rightarrow> None
            | Some v \<Rightarrow> scan_digits b (acc * b + v) cs))"

fun scan_number :: "nat \<Rightarrow> string \<Rightarrow> nat option" where
  "scan_number b [] = None"
| "scan_number b (c # cs) =
     (case digit_of b c of None \<Rightarrow> None | Some v \<Rightarrow> scan_digits b v cs)"

definition is_space :: "char \<Rightarrow> bool" where
  "is_space c = (let n = (of_char c :: nat)
     in 9 \<le> n \<and> n \<le> 13 \<or> 28 \<le> n \<and> n \<le> 32 \<or> n = 133 \<or> n = 160)"

definition strip :: "string \<Rightarrow> string" where
  "strip s = rev (dropWhile is_space (rev (dropWhile is_space s)))"

text \<open>The optional prefix \<^verbatim>\<open>0x\<close> of a base 16 literal; an underscore may follow it.\<close>

fun drop_hex_prefix :: "string \<Rightarrow> string" where
  "drop_hex_prefix (a # b # cs) =
     (if a = CHR ''0'' \<and> (b = CHR ''x'' \<or> b = CHR ''X'')
      then (case cs of c # ds \<Rightarrow> (if c = CHR ''_'' then ds else cs) | [] \<Rightarrow> [])
      else a # b # cs)"
| "drop_hex_prefix s = s"

text \<open>\<^verbatim>\<open>int(s, 16)\<close> of a string\<close>

definition parse_int16 :: "string \<Rightarrow> exn + int" where
  "parse_int16 s =
     (let t = strip s;
          neg = (take 1 t = ''-'');
          body = (if take 1 t = ''-'' \<or> take 1 t = ''+'' then drop 1 t else t)
      in case scan_number 16 (drop_hex_prefix body) of
           None \<Rightarrow> Inl (Exn ValueError ''invalid literal for int() with base 16'')
         | Some n \<Rightarrow> Inr (if neg then - int n else int n))"

text \<open>\<^verbatim>\<open>int(x, 16)\<close> of a decoded JSON value: only a string may have a base.\<close>

fun int16 :: "json \<Rightarrow> exn + int" where
  "int16 (JStr s) = parse_int16 s"
| "int16 j = Inl (Exn TypeError ''int() can't convert non-string with explicit base'')"

lemma int16_Exception: "int16 j = Inl e \<Longrightarrow> is_Exception e"
  by (cases j) (auto simp: parse_int16_def Let_def split: option.splits)

lemma scan_digits_map:
  "b \<le> 36 \<Longrightarrow> (\<forall>d \<in> set ds. d < b) \<Longrightarrow>
     scan_digits b acc (map digit_char ds) = Some (digits_value b acc ds)"
proof (induction ds arbitrary: acc)
  case Nil
  then show ?case by simp
next
  case (Cons d ds)
  then show ?case
    using digit_char_neq[of d] by (simp add: digit_of_digit_char)
qed

lemma scan_number_map:
  assumes "b \<le> 36" "\<forall>d \<in> set ds. d < b" "ds \<noteq> []"
  shows "scan_number b (map digit_char ds) = Some (digits_value b 0 ds)"
  using assms by (cases ds) (simp_all add: digit_of_digit_char scan_digits_map)

lemma scan_number_nat_str:
  "2 \<le> b \<Longrightarrow> b \<le> 36 \<Longrightarrow> scan_number b (nat_str b n) = Some n"
  by (simp add: nat_str_def scan_number_map nat_digits_bound nat_digits_value)

lemma digit_char_not_space: "d < 36 \<Longrightarrow> \<not> is_space (digit_char d)"
  by (auto simp: is_space_def of_char_digit_char Let_def)

lemma strip_id:
  assumes "s \<noteq> []" "\<not> is_space (hd s)" "\<not> is_space (last s)"
  shows "strip s = s"
proof -
  have "dropWhile is_space s = s"
    using assms by (cases s) auto
  moreover have "dropWhile is_space (rev s) = rev s"
    using assms by (cases s rule: rev_cases) auto
  ultimately show ?thesis by (simp add: strip_def)
qed

lemma nat_str_ne [simp]: "nat_str b n \<noteq> []"
  by (simp add: nat_str_def)

lemma last_nat_str_not_space:
  assumes "2 \<le> b" "b \<le> 36"
  shows "\<not> is_space (last (nat_str b n))"
proof -
  have "last (nat_digits b n) < b"
    using assms nat_digits_bound last_in_set nat_digits_ne by metis
  then show ?thesis
    using assms by (simp add: nat_str_def last_map digit_char_not_space)
qed

lemma drop_hex_prefix_hex: "drop_hex_prefix (''0x'' @ nat_str 16 n) = nat_str 16 n"
proof -
  obtain d ds where ds: "nat_digits 16 n = d # ds"
    by (cases "nat_digits 16 n") auto
  then have "d < 16"
    using nat_digits_bound[of 16 d n] by simp
  then show ?thesis
    using ds digit_char_neq[of d] by (simp add: nat_str_def)
qed

lemma parse_int16_hex_str: "parse_int16 (hex_str i) = Inr i"
proof -
  have sp: "\<not> is_space CHR ''0''" "\<not> is_space CHR ''-''"
    by (simp_all add: is_space_def)
  have "strip (hex_str i) = hex_str i"
    by (rule strip_id) (auto simp: hex_str_def sp last_nat_str_not_space)
  then show ?thesis
    by (auto simp: parse_int16_def hex_str_def Let_def
          drop_hex_prefix_hex[simplified] scan_number_nat_str)
qed

section \<open>JSON text\<close>

text \<open>\<^verbatim>\<open>json.dumps\<close> with its defaults: separators \<^verbatim>\<open>', '\<close> and \<^verbatim>\<open>': '\<close>, ASCII only.\<close>

definition escape_char :: "char \<Rightarrow> string" where
  "escape_char c =
     (let n = (of_char c :: nat); bs = CHR 0x5C
      in if n = 34 then [bs, CHR 0x22]
         else if n = 92 then [bs, bs]
         else if n = 10 then [bs, CHR ''n'']
         else if n = 13 then [bs, CHR ''r'']
         else if n = 9 then [bs, CHR ''t'']
         else if n = 12 then [bs, CHR ''f'']
         else if n = 8 then [bs, CHR ''b'']
         else if n < 32 \<or> 126 < n
           then [bs, CHR ''u'', CHR ''0'', CHR ''0'', digit_char (n div 16), digit_char (n mod 16)]
         else [c])"

definition json_string :: "string \<Rightarrow> string" where
  "json_string s = [CHR 0x22] @ concat (map escape_char s) @ [CHR 0x22]"

fun sep_concat :: "string \<Rightarrow> string list \<Rightarrow> string" where
  "sep_concat sep [] = []"
| "sep_concat sep [x] = x"
| "sep_concat sep (x # y # ys) = x @ sep @ sep_concat sep (y # ys)"

fun json_dumps :: "json \<Rightarrow> string" where
  "json_dumps JNull = ''null''"
| "json_dumps (JBool b) = (if b then ''true'' else ''false'')"
| "json_dumps (JInt i) = int_str i"
| "json_dumps (JStr s) = json_string s"
| "json_dumps (JList xs) = ''['' @ sep_concat '', '' (map json_dumps xs) @ '']''"
| "json_dumps (JObj kvs) =
     ''{'' @ sep_concat '', '' (map (\<lambda>(k, v). json_string k @ '': '' @ json_dumps v) kvs) @ ''}''"

text \<open>\<^verbatim>\<open>json.loads\<close> of a document that is an integer; any other document is not one the
  program stores where it reads an integer back.\<close>

text \<open>
  \<^verbatim>\<open>repr\<close> of a decoded JSON value. Text is in single quotes, or in double quotes where it
  holds a single quote and no double quote; code points are those of Latin-1.
\<close>

definition repr_char :: "char \<Rightarrow> char \<Rightarrow> string" where
  "repr_char quote_char c =
     (let n = of_char c :: nat in
      if c = quote_char \<or> n = 92 then [CHR 0x5C, c]
      else if n = 9 then [CHR 0x5C, CHR ''t'']
      else if n = 10 then [CHR 0x5C, CHR ''n'']
      else if n = 13 then [CHR 0x5C, CHR ''r'']
      else if n < 32 \<or> (127 \<le> n \<and> n \<le> 160) \<or> n = 173
      then [CHR 0x5C, CHR ''x'', digit_char (n div 16), digit_char (n mod 16)]
      else [c])"

definition repr_string :: "string \<Rightarrow> string" where
  "repr_string s =
     (let quote_char = (if CHR 0x27 \<in> set s \<and> CHR 0x22 \<notin> set s then CHR 0x22 else CHR 0x27)
      in [quote_char] @ concat (map (repr_char quote_char) s) @ [quote_char])"

fun py_repr :: "json \<Rightarrow> string" where
  "py_repr JNull = ''None''"
| "py_repr (JBool b) = (if b then ''True'' else ''False'')"
| "py_repr (JInt i) = int_str i"
| "py_repr (JStr s) = repr_string s"
| "py_repr (JList xs) = ''['' @ sep_concat '', '' (map py_repr xs) @ '']''"
| "py_repr (JObj kvs) =
     ''{'' @ sep_concat '', '' (map (\<lambda>(k, v). repr_string k @ '': '' @ py_repr v) kvs) @ ''}''"

definition json_space :: "char \<Rightarrow> bool" where
  "json_space c \<longleftrightarrow> of_char c \<in> {32 :: nat, 9, 10, 13}"

definition json_nat :: "string \<Rightarrow> nat option" where
  "json_nat s =
     (if s = [] \<or> (\<exists>c \<in> set s. digit_of 10 c = None) \<or> (hd s = CHR ''0'' \<and> 1 < length s)
      then None else scan_number 10 s)"

definition json_loads_int :: "string \<Rightarrow> exn + int" where
  "json_loads_int s =
     (let t = rev (dropWhile json_space (rev (dropWhile json_space s)));
          neg = (take 1 t = ''-'')
      in case json_nat (if neg then drop 1 t else t) of
           None \<Rightarrow> Inl (Exn ValueError ''JSONDecodeError'')
         | Some n \<Rightarrow> Inr (if neg then - int n else int n))"

lemma json_nat_nat_str: "json_nat (nat_str 10 n) = Some n"
proof (cases "n = 0")
  case True
  then show ?thesis
    by (simp add: json_nat_def nat_str_def nat_digits_zero digit_of_digit_char)
next
  case False
  have dig: "\<forall>c \<in> set (nat_str 10 n). digit_of 10 c \<noteq> None"
    using nat_digits_bound[of 10 _ n] by (auto simp: nat_str_def digit_of_digit_char)
  have "hd (nat_digits 10 n) < 10"
    using nat_digits_bound[of 10 _ n] hd_in_set nat_digits_ne by fastforce
  moreover have "0 < hd (nat_digits 10 n)"
    using False nat_digits_hd_pos by simp
  ultimately have "of_char (hd (nat_str 10 n)) \<noteq> (48 :: nat)"
    by (simp add: nat_str_def hd_map of_char_digit_char)
  then have "hd (nat_str 10 n) \<noteq> CHR ''0''" by auto
  with dig show ?thesis
    by (auto simp: json_nat_def scan_number_nat_str)
qed

lemma json_space_is_space: "json_space c \<Longrightarrow> is_space c"
  by (auto simp: json_space_def is_space_def)

lemma json_loads_int_str: "json_loads_int (int_str i) = Inr i"
proof -
  let ?s = "int_str i"
  have d: "\<not> json_space (digit_char k)" if "k < 10" for k
    using that digit_char_not_space json_space_is_space by fastforce
  have hd10: "hd (nat_digits 10 n) < 10" for n
    using nat_digits_bound[of 10 _ n] hd_in_set nat_digits_ne by fastforce
  have last10: "last (nat_digits 10 n) < 10" for n
    using nat_digits_bound[of 10 _ n] last_in_set nat_digits_ne by fastforce
  have "\<not> json_space (hd ?s)" "?s \<noteq> []"
    by (auto simp: int_str_def nat_str_def hd_map d hd10) (simp add: json_space_def)
  then have "dropWhile json_space ?s = ?s"
    by (cases ?s) auto
  moreover have "\<not> json_space (last ?s)"
    by (auto simp: int_str_def nat_str_def last_map d last10)
  then have "dropWhile json_space (rev ?s) = rev ?s"
    using \<open>?s \<noteq> []\<close> by (cases ?s rule: rev_cases) auto
  ultimately have t: "rev (dropWhile json_space (rev (dropWhile json_space ?s))) = ?s"
    by simp
  have "take 1 (nat_str 10 n) \<noteq> ''-''" for n
    using digit_char_neq[of "hd (nat_digits 10 n)"] hd10[of n]
    by (cases "nat_digits 10 n") (auto simp: nat_str_def)
  then show ?thesis
    unfolding json_loads_int_def Let_def t
    by (auto simp: int_str_def json_nat_nat_str)
qed

section \<open>Exceptions as text\<close>

text \<open>
  \<^verbatim>\<open>str(e)\<close>. \<^verbatim>\<open>RPCException.__str__\<close> of \<^verbatim>\<open>utils/exceptions.py\<close> dumps its fields; the
  underlying exception appears only where it is an exception.
\<close>

fun exn_str :: "exn \<Rightarrow> string" where
  "exn_str (Exn c m) = m"
| "exn_str (RPCException rq rs u x) =
     json_dumps (JObj
       [(''request'', rq), (''response'', rs), (''extra_info'', x),
        (''exception'', (case u of CauseExn e \<Rightarrow> JStr (exn_str e) | _ \<Rightarrow> JNull))])"

end
