(* ===== verification/Data_Models.thy ===== *)
theory Data_Models
  imports Py_Strings
begin

text \<open>
  The records of \<^verbatim>\<open>data_models.py\<close> that the two services read: the settings tree loaded by
  \<^verbatim>\<open>settings/conf.py\<close>, and the report \<^verbatim>\<open>GenericTxnIssue\<close>. Field names carry a prefix, since
  Isabelle's record fields are global. Pydantic gives an \<^verbatim>\<open>Optional\<close> field without default
  the value \<^verbatim>\<open>None\<close> and turns an \<^verbatim>\<open>int\<close> given for a \<^verbatim>\<open>str\<close> field into its decimal text.
\<close>

record redis_config =
  redis_host :: string
  redis_port :: int
  redis_db :: int
  redis_password :: "string option"

record rpc_node_config =
  node_url :: string
  node_rate_limit :: string

record connection_limits =
  max_connections :: int
  max_keepalive_connections :: int
  keepalive_expiry :: int

record rpc_config_base =
  full_nodes :: "rpc_node_config list"
  archive_nodes :: "rpc_node_config list option"
  force_archive_blocks :: "int option"
  rpc_retry :: int
  request_time_out :: int
  conn_limits :: connection_limits

record epoch_config =
  epoch_height :: int
  head_offset :: int
  epoch_block_time :: int
  history_length :: int

record chain_config =
  chain_rpc :: rpc_config_base
  source_chain_id :: int
  chain_epoch :: epoch_config

record anchor_chain_config =
  anchor_rpc :: rpc_config_base
  default_gas_in_gwei :: real
  anchor_block_time :: int
  max_block_buffer :: int
  anchor_chain_id :: int
  polling_interval :: int

record rlimit =
  file_descriptors :: int

record reporting_config =
  slack_url :: string
  service_url :: string

record settings =
  st_redis :: redis_config
  st_chain :: chain_config
  st_anchor_chain :: anchor_chain_config
  st_rate_limit :: string
  st_reporting :: reporting_config
  st_rlimit :: rlimit
  ticker_begin_block :: "int option"
  protocol_state_address :: string
  validator_epoch_address :: string
  validator_epoch_private_key :: string
  force_consensus_address :: string
  force_consensus_private_key :: string
  epoch_release_start_timestamp :: int

text \<open>The report of a failed transaction; \<open>generic_txn_issue_dict\<close> is its \<^verbatim>\<open>dict()\<close>.\<close>

record generic_txn_issue =
  account_address :: string
  issue_type :: string
  issue_project_id :: "string option"
  issue_epoch_begin :: "string option"
  issue_epoch_id :: "string option"
  issue_extra :: "string option"

definition opt_str :: "string option \<Rightarrow> json" where
  "opt_str x = (case x of None \<Rightarrow> JNull | Some s \<Rightarrow> JStr s)"

definition generic_txn_issue_dict :: "generic_txn_issue \<Rightarrow> json" where
  "generic_txn_issue_dict i = JObj
     [(''accountAddress'', JStr (account_address i)),
      (''issueType'', JStr (issue_type i)),
      (''projectId'', opt_str (issue_project_id i)),
      (''epochBegin'', opt_str (issue_epoch_begin i)),
      (''epochId'', opt_str (issue_epoch_id i)),
      (''extra'', opt_str (issue_extra i))]"

text \<open>The settings shortcuts the services use.\<close>

abbreviation epoch_of :: "settings \<Rightarrow> epoch_config" where
  "epoch_of cfg \<equiv> chain_epoch (st_chain cfg)"

abbreviation height_of :: "settings \<Rightarrow> int" where
  "height_of cfg \<equiv> epoch_height (chain_epoch (st_chain cfg))"

abbreviation offset_of :: "settings \<Rightarrow> int" where
  "offset_of cfg \<equiv> head_offset (chain_epoch (st_chain cfg))"

abbreviation block_time_of :: "settings \<Rightarrow> int" where
  "block_time_of cfg \<equiv> epoch_block_time (chain_epoch (st_chain cfg))"

text \<open>
  The settings of \<^verbatim>\<open>settings/settings.example.json\<close> with its placeholders filled in, used
  by the examples of the other theories.
\<close>

definition example_rpc :: rpc_config_base where
  "example_rpc =
     \<lparr>full_nodes = [\<lparr>node_url = ''https://rpc-url'', node_rate_limit = ''300/second''\<rparr>],
      archive_nodes = None, force_archive_blocks = None, rpc_retry = 5, request_time_out = 5,
      conn_limits = \<lparr>max_connections = 100, max_keepalive_connections = 50,
                     keepalive_expiry = 300\<rparr>\<rparr>"

definition example_settings :: settings where
  "example_settings =
     \<lparr>st_redis = \<lparr>redis_host = ''redis'', redis_port = 6379, redis_db = 0, redis_password = None\<rparr>,
      st_chain = \<lparr>chain_rpc = example_rpc, source_chain_id = 1,
        chain_epoch = \<lparr>epoch_height = 10, head_offset = 2, epoch_block_time = 12,
                       history_length = 1000\<rparr>\<rparr>,
      st_anchor_chain = \<lparr>anchor_rpc = example_rpc, default_gas_in_gwei = 1 / 10000,
        anchor_block_time = 1, max_block_buffer = 20, anchor_chain_id = 102,
        polling_interval = 2\<rparr>,
      st_rate_limit = ''20/second'',
      st_reporting = \<lparr>slack_url = ''https://slack'', service_url = ''https://report''\<rparr>,
      st_rlimit = \<lparr>file_descriptors = 2048\<rparr>,
      ticker_begin_block = Some 0,
      protocol_state_address = ''0xstate'',
      validator_epoch_address = ''0xvalidator'',
      validator_epoch_private_key = ''key1'',
      force_consensus_address = ''0xforce'',
      force_consensus_private_key = ''key2'',
      epoch_release_start_timestamp = 0\<rparr>"

lemma example_numbers [simp]:
  "height_of example_settings = 10" "offset_of example_settings = 2"
  "block_time_of example_settings = 12" "rpc_retry example_rpc = 5"
  "chain_rpc (st_chain example_settings) = example_rpc"
  "anchor_rpc (st_anchor_chain example_settings) = example_rpc"
  "anchor_chain_id (st_anchor_chain example_settings) = 102"
  by (simp_all add: example_settings_def example_rpc_def)

end
