(* ===== verification/Environment.thy ===== *)
theory Environment
  imports Retry Data_Models
begin

text \<open>
  What the services call outside the repository: the clock, the packages web3, requests and
  redis, and through them the chains and the stores. Each entry is a parameter of the model:
  from the state of the environment it answers or raises, and it may change that state. An
  entry with no state is a pure conversion of a package.
\<close>

record 'w env =
  time_time :: "'w \<Rightarrow> (exn + real) \<times> 'w"
  async_sleep :: "int \<Rightarrow> 'w \<Rightarrow> (exn + unit) \<times> 'w"
  time_sleep :: "int \<Rightarrow> 'w \<Rightarrow> (exn + unit) \<times> 'w"
  get_transaction_count :: "string \<Rightarrow> 'w \<Rightarrow> (exn + int) \<times> 'w"
  contract_function :: "string \<Rightarrow> json list \<Rightarrow> exn + string"
  to_wei_gwei :: "real \<Rightarrow> exn + int"
  build_transaction :: "string \<Rightarrow> txn \<Rightarrow> 'w \<Rightarrow> (exn + string) \<times> 'w"
  sign_transaction :: "string \<Rightarrow> string \<Rightarrow> exn + string"
  send_raw_transaction :: "string \<Rightarrow> 'w \<Rightarrow> (exn + string) \<times> 'w"
  hash_hex :: "string \<Rightarrow> string"
  wait_for_transaction_receipt :: "string \<Rightarrow> 'w \<Rightarrow> (exn + json) \<times> 'w"
  current_epoch_call :: "'w \<Rightarrow> (exn + int list) \<times> 'w"
  submission_window_call :: "'w \<Rightarrow> (exn + int) \<times> 'w"
  web3_to_json :: "json \<Rightarrow> exn + string"
  requests_post_json :: "string \<Rightarrow> json \<Rightarrow> int \<Rightarrow> 'w \<Rightarrow> (exn + json) \<times> 'w"

text \<open>\<^verbatim>\<open>time.time()\<close>, and the two kinds of sleep.\<close>

definition nowM :: "('w, 'e) env_scheme \<Rightarrow> (('w, 'z) world_scheme, real) M" where
  "nowM env = extM (time_time env)"

definition asyncSleepM :: "('w, 'e) env_scheme \<Rightarrow> int \<Rightarrow> (('w, 'z) world_scheme, unit) M" where
  "asyncSleepM env n = callM (AsyncSleep n) (async_sleep env n)"

definition timeSleepM :: "('w, 'e) env_scheme \<Rightarrow> int \<Rightarrow> (('w, 'z) world_scheme, unit) M" where
  "timeSleepM env n = callM (BlockingSleep n) (time_sleep env n)"

lemma logs_nowM [logging]: "keepsM (logs P) (nowM env)"
  by (simp add: nowM_def logging)

lemma logs_asyncSleepM [logging]: "P (AsyncSleep n) \<Longrightarrow> keepsM (logs P) (asyncSleepM env n)"
  by (simp add: asyncSleepM_def logging)

lemma logs_timeSleepM [logging]: "P (BlockingSleep n) \<Longrightarrow> keepsM (logs P) (timeSleepM env n)"
  by (simp add: timeSleepM_def logging)

lemma grows_nowM [growing]: "keepsM (grows P) (nowM env)"
  by (simp add: nowM_def growing)

lemma grows_asyncSleepM [growing]: "P (AsyncSleep n) \<Longrightarrow> keepsM (grows P) (asyncSleepM env n)"
  by (simp add: asyncSleepM_def growing)

lemma grows_timeSleepM [growing]: "P (BlockingSleep n) \<Longrightarrow> keepsM (grows P) (timeSleepM env n)"
  by (simp add: timeSleepM_def growing)

text \<open>
  An environment for the examples: no call changes it, sleeps return at once, every
  transaction is accepted and mined, the contract has no epoch, and no RPC node answers.
  An example overrides the entries it is about.
\<close>

definition basic_env :: "'w env" where
  "basic_env =
     \<lparr>time_time = (\<lambda>w. (Inr 1000, w)),
      async_sleep = (\<lambda>n w. (Inr (), w)),
      time_sleep = (\<lambda>n w. (Inr (), w)),
      get_transaction_count = (\<lambda>a w. (Inr 7, w)),
      contract_function = (\<lambda>f args. Inr f),
      to_wei_gwei = (\<lambda>g. Inr \<lfloor>g * 1000000000\<rfloor>),
      build_transaction = (\<lambda>f tx w. (Inr ''built'', w)),
      sign_transaction = (\<lambda>b key. Inr ''signed''),
      send_raw_transaction = (\<lambda>r w. (Inr ''hash'', w)),
      hash_hex = (\<lambda>h. h),
      wait_for_transaction_receipt = (\<lambda>h w. (Inr (JObj [(''status'', JInt 1)]), w)),
      current_epoch_call = (\<lambda>w. (Inr [0, 0, 0], w)),
      submission_window_call = (\<lambda>w. (Inr 10, w)),
      web3_to_json = (\<lambda>r. Inr ''receipt''),
      requests_post_json = (\<lambda>u q n w. (Inl (Exn RequestsConnectionError ''refused''), w))\<rparr>"

end
