(* ===== verification/Transaction_Utils.thy ===== *)
theory Transaction_Utils
  imports Environment
begin

text \<open>
  \<^verbatim>\<open>utils/transaction_utils.py\<close>: building, signing and sending one transaction of the
  protocol state contract, with or without waiting for its receipt.
\<close>

section \<open>The code\<close>

definition gas_limit :: int where
  "gas_limit = 2000000"

definition write_transaction ::
  "settings \<Rightarrow> ('w, 'e) env_scheme \<Rightarrow> string \<Rightarrow> string \<Rightarrow> string \<Rightarrow> int \<Rightarrow> real \<Rightarrow> json list \<Rightarrow>
     (('w, 'z) world_scheme, string) M" where
  "write_transaction cfg env address private_key function nonce gas args =
     bindM (liftM (contract_function env function args)) (\<lambda>func.
     bindM (liftM (to_wei_gwei env gas)) (\<lambda>price.
     (let tx = \<lparr>tx_from = address, tx_function = function, tx_args = args,
                tx_gas_limit = gas_limit, tx_gas_price = price, tx_nonce = nonce,
                tx_chain_id = anchor_chain_id (st_anchor_chain cfg)\<rparr>
      in bindM (extM (build_transaction env func tx)) (\<lambda>transaction.
         bindM (liftM (sign_transaction env transaction private_key)) (\<lambda>signed.
         bindM (callM (TxSubmit tx) (send_raw_transaction env signed)) (\<lambda>tx_hash.
         returnM (hash_hex env tx_hash)))))))"

definition write_transaction_with_receipt ::
  "settings \<Rightarrow> ('w, 'e) env_scheme \<Rightarrow> string \<Rightarrow> string \<Rightarrow> string \<Rightarrow> int \<Rightarrow> real \<Rightarrow> json list \<Rightarrow>
     (('w, 'z) world_scheme, string \<times> json) M" where
  "write_transaction_with_receipt cfg env address private_key function nonce gas args =
     bindM (write_transaction cfg env address private_key function nonce gas args) (\<lambda>tx_hash.
     bindM (callM (AwaitReceipt tx_hash) (wait_for_transaction_receipt env tx_hash)) (\<lambda>receipt.
     returnM (tx_hash, receipt)))"

section \<open>The contract of a writer\<close>

text \<open>
  What the services rely on, of either way of writing: the program's fields are left alone,
  at most one transaction is submitted, it carries the sender, function, nonce and arguments
  given, priced at the gas given, and a writer that returns has submitted one.
\<close>

definition carries ::
  "settings \<Rightarrow> ('w, 'e) env_scheme \<Rightarrow> string \<Rightarrow> string \<Rightarrow> int \<Rightarrow> real \<Rightarrow> json list \<Rightarrow> txn \<Rightarrow> bool" where
  "carries cfg env address function nonce gas args tx \<longleftrightarrow>
     tx_from tx = address \<and> tx_function tx = function \<and> tx_args tx = args \<and>
     tx_nonce tx = nonce \<and> to_wei_gwei env gas = Inr (tx_gas_price tx) \<and>
     tx_gas_limit tx = gas_limit \<and> tx_chain_id tx = anchor_chain_id (st_anchor_chain cfg)"

fun tx_traffic :: "event \<Rightarrow> bool" where
  "tx_traffic (TxSubmit tx) = True"
| "tx_traffic (AwaitReceipt h) = True"
| "tx_traffic ev = False"

locale tx_writer =
  fixes carried :: "int \<Rightarrow> real \<Rightarrow> json list \<Rightarrow> txn \<Rightarrow> bool"
    and send_tx :: "int \<Rightarrow> real \<Rightarrow> json list \<Rightarrow> (('w, 'z) world_scheme, 'a) M"
  assumes write_logs: "keepsM (logs tx_traffic) (send_tx n g args)"
    and write_one: "send_tx n g args s = (r, t) \<Longrightarrow> trace t = trace s @ evs \<Longrightarrow>
          submitted evs = [] \<or> (\<exists>tx. submitted evs = [tx] \<and> carried n g args tx)"
    and write_Ret: "send_tx n g args s = (Ret a, t) \<Longrightarrow> trace t = trace s @ evs \<Longrightarrow>
          \<exists>tx. submitted evs = [tx] \<and> carried n g args tx"
    and write_returns: "fst (send_tx n g args s) \<noteq> Pending"
begin

lemma write_frame:
  assumes "send_tx n g args s = (r, t)"
  obtains w evs where "t = s\<lparr>ext := w, trace := trace s @ evs\<rparr>" and "list_all tx_traffic evs"
    and "submitted evs = [] \<or> (\<exists>tx. submitted evs = [tx] \<and> carried n g args tx)"
proof -
  from write_logs assms obtain w evs where
    t: "t = s\<lparr>ext := w, trace := trace s @ evs\<rparr>" "list_all tx_traffic evs"
    by (rule logsE)
  moreover from assms have "submitted evs = [] \<or> (\<exists>tx. submitted evs = [tx] \<and> carried n g args tx)"
    by (rule write_one) (simp add: t)
  ultimately show thesis by (rule that)
qed

lemma write_success:
  assumes "send_tx n g args s = (Ret a, t)"
  obtains w evs tx where "t = s\<lparr>ext := w, trace := trace s @ evs\<rparr>" and "list_all tx_traffic evs"
    and "submitted evs = [tx]" and "carried n g args tx"
proof -
  from write_logs assms obtain w evs where
    t: "t = s\<lparr>ext := w, trace := trace s @ evs\<rparr>" "list_all tx_traffic evs"
    by (rule logsE)
  moreover from assms obtain tx where "submitted evs = [tx]" "carried n g args tx"
    using write_Ret[of n g args s a t evs] t by auto
  ultimately show thesis by (rule that)
qed

text \<open>A property of transactions that every carried one has holds of all that are submitted.\<close>

lemma write_grows:
  assumes "\<And>tx. carried n g args tx \<Longrightarrow> Q tx"
  shows "keepsM (grows (\<lambda>ev. \<forall>tx. ev = TxSubmit tx \<longrightarrow> Q tx)) (send_tx n g args)"
proof (rule keepsMI)
  fix s r t
  assume "send_tx n g args s = (r, t)"
  then obtain w evs where "t = s\<lparr>ext := w, trace := trace s @ evs\<rparr>"
    and one: "submitted evs = [] \<or> (\<exists>tx. submitted evs = [tx] \<and> carried n g args tx)"
    by (rule write_frame)
  moreover have "Q tx" if "TxSubmit tx \<in> set evs" for tx
    using one assms that in_submitted[of tx evs] by fastforce
  then have "list_all (\<lambda>ev. \<forall>tx. ev = TxSubmit tx \<longrightarrow> Q tx) evs"
    by (auto simp: list_all_iff)
  ultimately show "grows (\<lambda>ev. \<forall>tx. ev = TxSubmit tx \<longrightarrow> Q tx) s t"
    by (auto simp: grows_def)
qed

end

lemma write_transaction_cases:
  obtains (silent) e w where
      "write_transaction cfg env address key function n g args s = (Raise e, s\<lparr>ext := w\<rparr>)"
  | (sent) tx r w where
      "write_transaction cfg env address key function n g args s =
         (r, s\<lparr>ext := w, trace := trace s @ [TxSubmit tx]\<rparr>)"
      "carries cfg env address function n g args tx" "r \<noteq> Pending"
proof -
  show thesis
  proof (cases "contract_function env function args")
    case (Inl e)
    then show thesis
      using silent[of e "ext s"] by (simp add: write_transaction_def M_simps bindM_def)
  next
    case func: (Inr func)
    show thesis
    proof (cases "to_wei_gwei env g")
      case (Inl e)
      then show thesis
        using silent[of e "ext s"] func by (simp add: write_transaction_def M_simps bindM_def)
    next
      case price: (Inr price)
      let ?tx = "\<lparr>tx_from = address, tx_function = function, tx_args = args,
                  tx_gas_limit = gas_limit, tx_gas_price = price, tx_nonce = n,
                  tx_chain_id = anchor_chain_id (st_anchor_chain cfg)\<rparr>"
      have tx: "carries cfg env address function n g args ?tx"
        by (simp add: carries_def price)
      obtain b w where b: "build_transaction env func ?tx (ext s) = (b, w)"
        by (cases "build_transaction env func ?tx (ext s)")
      show thesis
      proof (cases b)
        case (Inl e)
        then show thesis
          using silent[of e w] func price b
          by (simp add: write_transaction_def M_simps bindM_def Let_def)
      next
        case built: (Inr built)
        show thesis
        proof (cases "sign_transaction env built key")
          case (Inl e)
          then show thesis
            using silent[of e w] func price b built
            by (simp add: write_transaction_def M_simps bindM_def Let_def)
        next
          case signed: (Inr signed)
          obtain h w' where h: "send_raw_transaction env signed w = (h, w')"
            by (cases "send_raw_transaction env signed w")
          show thesis
            using func price b built signed h sent[OF _ tx]
            by (cases h) (simp_all add: write_transaction_def M_defs Let_def)
        qed
      qed
    qed
  qed
qed

lemma write_transaction_with_receipt_cases:
  obtains (silent) e w where
      "write_transaction_with_receipt cfg env address key function n g args s =
         (Raise e, s\<lparr>ext := w\<rparr>)"
  | (unsent) tx e w where
      "write_transaction_with_receipt cfg env address key function n g args s =
         (Raise e, s\<lparr>ext := w, trace := trace s @ [TxSubmit tx]\<rparr>)"
      "carries cfg env address function n g args tx"
  | (sent) tx h r w where
      "write_transaction_with_receipt cfg env address key function n g args s =
         (r, s\<lparr>ext := w, trace := trace s @ [TxSubmit tx, AwaitReceipt h]\<rparr>)"
      "carries cfg env address function n g args tx" "r \<noteq> Pending"
proof (cases rule: write_transaction_cases[of cfg env address key "function" n g args s])
  case (silent e w)
  then show thesis
    using that(1)[of e w] by (simp add: write_transaction_with_receipt_def M_simps)
next
  case (sent tx r w)
  show thesis
  proof (cases r)
    case (Ret h)
    obtain rc w' where rc: "wait_for_transaction_receipt env h w = (rc, w')"
      by (cases "wait_for_transaction_receipt env h w")
    show thesis
      using sent Ret rc that(3)[OF _ sent(2)]
      by (cases rc) (simp_all add: write_transaction_with_receipt_def M_defs)
  next
    case (Raise e)
    then show thesis
      using sent that(2)[OF _ sent(2)]
      by (simp add: write_transaction_with_receipt_def M_simps)
  qed (use sent in simp)
qed

lemma write_transaction_never_pending:
  "fst (write_transaction cfg env address key function n g args s) \<noteq> Pending"
  by (cases rule: write_transaction_cases[of cfg env address key "function" n g args s]) auto

lemma write_transaction_with_receipt_never_pending:
  "fst (write_transaction_with_receipt cfg env address key function n g args s) \<noteq> Pending"
  by (cases rule: write_transaction_with_receipt_cases[of cfg env address key "function" n g args s])
     auto

lemma logs_write_transaction [logging]:
  "keepsM (logs tx_traffic) (write_transaction cfg env address key function n g args)"
  unfolding write_transaction_def Let_def by (intro logging) simp

lemma logs_write_transaction_with_receipt [logging]:
  "keepsM (logs tx_traffic) (write_transaction_with_receipt cfg env address key function n g args)"
  unfolding write_transaction_with_receipt_def by (intro logging) simp

lemma write_transaction_one:
  assumes "write_transaction cfg env address key fn n g args s = (r, t)"
    and "trace t = trace s @ evs"
  shows "submitted evs = [] \<or>
           (\<exists>tx. submitted evs = [tx] \<and> carries cfg env address fn n g args tx)"
    and "r = Ret a \<Longrightarrow> \<exists>tx. submitted evs = [tx] \<and> carries cfg env address fn n g args tx"
  using assms
  by (cases rule: write_transaction_cases[of cfg env address key fn n g args s]; force)+

lemma write_transaction_with_receipt_one:
  assumes "write_transaction_with_receipt cfg env address key fn n g args s = (r, t)"
    and "trace t = trace s @ evs"
  shows "submitted evs = [] \<or>
           (\<exists>tx. submitted evs = [tx] \<and> carries cfg env address fn n g args tx)"
    and "r = Ret a \<Longrightarrow> \<exists>tx. submitted evs = [tx] \<and> carries cfg env address fn n g args tx"
  using assms
  by (cases rule: write_transaction_with_receipt_cases[of cfg env address key fn n g args s]; force)+

interpretation wt: tx_writer "carries cfg env address fn"
    "write_transaction cfg env address key fn"
  for cfg env address key fn
  by unfold_locales
     (fact logs_write_transaction, erule (1) write_transaction_one(1),
      erule (1) write_transaction_one(2), rule refl, fact write_transaction_never_pending)

interpretation wr: tx_writer "carries cfg env address fn"
    "write_transaction_with_receipt cfg env address key fn"
  for cfg env address key fn
  by unfold_locales
     (fact logs_write_transaction_with_receipt, erule (1) write_transaction_with_receipt_one(1),
      erule (1) write_transaction_with_receipt_one(2), rule refl,
      fact write_transaction_with_receipt_never_pending)

section \<open>A healthy chain\<close>

text \<open>The anchor chain takes every transaction; a healthy one also mines it with status 1.\<close>

definition accepts :: "('w, 'e) env_scheme \<Rightarrow> bool" where
  "accepts env \<longleftrightarrow>
     (\<forall>f args. \<exists>x. contract_function env f args = Inr x) \<and>
     (\<forall>g. \<exists>x. to_wei_gwei env g = Inr x) \<and>
     (\<forall>f tx w. \<exists>x w'. build_transaction env f tx w = (Inr x, w')) \<and>
     (\<forall>b k. \<exists>x. sign_transaction env b k = Inr x) \<and>
     (\<forall>b w. \<exists>x w'. send_raw_transaction env b w = (Inr x, w'))"

definition healthy :: "('w, 'e) env_scheme \<Rightarrow> bool" where
  "healthy env \<longleftrightarrow>
     accepts env \<and>
     (\<forall>h w. \<exists>x w'. wait_for_transaction_receipt env h w = (Inr x, w') \<and>
        json_item ''status'' x = Inr (JInt 1)) \<and>
     (\<forall>n w. \<exists>w'. async_sleep env n w = (Inr (), w'))"

lemma write_transaction_accepted:
  assumes "accepts env"
  shows "\<exists>h t. write_transaction cfg env address key fn n g args s = (Ret h, t)"
proof -
  from assms obtain func where 1: "contract_function env fn args = Inr func"
    unfolding accepts_def by blast
  from assms obtain price where 2: "to_wei_gwei env g = Inr price"
    unfolding accepts_def by blast
  let ?tx = "\<lparr>tx_from = address, tx_function = fn, tx_args = args, tx_gas_limit = gas_limit,
     tx_gas_price = price, tx_nonce = n, tx_chain_id = anchor_chain_id (st_anchor_chain cfg)\<rparr>"
  from assms obtain built w1 where 3: "build_transaction env func ?tx (ext s) = (Inr built, w1)"
    unfolding accepts_def by blast
  from assms obtain signed where 4: "sign_transaction env built key = Inr signed"
    unfolding accepts_def by blast
  from assms obtain h w2 where 5: "send_raw_transaction env signed w1 = (Inr h, w2)"
    unfolding accepts_def by blast
  show ?thesis
    by (simp add: write_transaction_def M_defs Let_def 1 2 3 4 5)
qed

lemma write_transaction_healthy:
  assumes "healthy env"
  shows "\<exists>h t. write_transaction cfg env address key fn n g args s = (Ret h, t)"
  using write_transaction_accepted assms unfolding healthy_def by blast

lemma write_transaction_with_receipt_healthy:
  assumes "healthy env"
  shows "\<exists>h rc t. write_transaction_with_receipt cfg env address key fn n g args s = (Ret (h, rc), t) \<and>
           json_item ''status'' rc = Inr (JInt 1)"
proof -
  from write_transaction_healthy[OF assms] obtain h u where
    w: "write_transaction cfg env address key fn n g args s = (Ret h, u)" by blast
  from assms obtain rc w' where "wait_for_transaction_receipt env h (ext u) = (Inr rc, w')"
    "json_item ''status'' rc = Inr (JInt 1)" unfolding healthy_def by blast
  with w show ?thesis
    by (simp add: write_transaction_with_receipt_def M_defs)
qed

end
