(* ===== verification/Notification_Utils.thy ===== *)
theory Notification_Utils
  imports Environment
begin

text \<open>
  \<^verbatim>\<open>send_failure_notifications\<close> of \<^verbatim>\<open>utils/notification_utils.py\<close>: a report is scheduled to
  the service URL and to the Slack URL, where each is configured. The post itself runs later
  as a task whose outcome is only logged, so scheduling it is the effect modelled. \<open>client\<close>
  says whether the HTTP client exists (it is \<^verbatim>\<open>None\<close> before \<^verbatim>\<open>_init_httpx_client\<close>).
\<close>

definition schedule_post :: "bool \<Rightarrow> string \<Rightarrow> json \<Rightarrow> (('w, 'z) world_scheme, unit) M" where
  "schedule_post client url message =
     (if client then emitM (Notify url message)
      else raiseM (Exn AttributeError ''NoneType object has no attribute post''))"

definition send_failure_notifications ::
  "settings \<Rightarrow> bool \<Rightarrow> json \<Rightarrow> (('w, 'z) world_scheme, unit) M" where
  "send_failure_notifications cfg client message =
     thenM (whenM (service_url (st_reporting cfg) \<noteq> [])
              (schedule_post client (service_url (st_reporting cfg)) message))
           (whenM (slack_url (st_reporting cfg) \<noteq> [])
              (schedule_post client (slack_url (st_reporting cfg)) message))"

text \<open>With a client, a report never fails and goes to exactly the configured addresses.\<close>

definition report_urls :: "settings \<Rightarrow> string list" where
  "report_urls cfg = filter (\<lambda>u. u \<noteq> []) [service_url (st_reporting cfg), slack_url (st_reporting cfg)]"

lemma send_failure_notifications_client:
  "send_failure_notifications cfg True message s =
     (Ret (), s\<lparr>trace := trace s @ map (\<lambda>u. Notify u message) (report_urls cfg)\<rparr>)"
  by (simp add: send_failure_notifications_def schedule_post_def report_urls_def M_defs)

lemma send_failure_notifications_no_client:
  "send_failure_notifications cfg False message s =
     (if report_urls cfg = [] then (Ret (), s)
      else (Raise (Exn AttributeError ''NoneType object has no attribute post''), s))"
  by (simp add: send_failure_notifications_def schedule_post_def report_urls_def M_defs)

lemma logs_send_failure_notifications [logging]:
  "(\<And>url. P (Notify url message)) \<Longrightarrow> keepsM (logs P) (send_failure_notifications cfg client message)"
  unfolding send_failure_notifications_def schedule_post_def by (intro logging)

end
