(* ===== verification/Rpc_Sync.thy ===== *)
theory Rpc_Sync
  imports Environment
begin

text \<open>
  \<^verbatim>\<open>helpers/rpc_helper.py\<close>: the synchronous JSON-RPC client of the epoch generator. It posts
  a request to the configured nodes in turn until one answers, gives up when every node has
  reached the retry limit, and decodes block numbers.
\<close>

section \<open>The code\<close>

text \<open>\<^verbatim>\<open>RPCNodesObject\<close> of \<^verbatim>\<open>helpers/message_models.py\<close>\<close>

record rpc_nodes_object =
  NODES :: "string list"
  RETRY_LIMIT :: int

text \<open>A \<^verbatim>\<open>ConstructRPC\<close> object keeps one request dictionary, which every call overwrites.\<close>

record 'w construct_rpc = "'w world" +
  querystring :: "(string \<times> json) list"

definition construct_rpc_init :: "int \<Rightarrow> (string \<times> json) list" where
  "construct_rpc_init network_id = [(''id'', JInt network_id), (''jsonrpc'', JStr ''2.0'')]"

text \<open>\<open>JNull\<close> stands for an argument left at \<^verbatim>\<open>None\<close>.\<close>

fun rpc_params :: "json \<Rightarrow> json list" where
  "rpc_params (JList xs) = xs"
| "rpc_params JNull = []"
| "rpc_params p = [p]"

definition construct_one_time_rpc ::
  "string \<Rightarrow> json \<Rightarrow> json \<Rightarrow> (('w, 'z) construct_rpc_scheme, json) M" where
  "construct_one_time_rpc procedure params default_block =
     thenM (modifyM (\<lambda>s. s\<lparr>querystring :=
              AList.update ''params''
                (JList (rpc_params params @ (if default_block = JNull then [] else [default_block])))
                (AList.update ''method'' (JStr procedure) (querystring s))\<rparr>))
           (getsM (\<lambda>s. JObj (querystring s)))"

text \<open>
  One pass of the \<^verbatim>\<open>for\<close> loop over the nodes. Every exception class named in the source's
  handlers, and every other \<^verbatim>\<open>Exception\<close>, moves on to the next node; the \<^verbatim>\<open>else\<close> block is
  outside the handlers.
\<close>

fun post_pass ::
  "settings \<Rightarrow> ('w, 'e) env_scheme \<Rightarrow> string \<Rightarrow> json \<Rightarrow> string list \<Rightarrow> (string \<times> int) list \<Rightarrow>
     (('w, 'z) world_scheme, (string \<times> int) list + json) M" where
  "post_pass cfg env procedure q [] retry = returnM (Inl retry)"
| "post_pass cfg env procedure q (url # urls) retry =
     (let retry' = AList.map_entry url (\<lambda>v. v + 1) retry
      in try_elseM is_Exception
           (callM (RpcPost url q)
              (requests_post_json env url q (request_time_out (chain_rpc (st_chain cfg)))))
           (\<lambda>e. post_pass cfg env procedure q urls retry')
           (\<lambda>json_response.
              if procedure = ''eth_getBlockByNumber''
              then bindM (liftM (json_item ''result'' json_response)) (\<lambda>v.
                   if \<not> json_truthy v then post_pass cfg env procedure q urls retry'
                   else returnM (Inr json_response))
              else returnM (Inr json_response)))"

text \<open>\<^verbatim>\<open>dict(zip(rpc_urls, repeat(0)))\<close>: a URL listed twice is one key.\<close>

definition zero_counts :: "string list \<Rightarrow> (string \<times> int) list" where
  "zero_counts urls = foldl (\<lambda>d u. AList.update u 0 d) [] urls"

definition post_round ::
  "settings \<Rightarrow> ('w, 'e) env_scheme \<Rightarrow> string \<Rightarrow> json \<Rightarrow> rpc_nodes_object \<Rightarrow> (string \<times> int) list \<Rightarrow>
     (('w, 'z) world_scheme, (string \<times> int) list + json) M" where
  "post_round cfg env procedure q rpc_nodes retry =
     (if list_all (\<lambda>(u, v). v = RETRY_LIMIT rpc_nodes) retry
      then raiseM (Exn BailException [])
      else post_pass cfg env procedure q (NODES rpc_nodes) retry)"

definition sync_post_json_rpc ::
  "nat \<Rightarrow> settings \<Rightarrow> ('w, 'e) env_scheme \<Rightarrow> string \<Rightarrow> rpc_nodes_object \<Rightarrow> json \<Rightarrow>
     (('w, 'z) construct_rpc_scheme, json) M" where
  "sync_post_json_rpc fuel cfg env procedure rpc_nodes params =
     bindM (construct_one_time_rpc procedure params JNull) (\<lambda>q.
     loopM fuel (post_round cfg env procedure q rpc_nodes) (zero_counts (NODES rpc_nodes)))"

definition rpc_eth_blocknumber ::
  "nat \<Rightarrow> settings \<Rightarrow> ('w, 'e) env_scheme \<Rightarrow> rpc_nodes_object \<Rightarrow>
     (('w, 'z) construct_rpc_scheme, int) M" where
  "rpc_eth_blocknumber fuel cfg env rpc_nodes =
     bindM (sync_post_json_rpc fuel cfg env ''eth_blockNumber'' rpc_nodes JNull) (\<lambda>rpc_response.
     try_elseM is_Exception
       (bindM (liftM (json_item ''result'' rpc_response)) (\<lambda>v. liftM (int16 v)))
       (\<lambda>e. raiseM (Exn BailException []))
       returnM)"

text \<open>
  The decorator \<^verbatim>\<open>auto_retry\<close>. Its handler binds \<^verbatim>\<open>exc\<close>, the name of the decorator's own
  parameter, as a local variable, and Python unbinds that variable when the handler ends; so
  the final \<^verbatim>\<open>raise exc\<close> finds it unbound.
\<close>

primrec auto_retry_loop ::
  "('w, 'e) env_scheme \<Rightarrow> int \<Rightarrow> (('w, 'z) world_scheme, 'a) M \<Rightarrow> nat \<Rightarrow>
     (('w, 'z) world_scheme, 'a) M" where
  "auto_retry_loop env delay func 0 =
     raiseM (Exn UnboundLocalError ''local variable 'exc' referenced before assignment'')"
| "auto_retry_loop env delay func (Suc k) =
     tryM func (\<lambda>e. thenM (timeSleepM env delay) (auto_retry_loop env delay func k))"

definition auto_retry ::
  "('w, 'e) env_scheme \<Rightarrow> int \<Rightarrow> int \<Rightarrow> (('w, 'z) world_scheme, 'a) M \<Rightarrow>
     (('w, 'z) world_scheme, 'a) M" where
  "auto_retry env tries delay func = auto_retry_loop env delay func (nat tries)"

definition rpc_eth_getblock_by_number ::
  "nat \<Rightarrow> settings \<Rightarrow> ('w, 'e) env_scheme \<Rightarrow> int \<Rightarrow> rpc_nodes_object \<Rightarrow>
     (('w, 'z) construct_rpc_scheme, json) M" where
  "rpc_eth_getblock_by_number fuel cfg env blocknum rpc_nodes =
     auto_retry env (rpc_retry (chain_rpc (st_chain cfg))) 5
       (bindM (sync_post_json_rpc fuel cfg env ''eth_getBlockByNumber'' rpc_nodes
                 (JList [JStr (hex_str blocknum), JBool False])) (\<lambda>rpc_response.
        liftM (json_item ''result'' rpc_response)))"

section \<open>What the client touches\<close>

text \<open>\<open>polls\<close>: the log grew by requests to nodes, and of the program only the request
  dictionary may have changed.\<close>

fun is_rpc_post :: "event \<Rightarrow> bool" where
  "is_rpc_post (RpcPost u q) = True"
| "is_rpc_post ev = False"

definition polls :: "('w, 'z) construct_rpc_scheme \<Rightarrow> ('w, 'z) construct_rpc_scheme \<Rightarrow> bool" where
  "polls s t \<longleftrightarrow>
     (\<exists>w evs q. t = s\<lparr>ext := w, trace := trace s @ evs, querystring := q\<rparr> \<and> list_all is_rpc_post evs)"

lemma logs_polls: "logs is_rpc_post s t \<Longrightarrow> polls s t"
  unfolding logs_def polls_def
  by (elim exE) (rule exI, rule exI, rule exI[of _ "querystring s"], cases s, auto)

interpretation polls: env_frame "polls :: ('w, 'z) construct_rpc_scheme \<Rightarrow> _"
proof unfold_locales
  fix s t u :: "('w, 'z) construct_rpc_scheme" and w :: 'w
  show "polls s s" by (rule logs_polls) (rule logs_refl)
  show "polls s u" if "polls s t" "polls t u"
  proof -
    from that obtain w evs q w' evs' q' where
      "t = s\<lparr>ext := w, trace := trace s @ evs, querystring := q\<rparr>" "list_all is_rpc_post evs"
      "u = t\<lparr>ext := w', trace := trace t @ evs', querystring := q'\<rparr>" "list_all is_rpc_post evs'"
      unfolding polls_def by blast
    then have "u = s\<lparr>ext := w', trace := trace s @ (evs @ evs'), querystring := q'\<rparr> \<and>
        list_all is_rpc_post (evs @ evs')"
      by (cases s) simp
    then show ?thesis unfolding polls_def by blast
  qed
  show "polls s (s\<lparr>ext := w\<rparr>)" by (rule logs_polls) (rule logs.R_ext)
qed

lemma logs_post_pass [logging]:
  "keepsM (logs is_rpc_post) (post_pass cfg env procedure q urls retry)"
proof (induction urls arbitrary: retry)
  case Nil
  show ?case by (simp, intro logging)
next
  case (Cons u us)
  show ?case
    unfolding post_pass.simps Let_def by (intro logging Cons) simp
qed

lemma logs_post_loop [logging]:
  "keepsM (logs is_rpc_post) (loopM fuel (post_round cfg env procedure q nodes) retry)"
  unfolding post_round_def by (intro logging)

lemma polls_of_logs: "keepsM (logs is_rpc_post) m \<Longrightarrow> keepsM polls m"
  by (erule keepsM_mono) (rule logs_polls)

lemma polls_construct:
  "keepsM (polls :: ('w, 'z) construct_rpc_scheme \<Rightarrow> _) (construct_one_time_rpc procedure params b)"
proof -
  have "polls s (s\<lparr>querystring := q\<rparr>)" for s :: "('w, 'z) construct_rpc_scheme" and q
    unfolding polls_def by (rule exI[of _ "ext s"], rule exI[of _ "[]"], rule exI[of _ q]) (cases s, simp)
  then show ?thesis
    by (simp add: keepsM_def construct_one_time_rpc_def thenM_def bindM_def modifyM_def getsM_def)
qed

lemma polls_sync_post: "keepsM polls (sync_post_json_rpc fuel cfg env procedure nodes params)"
  unfolding sync_post_json_rpc_def
  by (intro polls.keeps_bind polls_construct polls_of_logs[OF logs_post_loop])

lemma polls_blocknumber: "keepsM polls (rpc_eth_blocknumber fuel cfg env nodes)"
  unfolding rpc_eth_blocknumber_def by (intro polls.keeps_rules polls_sync_post)

lemma blocknumber_effect:
  assumes "rpc_eth_blocknumber fuel cfg env nodes s = (r, t)"
  obtains w evs q where "t = s\<lparr>ext := w, trace := trace s @ evs, querystring := q\<rparr>"
    and "list_all is_rpc_post evs"
  using keepsMD[OF polls_blocknumber assms] unfolding polls_def by blast

lemma grows_blocknumber [growing]:
  assumes "\<And>ev. is_rpc_post ev \<Longrightarrow> P ev"
  shows "keepsM (grows P) (rpc_eth_blocknumber fuel cfg env nodes)"
  by (rule keepsM_mono[OF polls_blocknumber])
     (auto simp: polls_def grows_def list_all_iff assms)

section \<open>Bookkeeping of the retry counts\<close>

definition counts :: "int \<Rightarrow> string list \<Rightarrow> (string \<times> int) list" where
  "counts c urls = map (\<lambda>u. (u, c)) urls"

lemma counts_simps [simp]:
  "counts c [] = []"
  "counts c (u # us) = (u, c) # counts c us"
  "counts c (us @ vs) = counts c us @ counts c vs"
  by (simp_all add: counts_def)

lemma counts_keys [simp]: "fst ` set (counts c urls) = set urls"
  by (force simp: counts_def)

lemma update_fresh: "k \<notin> fst ` set d \<Longrightarrow> AList.update k v d = d @ [(k, v)]"
  by (induction d) auto

lemma map_entry_mid:
  "u \<notin> fst ` set d \<Longrightarrow> AList.map_entry u f (d @ (u, c) # d') = d @ (u, f c) # d'"
  by (induction d) auto

lemma zero_counts_distinct: "distinct urls \<Longrightarrow> zero_counts urls = counts 0 urls"
proof (induction urls rule: rev_induct)
  case Nil
  then show ?case by (simp add: zero_counts_def)
next
  case (snoc u us)
  then show ?case by (simp add: zero_counts_def update_fresh)
qed

lemma bail_test_counts:
  "list_all (\<lambda>(u, v). v = limit) (counts c urls) \<longleftrightarrow> urls = [] \<or> c = limit"
  by (induction urls) auto

lemma post_pass_never_pending:
  "fst (post_pass cfg env procedure q urls retry s) \<noteq> Pending"
  by (induction urls arbitrary: retry s)
     (auto simp: M_defs Let_def split: prod.split sum.split)

text \<open>A pass that ends without an answer has counted every node once.\<close>

lemma post_pass_counts:
  assumes "post_pass cfg env procedure q us (counts (c + 1) pre @ counts c us) s = (Ret (Inl r), t)"
    and "distinct (pre @ us)"
  shows "r = counts (c + 1) (pre @ us)"
  using assms
proof (induction us arbitrary: pre s)
  case Nil
  then show ?case by (simp add: M_defs)
next
  case (Cons u us)
  have bump: "AList.map_entry u (\<lambda>v. v + 1) (counts (c + 1) pre @ counts c (u # us)) =
                counts (c + 1) (pre @ [u]) @ counts c us"
    using Cons.prems(2) by (simp add: map_entry_mid)
  from Cons.prems(1) obtain s' where
    "post_pass cfg env procedure q us (counts (c + 1) (pre @ [u]) @ counts c us) s' = (Ret (Inl r), t)"
    by (auto simp: bump Let_def M_defs simp del: counts_simps split: prod.splits sum.splits if_splits)
  with Cons.IH[of "pre @ [u]" s'] Cons.prems(2) show ?case by simp
qed

lemma post_round_counts:
  assumes "post_round cfg env procedure q nodes (counts c (NODES nodes)) s = (Ret (Inl r), t)"
    and "distinct (NODES nodes)"
  shows "r = counts (c + 1) (NODES nodes)" and "c \<noteq> RETRY_LIMIT nodes"
  using assms post_pass_counts[of cfg env procedure q "NODES nodes" c "[]" s r t]
  by (auto simp: post_round_def bail_test_counts raiseM_apply split: if_splits)

section \<open>The client ends\<close>

lemma post_loop_ends:
  assumes "distinct (NODES nodes)"
    and "c \<le> RETRY_LIMIT nodes" and "nat (RETRY_LIMIT nodes - c) < fuel"
  shows "fst (loopM fuel (post_round cfg env procedure q nodes) (counts c (NODES nodes)) s) \<noteq> Pending"
  using assms(2,3)
proof (induction fuel arbitrary: c s)
  case 0
  then show ?case by simp
next
  case (Suc fuel)
  obtain r t where round: "post_round cfg env procedure q nodes (counts c (NODES nodes)) s = (r, t)"
    by (cases "post_round cfg env procedure q nodes (counts c (NODES nodes)) s")
  have "r \<noteq> Pending"
    using round post_pass_never_pending[of cfg env procedure q "NODES nodes" "counts c (NODES nodes)" s]
    by (auto simp: post_round_def raiseM_apply split: if_splits)
  then show ?case
  proof (cases r)
    case (Ret a)
    show ?thesis
    proof (cases a)
      case (Inl d)
      with round Ret have "d = counts (c + 1) (NODES nodes)" and "c \<noteq> RETRY_LIMIT nodes"
        using post_round_counts[OF _ assms(1)] by blast+
      with Suc show ?thesis
        using round Ret Inl by (simp add: bindM_Ret)
    next
      case (Inr j)
      then show ?thesis
        using round Ret by (simp add: bindM_Ret returnM_apply)
    qed
  qed (use round in \<open>simp_all add: bindM_Raise\<close>)
qed

text \<open>
  C11: with pairwise different node URLs and a retry limit that is not negative, the loop
  \<^verbatim>\<open>while True\<close> of \<^verbatim>\<open>sync_post_json_rpc\<close> ends whatever the nodes do: one round more than the
  retry limit is enough.
\<close>

theorem sync_post_json_rpc_ends:
  assumes "distinct (NODES nodes)" and "0 \<le> RETRY_LIMIT nodes"
    and "nat (RETRY_LIMIT nodes) < fuel"
  shows "fst (sync_post_json_rpc fuel cfg env procedure nodes params s) \<noteq> Pending"
  using assms
  by (simp add: sync_post_json_rpc_def construct_one_time_rpc_def thenM_def bindM_def
        modifyM_def getsM_def zero_counts_distinct post_loop_ends)

theorem sync_post_json_rpc_ends_witness:
  "fst (sync_post_json_rpc 4 example_settings basic_env ''eth_blockNumber''
          \<lparr>NODES = [''a'', ''b''], RETRY_LIMIT = 3\<rparr> JNull
          \<lparr>ext = (), trace = [], querystring = []\<rparr>) \<noteq> Pending"
  by (rule sync_post_json_rpc_ends) simp_all

section \<open>No node answers\<close>

definition nodes_down :: "settings \<Rightarrow> ('w, 'e) env_scheme \<Rightarrow> string list \<Rightarrow> bool" where
  "nodes_down cfg env urls \<longleftrightarrow>
     (\<forall>u q w. u \<in> set urls \<longrightarrow>
        (\<exists>e w'. requests_post_json env u q (request_time_out (chain_rpc (st_chain cfg))) w = (Inl e, w')
           \<and> is_Exception e))"

definition bump_all :: "string list \<Rightarrow> (string \<times> int) list \<Rightarrow> (string \<times> int) list" where
  "bump_all urls retry = foldl (\<lambda>d u. AList.map_entry u (\<lambda>v. v + 1) d) retry urls"

lemma post_pass_down:
  assumes "nodes_down cfg env us"
  shows "\<exists>w. post_pass cfg env procedure q us retry s =
           (Ret (Inl (bump_all us retry)), s\<lparr>ext := w, trace := trace s @ map (\<lambda>u. RpcPost u q) us\<rparr>)"
  using assms
proof (induction us arbitrary: retry s)
  case Nil
  show ?case by (rule exI[of _ "ext s"]) (simp add: bump_all_def returnM_apply)
next
  case (Cons u us)
  from Cons.prems have down: "nodes_down cfg env us" by (simp add: nodes_down_def)
  from Cons.prems obtain e w where
    "requests_post_json env u q (request_time_out (chain_rpc (st_chain cfg))) (ext s) = (Inl e, w)"
    and "is_Exception e"
    unfolding nodes_down_def by (meson list.set_intros(1))
  then have "post_pass cfg env procedure q (u # us) retry s =
      post_pass cfg env procedure q us (AList.map_entry u (\<lambda>v. v + 1) retry)
        (s\<lparr>ext := w, trace := trace s @ [RpcPost u q]\<rparr>)"
    by (simp add: Let_def M_defs)
  moreover obtain w' where "post_pass cfg env procedure q us (AList.map_entry u (\<lambda>v. v + 1) retry)
        (s\<lparr>ext := w, trace := trace s @ [RpcPost u q]\<rparr>) =
      (Ret (Inl (bump_all us (AList.map_entry u (\<lambda>v. v + 1) retry))),
       s\<lparr>ext := w', trace := trace s @ [RpcPost u q] @ map (\<lambda>u. RpcPost u q) us\<rparr>)"
    using Cons.IH[OF down, of "AList.map_entry u (\<lambda>v. v + 1) retry"
        "s\<lparr>ext := w, trace := trace s @ [RpcPost u q]\<rparr>"] by auto
  ultimately show ?case by (auto simp: bump_all_def)
qed

lemma bump_all_counts:
  "distinct (pre @ us) \<Longrightarrow>
     bump_all us (counts (c + 1) pre @ counts c us) = counts (c + 1) (pre @ us)"
proof (induction us arbitrary: pre)
  case Nil
  then show ?case by (simp add: bump_all_def)
next
  case (Cons u us)
  have "AList.map_entry u (\<lambda>v. v + 1) (counts (c + 1) pre @ counts c (u # us)) =
          counts (c + 1) (pre @ [u]) @ counts c us"
    using Cons.prems by (simp add: map_entry_mid)
  with Cons.IH[of "pre @ [u]"] Cons.prems show ?case
    by (simp add: bump_all_def)
qed

lemma post_loop_down:
  assumes "nodes_down cfg env (NODES nodes)" and "distinct (NODES nodes)"
    and "c \<le> RETRY_LIMIT nodes" and "nat (RETRY_LIMIT nodes - c) < fuel"
  shows "\<exists>w. loopM fuel (post_round cfg env procedure q nodes) (counts c (NODES nodes)) s =
     (Raise (Exn BailException []),
      s\<lparr>ext := w, trace := trace s @
         concat (replicate (nat (RETRY_LIMIT nodes - c)) (map (\<lambda>u. RpcPost u q) (NODES nodes)))\<rparr>)"
  using assms(3,4)
proof (induction fuel arbitrary: c s)
  case 0
  then show ?case by simp
next
  case (Suc fuel)
  show ?case
  proof (cases "NODES nodes = [] \<or> c = RETRY_LIMIT nodes")
    case True
    then have "concat (replicate (nat (RETRY_LIMIT nodes - c)) (map (\<lambda>u. RpcPost u q) (NODES nodes))) = []"
      by auto
    with True show ?thesis
      by (intro exI[of _ "ext s"])
         (simp add: post_round_def bail_test_counts bindM_Raise raiseM_apply)
  next
    case False
    let ?evs = "map (\<lambda>u. RpcPost u q) (NODES nodes)"
    from post_pass_down[OF assms(1), of procedure q "counts c (NODES nodes)" s]
    obtain w where "post_round cfg env procedure q nodes (counts c (NODES nodes)) s =
        (Ret (Inl (counts (c + 1) (NODES nodes))), s\<lparr>ext := w, trace := trace s @ ?evs\<rparr>)"
      using False bump_all_counts[of "[]" "NODES nodes" c] assms(2)
      by (auto simp: post_round_def bail_test_counts)
    then have "loopM (Suc fuel) (post_round cfg env procedure q nodes) (counts c (NODES nodes)) s =
        loopM fuel (post_round cfg env procedure q nodes) (counts (c + 1) (NODES nodes))
          (s\<lparr>ext := w, trace := trace s @ ?evs\<rparr>)"
      by (simp add: bindM_Ret)
    moreover have "nat (RETRY_LIMIT nodes - c) = Suc (nat (RETRY_LIMIT nodes - (c + 1)))"
      using False Suc.prems(1) by arith
    ultimately show ?thesis
      using Suc.IH[of "c + 1" "s\<lparr>ext := w, trace := trace s @ ?evs\<rparr>"] Suc.prems False by auto
  qed
qed

lemma construct_one_time_rpc_apply:
  obtains q qs where "construct_one_time_rpc procedure params b s = (Ret q, s\<lparr>querystring := qs\<rparr>)"
  by (simp add: construct_one_time_rpc_def thenM_def bindM_def modifyM_def getsM_def)

lemma sync_post_down:
  assumes "nodes_down cfg env (NODES nodes)" and "distinct (NODES nodes)"
    and "0 \<le> RETRY_LIMIT nodes" and "nat (RETRY_LIMIT nodes) < fuel"
  shows "\<exists>q t. sync_post_json_rpc fuel cfg env procedure nodes params s =
           (Raise (Exn BailException []), t) \<and>
         trace t = trace s @
           concat (replicate (nat (RETRY_LIMIT nodes)) (map (\<lambda>u. RpcPost u q) (NODES nodes)))"
proof -
  obtain q qs where q: "construct_one_time_rpc procedure params JNull s = (Ret q, s\<lparr>querystring := qs\<rparr>)"
    by (rule construct_one_time_rpc_apply)
  show ?thesis
    using post_loop_down[OF assms(1,2), of 0 fuel procedure q "s\<lparr>querystring := qs\<rparr>"] assms(3,4)
    by (auto simp: sync_post_json_rpc_def q bindM_Ret zero_counts_distinct[OF assms(2)])
qed

lemma blocknumber_down:
  assumes "nodes_down cfg env (NODES nodes)" and "distinct (NODES nodes)"
    and "0 \<le> RETRY_LIMIT nodes" and "nat (RETRY_LIMIT nodes) < fuel"
  shows "\<exists>t. rpc_eth_blocknumber fuel cfg env nodes s = (Raise (Exn BailException []), t)"
  using sync_post_down[OF assms, of "''eth_blockNumber''" JNull s]
  by (auto simp: rpc_eth_blocknumber_def M_simps)

text \<open>
  C36: when no node answers, the nodes are listed under distinct URLs and the retry limit is not
  negative, the request goes to every node in order exactly as many times as the limit says, and
  then \<^verbatim>\<open>BailException\<close> is raised.
\<close>

theorem sync_post_json_rpc_bails:
  assumes "nodes_down cfg env (NODES nodes)" and "distinct (NODES nodes)"
    and "0 \<le> RETRY_LIMIT nodes" and "nat (RETRY_LIMIT nodes) < fuel"
  shows "\<exists>q t. sync_post_json_rpc fuel cfg env procedure nodes params s =
           (Raise (Exn BailException []), t) \<and>
         trace t = trace s @
           concat (replicate (nat (RETRY_LIMIT nodes)) (map (\<lambda>u. RpcPost u q) (NODES nodes)))"
  using assms by (rule sync_post_down)

theorem sync_post_json_rpc_bails_witness:
  "\<exists>q t. sync_post_json_rpc 3 example_settings basic_env ''eth_blockNumber''
           \<lparr>NODES = [''a'', ''b''], RETRY_LIMIT = 2\<rparr> JNull
           \<lparr>ext = (), trace = [], querystring = construct_rpc_init 1\<rparr> =
         (Raise (Exn BailException []), t) \<and>
         trace t = [] @ concat (replicate 2 (map (\<lambda>u. RpcPost u q) [''a'', ''b'']))"
  using sync_post_json_rpc_bails[of example_settings basic_env "\<lparr>NODES = [''a'', ''b''], RETRY_LIMIT = 2\<rparr>"
      3 "''eth_blockNumber''" JNull "\<lparr>ext = (), trace = [], querystring = construct_rpc_init 1\<rparr>"]
  by (simp add: nodes_down_def basic_env_def)

section \<open>A node listed more than once\<close>

lemma map_of_map_entry:
  "map_of (AList.map_entry u f d) v = (if v = u then map_option f (map_of d v) else map_of d v)"
  by (induction d) (auto split: option.split)

lemma map_of_bump_all:
  "map_of (bump_all us d) v = map_option (\<lambda>c. c + int (count_list us v)) (map_of d v)"
  by (induction us arbitrary: d)
     (auto simp: bump_all_def map_of_map_entry option.map_comp comp_def option.map_ident add.assoc)

lemma map_of_zero_counts: "map_of (zero_counts urls) u = (if u \<in> set urls then Some 0 else None)"
  by (induction urls rule: rev_induct)
     (auto simp: zero_counts_def update_conv')

lemma list_all_limit: "map_of d u = Some c \<Longrightarrow> c \<noteq> limit \<Longrightarrow> \<not> list_all (\<lambda>(u, v). v = limit) d"
  by (auto simp: list_all_iff dest!: map_of_SomeD)

lemma post_loop_never_bails:
  assumes "nodes_down cfg env (NODES nodes)" and "u \<in> set (NODES nodes)"
    and "\<not> int (count_list (NODES nodes) u) dvd RETRY_LIMIT nodes - c"
    and "map_of retry u = Some c"
  shows "fst (loopM fuel (post_round cfg env procedure q nodes) retry s) = Pending"
  using assms(3,4)
proof (induction fuel arbitrary: retry c s)
  case 0
  then show ?case by (simp add: pendingM_apply)
next
  case (Suc fuel)
  from post_pass_down[OF assms(1), of procedure q retry s] obtain t where
    pass: "post_pass cfg env procedure q (NODES nodes) retry s = (Ret (Inl (bump_all (NODES nodes) retry)), t)"
    by blast
  have "c \<noteq> RETRY_LIMIT nodes" using Suc.prems(1) by auto
  then have "\<not> list_all (\<lambda>(u, v). v = RETRY_LIMIT nodes) retry"
    using list_all_limit[OF Suc.prems(2)] by simp
  with pass have "post_round cfg env procedure q nodes retry s = (Ret (Inl (bump_all (NODES nodes) retry)), t)"
    by (simp add: post_round_def)
  moreover have "map_of (bump_all (NODES nodes) retry) u = Some (c + int (count_list (NODES nodes) u))"
    by (simp add: map_of_bump_all Suc.prems(2))
  moreover have "\<not> int (count_list (NODES nodes) u) dvd
                    RETRY_LIMIT nodes - (c + int (count_list (NODES nodes) u))"
    using Suc.prems(1) dvd_add_right_iff[of "int (count_list (NODES nodes) u)" "int (count_list (NODES nodes) u)"
        "RETRY_LIMIT nodes - (c + int (count_list (NODES nodes) u))"] by (simp add: algebra_simps)
  ultimately show ?case
    using Suc.IH by (simp add: bindM_Ret)
qed

text \<open>
  C37: the loop stops on the equality of the counts with the limit, and a URL listed \<open>k\<close>
  times is counted \<open>k\<close> times per round. When no node answers and \<open>k\<close> does not divide the
  limit, the client never gives up: it is still posting after any number of rounds.
\<close>

theorem sync_post_json_rpc_duplicate_hangs:
  assumes "nodes_down cfg env (NODES nodes)" and "u \<in> set (NODES nodes)"
    and "\<not> int (count_list (NODES nodes) u) dvd RETRY_LIMIT nodes"
  shows "fst (sync_post_json_rpc fuel cfg env procedure nodes params s) = Pending"
proof -
  obtain q qs where q: "construct_one_time_rpc procedure params JNull s = (Ret q, s\<lparr>querystring := qs\<rparr>)"
    by (rule construct_one_time_rpc_apply)
  show ?thesis
    using post_loop_never_bails[OF assms(1,2), of 0 "zero_counts (NODES nodes)"] assms(2,3)
    by (simp add: sync_post_json_rpc_def q bindM_Ret map_of_zero_counts)
qed

theorem sync_post_json_rpc_duplicate_hangs_witness:
  "fst (sync_post_json_rpc 1000 example_settings basic_env ''eth_blockNumber''
          \<lparr>NODES = [''a'', ''a''], RETRY_LIMIT = 5\<rparr> JNull
          \<lparr>ext = (), trace = [], querystring = construct_rpc_init 1\<rparr>) = Pending"
  by (rule sync_post_json_rpc_duplicate_hangs[where u = "''a''"])
     (simp_all add: nodes_down_def basic_env_def)

section \<open>What escapes from the client\<close>

text \<open>A post of a procedure other than \<^verbatim>\<open>eth_getBlockByNumber\<close> lets no \<^verbatim>\<open>Exception\<close> out.\<close>

lemma post_pass_escape:
  assumes "post_pass cfg env procedure q us retry s = (Raise e, t)"
    and "procedure \<noteq> ''eth_getBlockByNumber''"
  shows "\<not> is_Exception e"
  using assms(1)
proof (induction us arbitrary: retry s)
  case Nil
  then show ?case by (simp add: returnM_apply)
next
  case (Cons u us)
  then show ?case
    using assms(2)
    by (auto simp: Let_def M_defs split: prod.splits sum.splits if_splits)
qed

lemma post_loop_escape:
  assumes "loopM fuel (post_round cfg env procedure q nodes) retry s = (Raise e, t)"
    and "procedure \<noteq> ''eth_getBlockByNumber''" and "is_Exception e"
  shows "e = Exn BailException []"
  using assms(1)
proof (induction fuel arbitrary: retry s)
  case 0
  then show ?case by (simp add: pendingM_apply)
next
  case (Suc fuel)
  obtain r s' where round: "post_round cfg env procedure q nodes retry s = (r, s')"
    by (cases "post_round cfg env procedure q nodes retry s")
  show ?case
  proof (cases r)
    case (Ret a)
    with Suc round show ?thesis
      by (auto simp: bindM_Ret returnM_apply split: sum.splits)
  next
    case (Raise e')
    with Suc.prems round have "e' = e" by (simp add: bindM_Raise)
    with Raise round show ?thesis
      using assms(3)
      by (auto simp: post_round_def raiseM_apply split: if_splits
            dest: post_pass_escape[OF _ assms(2)])
  next
    case Pending
    with Suc.prems round show ?thesis by (simp add: bindM_Pending)
  qed
qed

text \<open>
  C38: the only \<^verbatim>\<open>Exception\<close> that fetching the head of the chain can raise is
  \<^verbatim>\<open>BailException\<close>: whatever a node's post raises is absorbed, the \<^verbatim>\<open>GenericExitOnSignal\<close> of
  a shutdown signal that arrives during the post included.
\<close>

theorem rpc_eth_blocknumber_escape:
  assumes "rpc_eth_blocknumber fuel cfg env nodes s = (Raise e, t)" and "is_Exception e"
  shows "e = Exn BailException []"
proof -
  obtain q qs where q: "construct_one_time_rpc ''eth_blockNumber'' JNull JNull s =
      (Ret q, s\<lparr>querystring := qs\<rparr>)"
    by (rule construct_one_time_rpc_apply)
  let ?loop = "loopM fuel (post_round cfg env ''eth_blockNumber'' q nodes) (zero_counts (NODES nodes))
                 (s\<lparr>querystring := qs\<rparr>)"
  obtain r s' where loop: "?loop = (r, s')" by (cases ?loop)
  show ?thesis
  proof (cases r)
    case (Ret j)
    with assms(1) loop show ?thesis
      by (auto simp: rpc_eth_blocknumber_def sync_post_json_rpc_def q M_defs
            split: sum.splits prod.splits res.splits if_splits
            dest: json_item_Exception int16_Exception)
  next
    case (Raise e')
    with assms(1) loop have "e' = e"
      by (simp add: rpc_eth_blocknumber_def sync_post_json_rpc_def q M_simps)
    with Raise loop have "?loop = (Raise e, s')" by simp
    then show ?thesis
      by (rule post_loop_escape) (simp_all add: assms(2))
  next
    case Pending
    with assms(1) loop show ?thesis
      by (simp add: rpc_eth_blocknumber_def sync_post_json_rpc_def q M_simps)
  qed
qed

definition exit_env :: "'w env" where
  "exit_env = basic_env\<lparr>requests_post_json := (\<lambda>u q n w. (Inl (Exn GenericExitOnSignal []), w))\<rparr>"

theorem rpc_eth_blocknumber_escape_witness:
  "\<exists>e. fst (rpc_eth_blocknumber 2 example_settings exit_env \<lparr>NODES = [''a''], RETRY_LIMIT = 1\<rparr>
            \<lparr>ext = (), trace = [], querystring = construct_rpc_init 1\<rparr>) = Raise e \<and>
       is_Exception e \<and> e = Exn BailException []"
proof -
  let ?run = "rpc_eth_blocknumber 2 example_settings exit_env \<lparr>NODES = [''a''], RETRY_LIMIT = 1\<rparr>
      \<lparr>ext = (), trace = [], querystring = construct_rpc_init 1\<rparr>"
  have "fst ?run = Raise (Exn BailException [])"
    by (simp add: rpc_eth_blocknumber_def sync_post_json_rpc_def construct_one_time_rpc_def
          post_round_def zero_counts_def exit_env_def basic_env_def M_defs numeral_2_eq_2 Let_def)
  then obtain e t where run: "?run = (Raise e, t)" and e: "is_Exception e"
    by (cases ?run) auto
  show ?thesis
    using run e rpc_eth_blocknumber_escape[OF run e] by auto
qed

section \<open>Decoding and retrying\<close>

lemma first_node_answers:
  assumes "NODES nodes = u # us" and "RETRY_LIMIT nodes \<noteq> 0" and "0 < fuel"
    and "\<And>q w. requests_post_json env u q (request_time_out (chain_rpc (st_chain cfg))) w =
              (Inr (JObj kvs), f w)"
    and "map_of kvs ''result'' = Some (JStr (hex_str n))"
  shows "\<exists>q t. rpc_eth_blocknumber fuel cfg env nodes s = (Ret n, t) \<and>
               trace t = trace s @ [RpcPost u q] \<and> ext t = f (ext s)"
proof -
  obtain q qs where q: "construct_one_time_rpc ''eth_blockNumber'' JNull JNull s =
      (Ret q, s\<lparr>querystring := qs\<rparr>)"
    by (rule construct_one_time_rpc_apply)
  have "map_of (zero_counts (NODES nodes)) u = Some 0"
    using assms(1) by (simp add: map_of_zero_counts)
  then have go: "\<not> list_all (\<lambda>(u, v). v = RETRY_LIMIT nodes) (zero_counts (NODES nodes))"
    using list_all_limit[of _ u 0] assms(2) by simp
  obtain fuel' where fuel: "fuel = Suc fuel'"
    using assms(3) by (cases fuel) auto
  have "sync_post_json_rpc fuel cfg env ''eth_blockNumber'' nodes JNull s =
      (Ret (JObj kvs), s\<lparr>querystring := qs, ext := f (ext s), trace := trace s @ [RpcPost u q]\<rparr>)"
    by (simp add: sync_post_json_rpc_def q fuel post_round_def go[unfolded assms(1)] assms(1,4) M_defs Let_def)
  then show ?thesis
    by (simp add: rpc_eth_blocknumber_def M_defs assms(5) parse_int16_hex_str)
qed

text \<open>
  When the first node answers with the block number written as \<^verbatim>\<open>hex\<close> writes it, in any
  answer that has a \<^verbatim>\<open>result\<close>, the number itself is returned after that one request.
\<close>

theorem rpc_eth_blocknumber_first_node:
  assumes "NODES nodes = u # us" and "RETRY_LIMIT nodes \<noteq> 0" and "0 < fuel"
    and "\<And>q w. requests_post_json env u q (request_time_out (chain_rpc (st_chain cfg))) w =
              (Inr (JObj kvs), f w)"
    and "map_of kvs ''result'' = Some (JStr (hex_str n))"
  shows "\<exists>q t. rpc_eth_blocknumber fuel cfg env nodes s = (Ret n, t) \<and>
               trace t = trace s @ [RpcPost u q] \<and> ext t = f (ext s)"
  using assms by (rule first_node_answers)

theorem rpc_eth_blocknumber_first_node_witness:
  "\<exists>q t. rpc_eth_blocknumber 1 example_settings
       (basic_env\<lparr>requests_post_json := (\<lambda>u q n w. (Inr (JObj [(''result'', JStr (hex_str 18000000))]), w))\<rparr>)
       \<lparr>NODES = [''a''], RETRY_LIMIT = 5\<rparr> \<lparr>ext = (), trace = [], querystring = construct_rpc_init 1\<rparr> =
       (Ret 18000000, t) \<and> trace t = [] @ [RpcPost ''a'' q] \<and> ext t = ()"
  using rpc_eth_blocknumber_first_node[of "\<lparr>NODES = [''a''], RETRY_LIMIT = 5\<rparr>" "''a''" "[]" 1
      "basic_env\<lparr>requests_post_json := (\<lambda>u q n w. (Inr (JObj [(''result'', JStr (hex_str 18000000))]), w))\<rparr>"
      example_settings "[(''result'', JStr (hex_str 18000000))]" id 18000000
      "\<lparr>ext = (), trace = [], querystring = construct_rpc_init 1\<rparr>"]
  by simp

text \<open>The loop of the decorator when every call fails, and the pauses it makes.\<close>

lemma auto_retry_loop_exhausted:
  assumes "\<And>s. \<exists>e t. func s = (Raise e, t) \<and> is_Exception e \<and> naps t = naps s"
    and "\<And>w. \<exists>w'. time_sleep env delay w = (Inr (), w')"
    and "\<And>s w. naps (s\<lparr>ext := w, trace := trace s @ [BlockingSleep delay]\<rparr>) = Suc (naps s)"
  shows "\<exists>t. auto_retry_loop env delay func k s =
     (Raise (Exn UnboundLocalError ''local variable 'exc' referenced before assignment''), t) \<and>
     naps t = naps s + k"
proof (induction k arbitrary: s)
  case 0
  show ?case by (simp add: raiseM_apply)
next
  case (Suc k)
  from assms(1) obtain e t where fail: "func s = (Raise e, t)" "is_Exception e" "naps t = naps s"
    by blast
  obtain w' where "time_sleep env delay (ext t) = (Inr (), w')"
    using assms(2) by blast
  then have "auto_retry_loop env delay func (Suc k) s =
      auto_retry_loop env delay func k (t\<lparr>ext := w', trace := trace t @ [BlockingSleep delay]\<rparr>)"
    using fail by (simp add: tryM_Raise timeSleepM_def M_defs)
  with Suc.IH[of "t\<lparr>ext := w', trace := trace t @ [BlockingSleep delay]\<rparr>"] fail(3) assms(3)
  show ?case by auto
qed

definition naps_in :: "('w, 'z) world_scheme \<Rightarrow> nat" where
  "naps_in s = length (filter (\<lambda>ev. \<exists>n. ev = BlockingSleep n) (trace s))"

text \<open>
  \<^verbatim>\<open>rpc_eth_getblock_by_number\<close> is decorated with \<^verbatim>\<open>auto_retry\<close> to retry and then raise.
  When no node answers it does retry, pausing after each of the \<^verbatim>\<open>tries\<close> calls, but what it
  raises in the end is \<^verbatim>\<open>UnboundLocalError\<close>: neither the \<^verbatim>\<open>BailException\<close> of its calls nor the
  class given to the decorator.
\<close>

theorem rpc_eth_getblock_by_number_down:
  assumes "nodes_down cfg env (NODES nodes)" and "distinct (NODES nodes)"
    and "0 \<le> RETRY_LIMIT nodes" and "nat (RETRY_LIMIT nodes) < fuel"
    and "\<And>w. \<exists>w'. time_sleep env 5 w = (Inr (), w')"
  shows "\<exists>t. rpc_eth_getblock_by_number fuel cfg env blocknum nodes s =
      (Raise (Exn UnboundLocalError ''local variable 'exc' referenced before assignment''), t) \<and>
      naps_in t = naps_in s + nat (rpc_retry (chain_rpc (st_chain cfg)))"
  unfolding rpc_eth_getblock_by_number_def auto_retry_def
proof (rule auto_retry_loop_exhausted)
  fix s :: "('a, 'c) construct_rpc_scheme"
  obtain q t where bail: "sync_post_json_rpc fuel cfg env ''eth_getBlockByNumber'' nodes
        (JList [JStr (hex_str blocknum), JBool False]) s = (Raise (Exn BailException []), t)"
    and tr: "trace t = trace s @
          concat (replicate (nat (RETRY_LIMIT nodes)) (map (\<lambda>u. RpcPost u q) (NODES nodes)))"
    using sync_post_down[OF assms(1-4)] by blast
  have "naps_in t = naps_in s"
    by (auto simp: naps_in_def tr filter_empty_conv)
  with bail show "\<exists>e t. bindM (sync_post_json_rpc fuel cfg env ''eth_getBlockByNumber'' nodes
        (JList [JStr (hex_str blocknum), JBool False]))
        (\<lambda>rpc_response. liftM (json_item ''result'' rpc_response)) s = (Raise e, t) \<and>
        is_Exception e \<and> naps_in t = naps_in s"
    by (intro exI[of _ "Exn BailException []"] exI[of _ t]) (simp add: bindM_Raise)
qed (simp_all add: assms(5) naps_in_def)

theorem rpc_eth_getblock_by_number_down_witness:
  "\<exists>t. rpc_eth_getblock_by_number 6 example_settings basic_env 100
         \<lparr>NODES = [''a'', ''b''], RETRY_LIMIT = 5\<rparr>
         \<lparr>ext = (), trace = [], querystring = construct_rpc_init 1\<rparr> =
      (Raise (Exn UnboundLocalError ''local variable 'exc' referenced before assignment''), t) \<and>
      naps_in t = 5"
  using rpc_eth_getblock_by_number_down[of example_settings basic_env
      "\<lparr>NODES = [''a'', ''b''], RETRY_LIMIT = 5\<rparr>" 6 100
      "\<lparr>ext = (), trace = [], querystring = construct_rpc_init 1\<rparr>"]
  by (simp add: nodes_down_def basic_env_def example_settings_def example_rpc_def naps_in_def)

end
