(* ===== verification/Epoch_Generator.thy ===== *)
theory Epoch_Generator
  imports Chunks Transaction_Utils Notification_Utils Rpc_Sync
begin

text \<open>
  \<^verbatim>\<open>epoch_generator.py\<close>: the service that follows the head of the source chain and releases
  one transaction per epoch on the anchor chain. The operations below are the methods of
  \<^verbatim>\<open>EpochGenerator\<close> in the order of the file; the loop \<^verbatim>\<open>while True\<close> of \<^verbatim>\<open>run\<close> is split into
  the release of one chunk, the pass over the chunks, and one round.
\<close>

section \<open>The state and its setup\<close>

record 'w epoch_generator = "'w construct_rpc" +
  shutdown_initiated :: bool
  eg_nonce :: int
  eg_client :: bool \<comment> \<open>\<^verbatim>\<open>_async_transport\<close> and \<^verbatim>\<open>_client\<close> are set\<close>
  release_counter :: int
  force_tx :: bool
  eg_gas :: real
  eg_high_gas :: real
  check_receipt_every :: int

text \<open>The environment with the two decorated methods' retry policies (package tenacity).\<close>

record 'w eg_env = "'w env" +
  retry_fetch :: "(unit, 'w epoch_generator, int) retrying"
  retry_release :: "(unit, 'w epoch_generator, unit) retrying"

definition epoch_generator_init :: "settings \<Rightarrow> 'w \<Rightarrow> 'w epoch_generator" where
  "epoch_generator_init cfg w =
     \<lparr>ext = w, trace = [], querystring = [], shutdown_initiated = False, eg_nonce = - 1,
      eg_client = False, release_counter = 0, force_tx = False,
      eg_gas = default_gas_in_gwei (st_anchor_chain cfg),
      eg_high_gas = default_gas_in_gwei (st_anchor_chain cfg) * 2,
      check_receipt_every = 10\<rparr>"

definition init_httpx_client :: "('w epoch_generator, unit) M" where
  "init_httpx_client =
     bindM (getsM eg_client) (\<lambda>present.
     if present then returnM () else modifyM (\<lambda>s. s\<lparr>eg_client := True\<rparr>))"

definition eg_setup :: "settings \<Rightarrow> 'w eg_env \<Rightarrow> ('w epoch_generator, unit) M" where
  "eg_setup cfg env =
     bindM (extM (get_transaction_count env (validator_epoch_address cfg))) (\<lambda>n.
     thenM (modifyM (\<lambda>s. s\<lparr>eg_nonce := n\<rparr>)) init_httpx_client)"

datatype signum = SIGINT | SIGTERM | SIGQUIT | OtherSignal int

definition generic_exit_handler :: "signum \<Rightarrow> ('w epoch_generator, unit) M" where
  "generic_exit_handler signum =
     bindM (getsM shutdown_initiated) (\<lambda>down.
     if signum \<in> {SIGINT, SIGTERM, SIGQUIT} \<and> \<not> down
     then thenM (modifyM (\<lambda>s. s\<lparr>shutdown_initiated := True\<rparr>)) (raiseM (Exn GenericExitOnSignal []))
     else returnM ())"

section \<open>The contract's epoch and the nonce\<close>

definition fetch_epoch_attempt :: "'w eg_env \<Rightarrow> ('w epoch_generator, int) M" where
  "fetch_epoch_attempt env =
     bindM (extM (current_epoch_call env)) (\<lambda>last_epoch_data.
     bindM (liftM (py_index last_epoch_data 1)) (\<lambda>last_end.
     if last_end \<noteq> 0 then returnM (last_end + 1) else returnM (- 1)))"

definition fetch_epoch_from_contract ::
  "settings \<Rightarrow> 'w eg_env \<Rightarrow> ('w epoch_generator, int) M" where
  "fetch_epoch_from_contract cfg env =
     retry_fetch env is_Exception (rpc_retry (anchor_rpc (st_anchor_chain cfg)))
       (\<lambda>k e. returnM k) (\<lambda>_. fetch_epoch_attempt env) ()"

definition reset_nonce :: "settings \<Rightarrow> 'w eg_env \<Rightarrow> ('w epoch_generator, unit) M" where
  "reset_nonce cfg env =
     bindM (extM (get_transaction_count env (validator_epoch_address cfg))) (\<lambda>correct_nonce.
     whenM (correct_nonce \<noteq> 0) (modifyM (\<lambda>s. s\<lparr>eg_nonce := correct_nonce\<rparr>)))"

definition current_gas :: "'w epoch_generator \<Rightarrow> real" where
  "current_gas s = (if \<not> force_tx s then eg_gas s else eg_high_gas s)"

definition release_args :: "int \<Rightarrow> int \<Rightarrow> json list" where
  "release_args b e = [JInt b, JInt e]"

text \<open>The two ways \<^verbatim>\<open>releaseEpoch\<close> is written, with the object's own nonce.\<close>

abbreviation write_release_receipt where
  "write_release_receipt cfg env \<equiv>
     write_transaction_with_receipt cfg env (validator_epoch_address cfg)
       (validator_epoch_private_key cfg) ''releaseEpoch''"

abbreviation write_release where
  "write_release cfg env \<equiv>
     write_transaction cfg env (validator_epoch_address cfg)
       (validator_epoch_private_key cfg) ''releaseEpoch''"

section \<open>The first epoch\<close>

definition release_epoch_write ::
  "settings \<Rightarrow> 'w eg_env \<Rightarrow> int \<Rightarrow> int \<Rightarrow> ('w epoch_generator, json option) M" where
  "release_epoch_write cfg env b e =
     thenM (modifyM (\<lambda>s. s\<lparr>release_counter := release_counter s + 1\<rparr>))
     (bindM (getsM (\<lambda>s. (eg_nonce s, current_gas s))) (\<lambda>(nonce, gas).
      bindM (write_release_receipt cfg env nonce gas (release_args b e)) (\<lambda>(tx_hash, receipt).
      thenM (modifyM (\<lambda>s. s\<lparr>eg_nonce := eg_nonce s + 1, force_tx := False\<rparr>))
            (returnM (Some receipt)))))"

definition release_epoch_handler ::
  "settings \<Rightarrow> 'w eg_env \<Rightarrow> exn \<Rightarrow> ('w epoch_generator, json option) M" where
  "release_epoch_handler cfg env ex =
     (if sublist ''nonce too low'' (exn_str ex) \<or> sublist ''nonce too high'' (exn_str ex)
      then thenM (reset_nonce cfg env)
           (thenM (modifyM (\<lambda>s. s\<lparr>force_tx := True\<rparr>)) (raiseM ex))
      else if has_class TimeExhausted ex
      then thenM (reset_nonce cfg env)
           (thenM (modifyM (\<lambda>s. s\<lparr>force_tx := True\<rparr>))
             (raiseM (Exn PyException ''tx receipt not found in time'')))
      else if sublist ''replacement transaction underpriced'' (exn_str ex)
      then returnM None
      else raiseM ex)"

text \<open>One attempt of \<^verbatim>\<open>_release_epoch_with_retry\<close>; \<open>None\<close> is the early \<^verbatim>\<open>return\<close>.\<close>

definition release_epoch_attempt ::
  "settings \<Rightarrow> 'w eg_env \<Rightarrow> int \<Rightarrow> int \<Rightarrow> ('w epoch_generator, unit) M" where
  "release_epoch_attempt cfg env b e =
     bindM (tryM (release_epoch_write cfg env b e) (release_epoch_handler cfg env)) (\<lambda>r.
     case r of
       None \<Rightarrow> returnM ()
     | Some receipt \<Rightarrow>
         bindM (liftM (json_item ''status'' receipt)) (\<lambda>status.
         if \<not> json_is_one status
         then raiseM (Exn PyException ''Epoch release transaction failed.'')
         else returnM ()))"

definition release_epoch_with_retry ::
  "settings \<Rightarrow> 'w eg_env \<Rightarrow> int \<Rightarrow> int \<Rightarrow> ('w epoch_generator, unit) M" where
  "release_epoch_with_retry cfg env b e =
     retry_release env is_Exception (rpc_retry (anchor_rpc (st_anchor_chain cfg)))
       (\<lambda>k ex. returnM k) (\<lambda>_. release_epoch_attempt cfg env b e) ()"

definition eg_issue :: "settings \<Rightarrow> int \<Rightarrow> string \<Rightarrow> string \<Rightarrow> json" where
  "eg_issue cfg b itype extra =
     generic_txn_issue_dict
       \<lparr>account_address = validator_epoch_address cfg, issue_type = itype,
        issue_project_id = None, issue_epoch_begin = Some (int_str b), issue_epoch_id = None,
        issue_extra = Some extra\<rparr>"

definition eg_notify :: "settings \<Rightarrow> json \<Rightarrow> ('w epoch_generator, unit) M" where
  "eg_notify cfg message =
     bindM (getsM eg_client) (\<lambda>client. send_failure_notifications cfg client message)"

definition rpc_nodes_of :: "settings \<Rightarrow> rpc_nodes_object" where
  "rpc_nodes_of cfg =
     \<lparr>NODES = map node_url (full_nodes (chain_rpc (st_chain cfg))),
      RETRY_LIMIT = rpc_retry (chain_rpc (st_chain cfg))\<rparr>"

definition release_first_epoch ::
  "nat \<Rightarrow> settings \<Rightarrow> 'w eg_env \<Rightarrow> ('w epoch_generator, int) M" where
  "release_first_epoch fuel cfg env =
     bindM (rpc_eth_blocknumber fuel cfg env (rpc_nodes_of cfg)) (\<lambda>cur_block.
     (let end_block_epoch = cur_block - offset_of cfg;
          begin_block_epoch = end_block_epoch - height_of cfg + 1
      in try_elseM is_Exception
           (release_epoch_with_retry cfg env begin_block_epoch end_block_epoch)
           (\<lambda>ex. thenM (eg_notify cfg (eg_issue cfg begin_block_epoch ''FirstEpochReleaseTxnFailed''
                    (json_dumps (JObj [(''issueDetails'', JStr (''Error : '' @ exn_str ex))]))))
                  (returnM 0))
           (\<lambda>_. returnM (end_block_epoch + 1))))"

text \<open>The clock is read twice before the loop: once to log it and once for the test.\<close>

definition wait_and_release_first_epoch ::
  "nat \<Rightarrow> settings \<Rightarrow> 'w eg_env \<Rightarrow> ('w epoch_generator, int) M" where
  "wait_and_release_first_epoch fuel cfg env =
     (let start_time = epoch_release_start_timestamp cfg
      in bindM (nowM env) (\<lambda>_.
         bindM (nowM env) (\<lambda>t.
         if start_time < py_trunc t then returnM 0
         else loopM fuel (\<lambda>_.
           bindM (nowM env) (\<lambda>t.
           (let current_time = py_trunc t
            in if current_time \<ge> start_time
               then bindM (release_first_epoch fuel cfg env) (\<lambda>b. returnM (Inr b))
               else thenM (asyncSleepM env (start_time - current_time)) (returnM (Inl ()))))) ())))"

section \<open>The release loop\<close>

text \<open>
  After a failed release: wait, read the nonce from the chain and the last epoch from the
  contract; \<open>b\<close> stays the begin marker when the contract has none.
\<close>

definition recover :: "settings \<Rightarrow> 'w eg_env \<Rightarrow> int \<Rightarrow> ('w epoch_generator, int) M" where
  "recover cfg env b =
     thenM (timeSleepM env 30)
     (bindM (extM (get_transaction_count env (validator_epoch_address cfg))) (\<lambda>n.
      thenM (modifyM (\<lambda>s. s\<lparr>eg_nonce := n\<rparr>))
      (bindM (fetch_epoch_from_contract cfg env) (\<lambda>last_contract_epoch.
       returnM (if last_contract_epoch \<noteq> - 1 then last_contract_epoch else b)))))"

text \<open>
  The \<^verbatim>\<open>try\<close> block for one chunk \<open>(b, e)\<close>. \<open>None\<close>: released, go on. \<open>Some b'\<close>: failed, leave
  the pass with \<^verbatim>\<open>begin_block_epoch = b'\<close>.
\<close>

definition release_chunk_body ::
  "settings \<Rightarrow> 'w eg_env \<Rightarrow> int \<Rightarrow> int \<Rightarrow> int \<Rightarrow> ('w epoch_generator, int option) M" where
  "release_chunk_body cfg env begin_block b e =
     bindM (getsM id) (\<lambda>self.
     if release_counter self mod check_receipt_every self = 0 \<or> force_tx self
     then
       thenM (modifyM (\<lambda>s. s\<lparr>release_counter := release_counter s + 1\<rparr>))
       (bindM (write_release_receipt cfg env (eg_nonce self) (current_gas self) (release_args b e))
         (\<lambda>(tx_hash, receipt).
        bindM (liftM (json_item ''status'' receipt)) (\<lambda>status.
        if \<not> json_is_one status
        then
          bindM (liftM (web3_to_json env receipt)) (\<lambda>extra.
          thenM (eg_notify cfg (eg_issue cfg b ''EpochReleaseTxnFailed'' extra))
          (bindM (recover cfg env begin_block) (\<lambda>b'.
           thenM (modifyM (\<lambda>s. s\<lparr>force_tx := True\<rparr>)) (returnM (Some b')))))
        else
          thenM (modifyM (\<lambda>s. s\<lparr>force_tx := False\<rparr>))
          (thenM (modifyM (\<lambda>s. s\<lparr>eg_nonce := eg_nonce s + 1\<rparr>)) (returnM None)))))
     else
       thenM (modifyM (\<lambda>s. s\<lparr>release_counter := release_counter s + 1\<rparr>))
       (bindM (write_release cfg env (eg_nonce self) (eg_gas self) (release_args b e)) (\<lambda>tx_hash.
        thenM (modifyM (\<lambda>s. s\<lparr>eg_nonce := eg_nonce s + 1\<rparr>)) (returnM None))))"

definition release_chunk_handler ::
  "settings \<Rightarrow> 'w eg_env \<Rightarrow> int \<Rightarrow> int \<Rightarrow> exn \<Rightarrow> ('w epoch_generator, int option) M" where
  "release_chunk_handler cfg env begin_block b ex =
     thenM (eg_notify cfg (eg_issue cfg b ''EpochReleaseError'' (exn_str ex)))
     (bindM (recover cfg env begin_block) (\<lambda>b'.
      thenM (modifyM (\<lambda>s. s\<lparr>force_tx := True\<rparr>)) (returnM (Some b'))))"

definition release_chunk ::
  "settings \<Rightarrow> 'w eg_env \<Rightarrow> int \<Rightarrow> int \<Rightarrow> int \<Rightarrow> ('w epoch_generator, int option) M" where
  "release_chunk cfg env begin_block b e =
     tryM (release_chunk_body cfg env begin_block b e) (release_chunk_handler cfg env begin_block b)"

text \<open>The pass over the chunks; the flag says that the loop ended without \<^verbatim>\<open>break\<close>.\<close>

fun release_chunks ::
  "settings \<Rightarrow> 'w eg_env \<Rightarrow> int \<Rightarrow> int \<Rightarrow> (int \<times> int \<times> int) list \<Rightarrow>
     ('w epoch_generator, int \<times> bool) M" where
  "release_chunks cfg env sleep_secs begin_block [] = returnM (begin_block, True)"
| "release_chunks cfg env sleep_secs begin_block ((b, e, i) # epochs) =
     (if e - b + 1 < height_of cfg then returnM (b, False)
      else bindM (release_chunk cfg env begin_block b e) (\<lambda>r.
        case r of
          Some b' \<Rightarrow> returnM (b', False)
        | None \<Rightarrow> thenM (asyncSleepM env sleep_secs)
                        (release_chunks cfg env sleep_secs begin_block epochs)))"

text \<open>One round of \<^verbatim>\<open>while True\<close>: from the begin marker to the next one.\<close>

definition eg_round ::
  "nat \<Rightarrow> settings \<Rightarrow> 'w eg_env \<Rightarrow> int \<Rightarrow> ('w epoch_generator, int) M" where
  "eg_round fuel cfg env begin_block =
     try_elseM is_Exception (rpc_eth_blocknumber fuel cfg env (rpc_nodes_of cfg))
       (\<lambda>ex. thenM (asyncSleepM env (block_time_of cfg)) (returnM begin_block))
       (\<lambda>cur_block.
          if begin_block = 0
          then thenM (asyncSleepM env (block_time_of cfg)) (returnM cur_block)
          else
            (let end_block = cur_block - offset_of cfg
             in if \<not> (end_block - begin_block + 1 \<ge> height_of cfg)
                then (let sleep_factor = height_of cfg - ((end_block - begin_block) + 1)
                      in thenM (asyncSleepM env (sleep_factor * block_time_of cfg))
                               (returnM begin_block))
                else bindM (liftM (chunks begin_block end_block (height_of cfg))) (\<lambda>epochs.
                     bindM (release_chunks cfg env (block_time_of cfg div 2) begin_block epochs)
                       (\<lambda>(b', completed).
                     returnM (if completed then end_block + 1 else b')))))"

definition eg_loop ::
  "nat \<Rightarrow> nat \<Rightarrow> settings \<Rightarrow> 'w eg_env \<Rightarrow> int \<Rightarrow> ('w epoch_generator, unit) M" where
  "eg_loop fuel rounds cfg env =
     loopM rounds (\<lambda>b. bindM (eg_round fuel cfg env b) (\<lambda>b'. returnM (Inl b')))"

definition eg_run ::
  "nat \<Rightarrow> nat \<Rightarrow> settings \<Rightarrow> 'w eg_env \<Rightarrow> ('w epoch_generator, unit) M" where
  "eg_run fuel rounds cfg env =
     thenM (eg_setup cfg env)
     (bindM (fetch_epoch_from_contract cfg env) (\<lambda>last_contract_epoch.
      (let begin_block =
             (if last_contract_epoch \<noteq> - 1 then last_contract_epoch
              else (case ticker_begin_block cfg of Some t \<Rightarrow> t | None \<Rightarrow> 0))
       in
      thenM (forM [''SIGINT'', ''SIGTERM'', ''SIGQUIT''] (\<lambda>n. emitM (SignalInstall n)))
      (thenM (modifyM (\<lambda>s. s\<lparr>querystring := construct_rpc_init (source_chain_id (st_chain cfg))\<rparr>))
      (if epoch_release_start_timestamp cfg \<noteq> 0 \<and> begin_block = 0
       then bindM (wait_and_release_first_epoch fuel cfg env) (\<lambda>b.
            if b = 0 then returnM () else eg_loop fuel rounds cfg env b)
       else eg_loop fuel rounds cfg env begin_block)))))"

end
