(* ===== verification/Epoch_Release.thy ===== *)
theory Epoch_Release
  imports Epoch_Generator
begin

text \<open>
  What the release loop of the epoch generator submits: the effect of one chunk, of a pass
  over the chunks, of one round, and of the whole loop.
\<close>

section \<open>Recovering and reporting\<close>

lemma logs_fetch_epoch_attempt [logging]: "keepsM (logs P) (fetch_epoch_attempt env)"
  unfolding fetch_epoch_attempt_def by (intro logging)

lemma logs_fetch_epoch_from_contract [logging]:
  assumes "tenacity (retry_fetch env)"
  shows "keepsM (logs P) (fetch_epoch_from_contract cfg env)"
  unfolding fetch_epoch_from_contract_def
  by (rule logs.keeps_retry[OF assms]; intro logging)

lemma logs_eg_notify [logging]:
  "(\<And>url. P (Notify url message)) \<Longrightarrow> keepsM (logs P) (eg_notify cfg message)"
  unfolding eg_notify_def by (intro logging)

text \<open>\<open>calm\<close>: nothing was logged, and of the object only the nonce may have changed.\<close>

definition calm :: "'w epoch_generator \<Rightarrow> 'w epoch_generator \<Rightarrow> bool" where
  "calm s t \<longleftrightarrow> (\<exists>w n. t = s\<lparr>ext := w, eg_nonce := n\<rparr>)"

lemma calm_fields:
  assumes "calm s t"
  shows "trace t = trace s" "release_counter t = release_counter s" "force_tx t = force_tx s"
    "eg_gas t = eg_gas s" "eg_high_gas t = eg_high_gas s" "eg_client t = eg_client s"
    "check_receipt_every t = check_receipt_every s"
  using assms by (auto simp: calm_def)

interpretation calm: env_frame calm
proof unfold_locales
  fix s t u :: "'w epoch_generator" and w :: 'w
  show "calm s s"
    unfolding calm_def by (rule exI[of _ "ext s"], rule exI[of _ "eg_nonce s"]) simp
  show "calm s u" if "calm s t" "calm t u"
  proof -
    from that obtain w n w' n' where "t = s\<lparr>ext := w, eg_nonce := n\<rparr>" "u = t\<lparr>ext := w', eg_nonce := n'\<rparr>"
      unfolding calm_def by blast
    then have "u = s\<lparr>ext := w', eg_nonce := n'\<rparr>" by (cases s) simp
    then show ?thesis unfolding calm_def by blast
  qed
  show "calm s (s\<lparr>ext := w\<rparr>)"
    unfolding calm_def by (rule exI[of _ w], rule exI[of _ "eg_nonce s"]) simp
qed

lemma calm_set_nonce:
  "keepsM calm (modifyM (\<lambda>s :: 'w epoch_generator. s\<lparr>eg_nonce := n\<rparr>))"
proof -
  have "calm s (s\<lparr>eg_nonce := n\<rparr>)" for s :: "'w epoch_generator"
    unfolding calm_def by (rule exI[of _ "ext s"], rule exI[of _ n]) (cases s, simp)
  then show ?thesis by (simp add: keepsM_def modifyM_def)
qed

lemma calm_fetch_attempt: "keepsM calm (fetch_epoch_attempt env)"
  unfolding fetch_epoch_attempt_def by (intro calm.keeps_rules calm.keeps_ext)

lemma calm_fetch:
  assumes "tenacity (retry_fetch env)"
  shows "keepsM calm (fetch_epoch_from_contract cfg env)"
  unfolding fetch_epoch_from_contract_def
  by (rule calm.keeps_retry[OF assms]; intro calm.keeps_rules calm_fetch_attempt)

lemma timeSleepM_cases:
  assumes "timeSleepM env n s = (r, t)"
  obtains w where "t = s\<lparr>ext := w, trace := trace s @ [BlockingSleep n]\<rparr>"
  using assms
  by (auto simp: timeSleepM_def callM_def thenM_def bindM_def emitM_def extM_def liftM_def
      split: prod.splits sum.splits)

lemma recover_effect:
  assumes "tenacity (retry_fetch env)" and "recover cfg env b s = (r, t)"
  obtains w n where "t = s\<lparr>ext := w, trace := trace s @ [BlockingSleep 30], eg_nonce := n\<rparr>"
proof -
  let ?rest = "bindM (extM (get_transaction_count env (validator_epoch_address cfg))) (\<lambda>n.
      thenM (modifyM (\<lambda>s. s\<lparr>eg_nonce := n\<rparr>))
      (bindM (fetch_epoch_from_contract cfg env) (\<lambda>last_contract_epoch.
       returnM (if last_contract_epoch \<noteq> - 1 then last_contract_epoch else b))))"
  have rest: "keepsM calm ?rest"
    by (intro calm.keeps_rules calm.keeps_ext calm_set_nonce calm_fetch assms(1))
  from assms(2) have "thenM (timeSleepM env 30) ?rest s = (r, t)"
    by (simp add: recover_def)
  then show thesis
  proof (cases rule: thenM_E)
    case (Ret a u)
    from Ret(1) obtain w where u: "u = s\<lparr>ext := w, trace := trace s @ [BlockingSleep 30]\<rparr>"
      by (rule timeSleepM_cases)
    from keepsMD[OF rest Ret(2)] obtain w' n where "t = u\<lparr>ext := w', eg_nonce := n\<rparr>"
      unfolding calm_def by blast
    with u show thesis
      using that[of n w'] by simp
  next
    case (Raise e)
    from Raise(1) obtain w where "t = s\<lparr>ext := w, trace := trace s @ [BlockingSleep 30]\<rparr>"
      by (rule timeSleepM_cases)
    then show thesis
      using that[of "eg_nonce s" w] by (cases s) simp
  next
    case Pending
    from Pending(1) obtain w where "t = s\<lparr>ext := w, trace := trace s @ [BlockingSleep 30]\<rparr>"
      by (rule timeSleepM_cases)
    then show thesis
      using that[of "eg_nonce s" w] by (cases s) simp
  qed
qed

section \<open>One chunk\<close>

abbreviation release_carries where
  "release_carries cfg env \<equiv> carries cfg env (validator_epoch_address cfg) ''releaseEpoch''"

text \<open>
  The effect of trying to release one chunk. At most one transaction is submitted: the
  release of this chunk with the object's nonce. Success counts the release, advances the
  nonce and ends a forced retry, without a pause; a handled failure has paused and forces
  the next release.
\<close>

definition chunk_effect ::
  "settings \<Rightarrow> 'w eg_env \<Rightarrow> int \<Rightarrow> int \<Rightarrow> 'w epoch_generator \<Rightarrow> int option res \<Rightarrow>
     'w epoch_generator \<Rightarrow> event list \<Rightarrow> bool" where
  "chunk_effect cfg env b e s r t evs \<longleftrightarrow>
     trace t = trace s @ evs \<and>
     (submitted evs = [] \<or>
       (\<exists>tx. submitted evs = [tx] \<and>
          release_carries cfg env (eg_nonce s) (current_gas s) (release_args b e) tx)) \<and>
     (r = Ret None \<longrightarrow> submitted evs \<noteq> [] \<and> BlockingSleep 30 \<notin> set evs \<and>
        eg_nonce t = eg_nonce s + 1 \<and> release_counter t = release_counter s + 1 \<and> \<not> force_tx t) \<and>
     (\<forall>b'. r = Ret (Some b') \<longrightarrow> BlockingSleep 30 \<in> set evs \<and> force_tx t)"

lemma submitted_eq_Nil: "submitted evs = [] \<longleftrightarrow> (\<forall>tx. TxSubmit tx \<notin> set evs)"
  using in_submitted[of _ evs] by (cases "submitted evs") auto

lemma no_pause_in_traffic: "list_all tx_traffic evs \<Longrightarrow> BlockingSleep n \<notin> set evs"
  by (auto simp: list_all_iff)

text \<open>The common end of both failure paths: report, recover, force the next release.\<close>

lemma fail_tail_effect:
  assumes "tenacity (retry_fetch env)"
    and "thenM (eg_notify cfg message) (bindM (recover cfg env begin_block) (\<lambda>b'.
           thenM (modifyM (\<lambda>s. s\<lparr>force_tx := True\<rparr>)) (returnM (Some b')))) s = (r, t)"
  obtains evs where "trace t = trace s @ evs" and "submitted evs = []" and "r \<noteq> Ret None"
    and "\<And>b'. r = Ret (Some b') \<Longrightarrow> BlockingSleep 30 \<in> set evs \<and> force_tx t"
proof -
  have notify: "keepsM (logs (\<lambda>ev. \<not> is_submit ev)) (eg_notify cfg message)"
    by (rule logs_eg_notify) simp
  from assms(2) show thesis
  proof (cases rule: thenM_E)
    case (Ret a u)
    from notify Ret(1) obtain w evs where
      u: "u = s\<lparr>ext := w, trace := trace s @ evs\<rparr>" "list_all (\<lambda>ev. \<not> is_submit ev) evs"
      by (rule logsE)
    obtain r1 v where rec: "recover cfg env begin_block u = (r1, v)"
      by (cases "recover cfg env begin_block u")
    with assms(1) obtain w' n where
      v: "v = u\<lparr>ext := w', trace := trace u @ [BlockingSleep 30], eg_nonce := n\<rparr>"
      by (rule recover_effect)
    have "trace t = trace s @ (evs @ [BlockingSleep 30])" "r \<noteq> Ret None"
      "\<And>b'. r = Ret (Some b') \<Longrightarrow> force_tx t"
      using Ret(2) rec u v by (cases r1; auto simp: M_simps)+
    with u(2) show thesis
      by (intro that[of "evs @ [BlockingSleep 30]"]) (auto simp: submitted_none)
  next
    case (Raise e)
    from notify Raise(1) obtain w evs where
      "t = s\<lparr>ext := w, trace := trace s @ evs\<rparr>" "list_all (\<lambda>ev. \<not> is_submit ev) evs"
      by (rule logsE)
    with Raise show thesis
      by (intro that[of evs]) (auto simp: submitted_none)
  next
    case Pending
    from notify Pending(1) obtain w evs where
      "t = s\<lparr>ext := w, trace := trace s @ evs\<rparr>" "list_all (\<lambda>ev. \<not> is_submit ev) evs"
      by (rule logsE)
    with Pending show thesis
      by (intro that[of evs]) (auto simp: submitted_none)
  qed
qed

lemma release_chunk_body_effect:
  assumes ten: "tenacity (retry_fetch env)"
    and run: "release_chunk_body cfg env begin_block b e s = (r, t)"
  shows "\<exists>evs. chunk_effect cfg env b e s r t evs"
proof (cases "release_counter s mod check_receipt_every s = 0 \<or> force_tx s")
  case plain: False
  let ?s1 = "s\<lparr>release_counter := release_counter s + 1\<rparr>"
  from run plain have "bindM (write_release cfg env (eg_nonce s) (eg_gas s) (release_args b e))
      (\<lambda>_. thenM (modifyM (\<lambda>s. s\<lparr>eg_nonce := eg_nonce s + 1\<rparr>)) (returnM None)) ?s1 = (r, t)"
    by (simp add: release_chunk_body_def M_simps)
  then show ?thesis
  proof (cases rule: bindM_E)
    case (Ret h u)
    from Ret(1) obtain w evs tx where
      "u = ?s1\<lparr>ext := w, trace := trace ?s1 @ evs\<rparr>" "list_all tx_traffic evs" "submitted evs = [tx]"
      "release_carries cfg env (eg_nonce s) (eg_gas s) (release_args b e) tx"
      by (rule wt.write_success)
    with Ret(2) plain show ?thesis
      by (intro exI[of _ evs]) (auto simp: chunk_effect_def M_simps current_gas_def no_pause_in_traffic)
  next
    case (Raise ex)
    from Raise(1) obtain w evs where
      "t = ?s1\<lparr>ext := w, trace := trace ?s1 @ evs\<rparr>" "list_all tx_traffic evs"
      "submitted evs = [] \<or> (\<exists>tx. submitted evs = [tx] \<and>
         release_carries cfg env (eg_nonce s) (eg_gas s) (release_args b e) tx)"
      by (rule wt.write_frame)
    with Raise plain show ?thesis
      by (intro exI[of _ evs]) (auto simp: chunk_effect_def current_gas_def)
  next
    case Pending
    with wt.write_returns show ?thesis by (metis fst_conv)
  qed
next
  case receipt: True
  let ?s1 = "s\<lparr>release_counter := release_counter s + 1\<rparr>"
  let ?after = "\<lambda>receipt. bindM (liftM (json_item ''status'' receipt)) (\<lambda>status.
        if \<not> json_is_one status
        then
          bindM (liftM (web3_to_json env receipt)) (\<lambda>extra.
          thenM (eg_notify cfg (eg_issue cfg b ''EpochReleaseTxnFailed'' extra))
          (bindM (recover cfg env begin_block) (\<lambda>b'.
           thenM (modifyM (\<lambda>s. s\<lparr>force_tx := True\<rparr>)) (returnM (Some b')))))
        else
          thenM (modifyM (\<lambda>s. s\<lparr>force_tx := False\<rparr>))
          (thenM (modifyM (\<lambda>s. s\<lparr>eg_nonce := eg_nonce s + 1\<rparr>)) (returnM None)))"
  from run receipt have "bindM (write_release_receipt cfg env (eg_nonce s) (current_gas s) (release_args b e))
      (\<lambda>(h, receipt). ?after receipt) ?s1 = (r, t)"
    by (simp add: release_chunk_body_def M_simps)
  then show ?thesis
  proof (cases rule: bindM_E)
    case (Ret hr u)
    obtain h rc where hr: "hr = (h, rc)" by (cases hr)
    from Ret(1) obtain w evs tx where
      u: "u = ?s1\<lparr>ext := w, trace := trace ?s1 @ evs\<rparr>" "list_all tx_traffic evs" "submitted evs = [tx]"
      "release_carries cfg env (eg_nonce s) (current_gas s) (release_args b e) tx"
      by (rule wr.write_success)
    from Ret(2) have "?after rc u = (r, t)" by (simp add: hr)
    then consider (err) "trace t = trace u" "\<And>x. r \<noteq> Ret x"
      | (ok) "r = Ret None" "t = u\<lparr>force_tx := False, eg_nonce := eg_nonce u + 1\<rparr>"
      | (fail) extra where "thenM (eg_notify cfg (eg_issue cfg b ''EpochReleaseTxnFailed'' extra))
          (bindM (recover cfg env begin_block) (\<lambda>b'.
           thenM (modifyM (\<lambda>s. s\<lparr>force_tx := True\<rparr>)) (returnM (Some b')))) u = (r, t)"
      by (cases "json_item ''status'' rc"; cases "web3_to_json env rc")
         (auto simp: M_simps split: if_splits)
    then show ?thesis
    proof cases
      case err
      with u show ?thesis
        by (intro exI[of _ evs]) (auto simp: chunk_effect_def)
    next
      case ok
      with u show ?thesis
        by (intro exI[of _ evs]) (auto simp: chunk_effect_def no_pause_in_traffic)
    next
      case (fail extra)
      from ten fail obtain evs' where
        "trace t = trace u @ evs'" "submitted evs' = []" "r \<noteq> Ret None"
        "\<And>b'. r = Ret (Some b') \<Longrightarrow> BlockingSleep 30 \<in> set evs' \<and> force_tx t"
        by (rule fail_tail_effect) blast
      with u show ?thesis
        by (intro exI[of _ "evs @ evs'"]) (auto simp: chunk_effect_def)
    qed
  next
    case (Raise ex)
    from Raise(1) obtain w evs where
      "t = ?s1\<lparr>ext := w, trace := trace ?s1 @ evs\<rparr>" "list_all tx_traffic evs"
      "submitted evs = [] \<or> (\<exists>tx. submitted evs = [tx] \<and>
         release_carries cfg env (eg_nonce s) (current_gas s) (release_args b e) tx)"
      by (rule wr.write_frame)
    with Raise show ?thesis
      by (intro exI[of _ evs]) (auto simp: chunk_effect_def)
  next
    case Pending
    with wr.write_returns show ?thesis by (metis fst_conv)
  qed
qed

lemma release_chunk_effect:
  assumes ten: "tenacity (retry_fetch env)"
    and run: "release_chunk cfg env begin_block b e s = (r, t)"
  shows "\<exists>evs. chunk_effect cfg env b e s r t evs"
proof -
  from run have "tryM (release_chunk_body cfg env begin_block b e)
      (release_chunk_handler cfg env begin_block b) s = (r, t)"
    by (simp add: release_chunk_def)
  then show ?thesis
  proof (cases rule: tryM_E)
    case (Caught ex u)
    from release_chunk_body_effect[OF ten Caught(1)] obtain evs where
      evs: "chunk_effect cfg env b e s (Raise ex) u evs" ..
    from Caught(3) have "thenM (eg_notify cfg (eg_issue cfg b ''EpochReleaseError'' (exn_str ex)))
        (bindM (recover cfg env begin_block) (\<lambda>b'.
         thenM (modifyM (\<lambda>s. s\<lparr>force_tx := True\<rparr>)) (returnM (Some b')))) u = (r, t)"
      by (simp add: release_chunk_handler_def)
    with ten obtain evs' where
      "trace t = trace u @ evs'" "submitted evs' = []" "r \<noteq> Ret None"
      "\<And>b'. r = Ret (Some b') \<Longrightarrow> BlockingSleep 30 \<in> set evs' \<and> force_tx t"
      by (rule fail_tail_effect) blast
    with evs show ?thesis
      by (intro exI[of _ "evs @ evs'"]) (auto simp: chunk_effect_def)
  qed (use release_chunk_body_effect[OF ten] in blast)+
qed

section \<open>A pass over the chunks\<close>

text \<open>What was sent, as nonces with arguments, and the run of \<open>k\<close> consecutive epochs of
  \<open>h\<close> blocks from block \<open>b\<close> with consecutive nonces from \<open>n\<close>.\<close>

definition sent :: "event list \<Rightarrow> (int \<times> json list) list" where
  "sent evs = map (\<lambda>tx. (tx_nonce tx, tx_args tx)) (submitted evs)"

definition epochs_from :: "int \<Rightarrow> int \<Rightarrow> int \<Rightarrow> nat \<Rightarrow> (int \<times> json list) list" where
  "epochs_from h b n k =
     map (\<lambda>i. (n + int i, release_args (b + int i * h) (b + int i * h + h - 1))) [0..<k]"

lemma sent_simps [simp]:
  "sent [] = []"
  "sent (evs @ evs') = sent evs @ sent evs'"
  "\<not> is_submit ev \<Longrightarrow> sent (ev # evs) = sent evs"
  by (simp_all add: sent_def) (cases ev; simp)

lemma sent_Nil: "submitted evs = [] \<Longrightarrow> sent evs = []"
  by (simp add: sent_def)

lemma epochs_from_simps:
  "epochs_from h b n 0 = []"
  "epochs_from h b n (Suc k) = (n, release_args b (b + h - 1)) # epochs_from h (b + h) (n + 1) k"
  by (simp_all add: epochs_from_def map_upt_Suc algebra_simps del: upt_Suc)

lemma epochs_from_append:
  "epochs_from h b n k @ epochs_from h (b + int k * h) (n + int k) j = epochs_from h b n (k + j)"
proof (induction k arbitrary: b n)
  case 0
  then show ?case by (simp add: epochs_from_simps)
next
  case (Suc k)
  from Suc[of "b + h" "n + 1"] show ?case
    by (simp add: epochs_from_simps algebra_simps)
qed

lemma chunk_effect_sent:
  assumes "chunk_effect cfg env b e s r t evs"
  shows "trace t = trace s @ evs"
    and "sent evs = [] \<or> sent evs = [(eg_nonce s, release_args b e)]"
    and "r = Ret None \<Longrightarrow> sent evs = [(eg_nonce s, release_args b e)] \<and>
           BlockingSleep 30 \<notin> set evs \<and> eg_nonce t = eg_nonce s + 1"
    and "r = Ret (Some b') \<Longrightarrow> BlockingSleep 30 \<in> set evs"
  using assms by (auto simp: chunk_effect_def sent_def carries_def)

text \<open>
  The effect of a pass from block \<open>b\<close> to block \<open>stop\<close> that left the marker \<open>next\<close>: some
  number of consecutive epochs, none past \<open>stop\<close>; without a pause no full epoch is left.
\<close>

definition pass_effect ::
  "int \<Rightarrow> int \<Rightarrow> int \<Rightarrow> 'w epoch_generator \<Rightarrow> 'w epoch_generator \<Rightarrow> int option \<Rightarrow> event list \<Rightarrow> bool" where
  "pass_effect h b stop s t next evs \<longleftrightarrow>
     trace t = trace s @ evs \<and>
     (\<exists>k. sent evs = epochs_from h b (eg_nonce s) k \<and> (0 < k \<longrightarrow> b + int k * h - 1 \<le> stop) \<and>
        (BlockingSleep 30 \<notin> set evs \<longrightarrow> next \<noteq> None \<longrightarrow>
           next = Some (b + int k * h) \<and> eg_nonce t = eg_nonce s + int k \<and>
           stop - (b + int k * h) + 1 < h))"

fun pass_marker :: "int \<Rightarrow> (int \<times> bool) res \<Rightarrow> int option" where
  "pass_marker stop (Ret (b', completed)) = Some (if completed then stop + 1 else b')"
| "pass_marker stop r = None"

lemma asyncSleepM_cases:
  assumes "asyncSleepM env n s = (r, t)"
  obtains w where "t = s\<lparr>ext := w, trace := trace s @ [AsyncSleep n]\<rparr>"
  using assms
  by (auto simp: asyncSleepM_def callM_def thenM_def bindM_def emitM_def extM_def liftM_def
      split: prod.splits sum.splits)

lemma pass_effect_stop:
  assumes "trace t = trace s @ evs" and "i + h - 1 \<le> stop"
    and "sent evs = [] \<or> sent evs = [(eg_nonce s, release_args i (i + h - 1))]"
    and "next = None \<or> BlockingSleep 30 \<in> set evs"
  shows "pass_effect h i stop s t next evs"
  using assms unfolding pass_effect_def
  by (auto simp: epochs_from_simps intro: exI[of _ "0 :: nat"] exI[of _ "Suc 0"])

lemma pass_effect_step:
  assumes "sent evs = [(eg_nonce s, release_args i (i + h - 1))]"
    and "trace u = trace s @ evs" and "i + h - 1 \<le> stop"
    and "BlockingSleep 30 \<notin> set evs" and "eg_nonce u = eg_nonce s + 1"
    and "pass_effect h (i + h) stop u t next evs'"
  shows "pass_effect h i stop s t next (evs @ evs')"
proof -
  from assms(6) obtain k where k: "trace t = trace u @ evs'"
    "sent evs' = epochs_from h (i + h) (eg_nonce u) k" "0 < k \<longrightarrow> i + h + int k * h - 1 \<le> stop"
    "BlockingSleep 30 \<notin> set evs' \<longrightarrow> next \<noteq> None \<longrightarrow>
       next = Some (i + h + int k * h) \<and> eg_nonce t = eg_nonce u + int k \<and>
       stop - (i + h + int k * h) + 1 < h"
    unfolding pass_effect_def by blast
  then show ?thesis
    unfolding pass_effect_def using assms(1-5)
    by (intro conjI exI[of _ "Suc k"]) (auto simp: epochs_from_simps algebra_simps)
qed

lemma release_chunks_effect:
  assumes h: "0 < h" "h = height_of cfg" and ten: "tenacity (retry_fetch env)"
    and "release_chunks cfg env sleep_secs begin_block (chunks_from h i stop r0) s = (r, t)"
    and "i \<le> stop + 1"
  shows "\<exists>evs. pass_effect h i stop s t (pass_marker stop r) evs"
  using h(1) assms(4,5)
proof (induction i r0 arbitrary: s rule: chunks_induct[where stop = stop])
  case (Empty i r0)
  with h(1) show ?case
    by (intro exI[of _ "[]"])
       (auto simp: chunks_from_Nil returnM_apply pass_effect_def epochs_from_simps
          intro!: exI[of _ "0 :: nat"])
next
  case (Chunk i r0)
  note cs = chunks_from_step[OF h(1) Chunk.hyps, of r0]
  show ?case
  proof (cases "i + h - 1 \<le> stop")
    case False
    with Chunk.prems(1) have "r = Ret (i, False)" "t = s"
      by (simp_all add: cs min_def returnM_apply h(2)[symmetric])
    with False show ?thesis
      by (intro exI[of _ "[]"])
         (auto simp: pass_effect_def epochs_from_simps intro!: exI[of _ "0 :: nat"])
  next
    case True
    let ?rest = "release_chunks cfg env sleep_secs begin_block (chunks_from h (i + h) stop (r0 + 1))"
    from Chunk.prems(1) True have
      "bindM (release_chunk cfg env begin_block i (i + h - 1)) (\<lambda>r. case r of
          Some b' \<Rightarrow> returnM (b', False)
        | None \<Rightarrow> thenM (asyncSleepM env sleep_secs) ?rest) s = (r, t)"
      by (simp add: cs min_def h(2)[symmetric])
    then show ?thesis
    proof (cases rule: bindM_E)
      case (Ret a u)
      from release_chunk_effect[OF ten Ret(1)] obtain evs where
        evs: "chunk_effect cfg env i (i + h - 1) s (Ret a) u evs" ..
      note eff = chunk_effect_sent[OF evs]
      show ?thesis
      proof (cases a)
        case (Some b')
        with Ret(2) eff(1,2) eff(4)[of b'] True show ?thesis
          by (intro exI[of _ evs] pass_effect_stop) (auto simp: returnM_apply)
      next
        case None
        with eff(3) have one: "sent evs = [(eg_nonce s, release_args i (i + h - 1))]"
          "BlockingSleep 30 \<notin> set evs" "eg_nonce u = eg_nonce s + 1"
          by simp_all
        let ?evs = "evs @ [AsyncSleep sleep_secs]"
        obtain x v where sl: "asyncSleepM env sleep_secs u = (x, v)"
          by (cases "asyncSleepM env sleep_secs u")
        then obtain w where v: "v = u\<lparr>ext := w, trace := trace u @ [AsyncSleep sleep_secs]\<rparr>"
          by (rule asyncSleepM_cases)
        from Ret(2) None have "thenM (asyncSleepM env sleep_secs) ?rest u = (r, t)" by simp
        then show ?thesis
        proof (cases rule: thenM_E)
          case (Ret y v')
          with sl have "?rest v = (r, t)" by simp
          from Chunk.IH[OF this] True obtain evs' where
            "pass_effect h (i + h) stop v t (pass_marker stop r) evs'" by auto
          with one v eff(1) True have "pass_effect h i stop s t (pass_marker stop r) (?evs @ evs')"
            by (intro pass_effect_step) auto
          then show ?thesis ..
        qed (use sl v one eff(1) True in
              \<open>auto intro!: exI[of _ ?evs] pass_effect_stop\<close>)
      qed
    next
      case (Raise ex)
      from release_chunk_effect[OF ten Raise(1)] obtain evs where
        "chunk_effect cfg env i (i + h - 1) s (Raise ex) t evs" ..
      from chunk_effect_sent(1,2)[OF this] Raise(2) True show ?thesis
        by (intro exI[of _ evs] pass_effect_stop) auto
    next
      case Pending
      from release_chunk_effect[OF ten Pending(1)] obtain evs where
        "chunk_effect cfg env i (i + h - 1) s Pending t evs" ..
      from chunk_effect_sent(1,2)[OF this] Pending(2) True show ?thesis
        by (intro exI[of _ evs] pass_effect_stop) auto
    qed
  qed
qed

section \<open>One round\<close>

text \<open>Events that are no release and no pause.\<close>

definition idle :: "event list \<Rightarrow> bool" where
  "idle evs \<longleftrightarrow> submitted evs = [] \<and> BlockingSleep 30 \<notin> set evs"

lemma idle_simps [simp]:
  "idle []" "idle [AsyncSleep n]" "idle (evs @ evs') \<longleftrightarrow> idle evs \<and> idle evs'"
  by (auto simp: idle_def)

lemma idle_polls: "list_all is_rpc_post evs \<Longrightarrow> idle evs"
  by (auto simp: idle_def list_all_iff submitted_eq_Nil)

definition round_effect ::
  "int \<Rightarrow> int \<Rightarrow> (int \<Rightarrow> nat \<Rightarrow> bool) \<Rightarrow> 'w epoch_generator \<Rightarrow> int res \<Rightarrow> 'w epoch_generator \<Rightarrow>
     event list \<Rightarrow> nat \<Rightarrow> bool" where
  "round_effect h b post s r t evs k \<longleftrightarrow>
     trace t = trace s @ evs \<and> sent evs = epochs_from h b (eg_nonce s) k \<and>
     (\<forall>b'. r = Ret b' \<and> BlockingSleep 30 \<notin> set evs \<longrightarrow>
        b' = b + int k * h \<and> eg_nonce t = eg_nonce s + int k \<and> post b' k)"

lemma round_effect_idle:
  assumes "trace t = trace s @ evs" and "idle evs"
    and "\<And>b'. r = Ret b' \<Longrightarrow> b' = b \<and> eg_nonce t = eg_nonce s \<and> post b 0"
  shows "round_effect h b post s r t evs 0"
  using assms by (auto simp: round_effect_def idle_def sent_Nil epochs_from_simps)

lemma sleep_then_return:
  assumes "thenM (asyncSleepM env n) (returnM x) s = (r, t)"
  obtains w where "t = s\<lparr>ext := w, trace := trace s @ [AsyncSleep n]\<rparr>"
    and "\<And>y. r = Ret y \<Longrightarrow> y = x"
proof -
  obtain r1 u where sl: "asyncSleepM env n s = (r1, u)" by (cases "asyncSleepM env n s")
  then obtain w where "u = s\<lparr>ext := w, trace := trace s @ [AsyncSleep n]\<rparr>"
    by (rule asyncSleepM_cases)
  with sl assms show thesis
    by (cases r1) (auto simp: M_simps intro: that)
qed

lemma eg_round_effect:
  assumes h: "0 < height_of cfg" and ten: "tenacity (retry_fetch env)" and b: "b \<noteq> 0"
    and rpc: "rpc_eth_blocknumber fuel cfg env (rpc_nodes_of cfg) s = (Ret head, u)"
    and run: "eg_round fuel cfg env b s = (r, t)"
  shows "\<exists>evs k. round_effect (height_of cfg) b
           (\<lambda>b' k. head - offset_of cfg - b' + 1 < height_of cfg) s r t evs k \<and>
         (0 < k \<longrightarrow> b + int k * height_of cfg - 1 \<le> head - offset_of cfg)"
proof -
  let ?h = "height_of cfg" and ?stop = "head - offset_of cfg"
  from rpc obtain w evs0 q where
    u: "u = s\<lparr>ext := w, trace := trace s @ evs0, querystring := q\<rparr>" "list_all is_rpc_post evs0"
    by (rule blocknumber_effect)
  note idle0 = idle_polls[OF u(2)]
  show ?thesis
  proof (cases "?stop - b + 1 \<ge> ?h")
    case False
    with run rpc b have "thenM (asyncSleepM env ((?h - (?stop - b + 1)) * block_time_of cfg)) (returnM b) u = (r, t)"
      by (simp add: eg_round_def try_elseM_def Let_def)
    then obtain w' where "t = u\<lparr>ext := w', trace := trace u @ [AsyncSleep ((?h - (?stop - b + 1)) * block_time_of cfg)]\<rparr>"
      "\<And>y. r = Ret y \<Longrightarrow> y = b"
      by (rule sleep_then_return) blast
    with u idle0 False have "round_effect ?h b (\<lambda>b' k. ?stop - b' + 1 < ?h) s r t
        (evs0 @ [AsyncSleep ((?h - (?stop - b + 1)) * block_time_of cfg)]) 0"
      by (intro round_effect_idle) auto
    then show ?thesis by blast
  next
    case True
    let ?pass = "release_chunks cfg env (block_time_of cfg div 2) b (chunks_from ?h b ?stop 0)"
    obtain r1 v where pass: "?pass u = (r1, v)" by (cases "?pass u")
    from True h have "b \<le> ?stop + 1" by simp
    from release_chunks_effect[OF h refl ten pass this] obtain evs k where
      eff: "trace v = trace u @ evs" "sent evs = epochs_from ?h b (eg_nonce u) k"
        "0 < k \<longrightarrow> b + int k * ?h - 1 \<le> ?stop"
        "BlockingSleep 30 \<notin> set evs \<Longrightarrow> pass_marker ?stop r1 \<noteq> None \<Longrightarrow>
           pass_marker ?stop r1 = Some (b + int k * ?h) \<and> eg_nonce v = eg_nonce u + int k \<and>
           ?stop - (b + int k * ?h) + 1 < ?h"
      unfolding pass_effect_def by blast
    from run rpc b True h have "bindM ?pass (\<lambda>(b', completed).
        returnM (if completed then ?stop + 1 else b')) u = (r, t)"
      by (simp add: eg_round_def try_elseM_def Let_def chunks_pos liftM_Inr bindM_Ret)
    with pass have t: "t = v" and m: "\<And>b'. r = Ret b' \<Longrightarrow> pass_marker ?stop r1 = Some b'"
      by (cases r1; auto simp: M_simps split: prod.splits)+
    have "round_effect ?h b (\<lambda>b' k. ?stop - b' + 1 < ?h) s r t (evs0 @ evs) k"
      unfolding round_effect_def using u idle0 eff m t
      by (auto simp: idle_def sent_Nil)
    with eff(3) show ?thesis by blast
  qed
qed

text \<open>A round in which the head could not be read releases nothing.\<close>

lemma eg_round_no_head:
  assumes rpc: "rpc_eth_blocknumber fuel cfg env (rpc_nodes_of cfg) s = (x, u)" "\<And>head. x \<noteq> Ret head"
    and run: "eg_round fuel cfg env b s = (r, t)"
  shows "\<exists>evs. round_effect h b (\<lambda>_ _. True) s r t evs 0"
proof -
  from rpc(1) obtain w evs0 q where
    u: "u = s\<lparr>ext := w, trace := trace s @ evs0, querystring := q\<rparr>" "list_all is_rpc_post evs0"
    by (rule blocknumber_effect)
  note idle0 = idle_polls[OF u(2)]
  from run rpc consider "t = u" "\<And>b'. r \<noteq> Ret b'"
    | "thenM (asyncSleepM env (block_time_of cfg)) (returnM b) u = (r, t)"
    by (cases x) (auto simp: eg_round_def try_elseM_def split: if_splits)
  then show ?thesis
  proof cases
    case 1
    with u idle0 show ?thesis
      by (intro exI[of _ evs0] round_effect_idle) auto
  next
    case 2
    then obtain w' where "t = u\<lparr>ext := w', trace := trace u @ [AsyncSleep (block_time_of cfg)]\<rparr>"
      "\<And>y. r = Ret y \<Longrightarrow> y = b"
      by (rule sleep_then_return) blast
    with u idle0 show ?thesis
      by (intro exI[of _ "evs0 @ [AsyncSleep (block_time_of cfg)]"] round_effect_idle) auto
  qed
qed

lemma eg_round_consecutive:
  assumes "0 < height_of cfg" and "tenacity (retry_fetch env)" and "b \<noteq> 0"
    and run: "eg_round fuel cfg env b s = (r, t)"
  shows "\<exists>evs k. round_effect (height_of cfg) b (\<lambda>_ _. True) s r t evs k"
proof -
  obtain x u where rpc: "rpc_eth_blocknumber fuel cfg env (rpc_nodes_of cfg) s = (x, u)"
    by (cases "rpc_eth_blocknumber fuel cfg env (rpc_nodes_of cfg) s")
  show ?thesis
  proof (cases x)
    case (Ret head)
    with eg_round_effect[OF assms(1-3) _ run] rpc show ?thesis
      by (fastforce simp: round_effect_def)
  qed (use eg_round_no_head[OF rpc _ run] in blast)+
qed

end
