(* ===== verification/Epoch_Props.thy ===== *)
theory Epoch_Props
  imports Epoch_Release
begin

text \<open>
  The properties of the epoch generator: what a whole run may submit, the sequence of epochs
  and nonces of the release loop and of a run, and the recovery from a failed release.
\<close>

section \<open>An example environment\<close>

text \<open>Every node answers \<open>head\<close>; all else is as in \<open>basic_env\<close>.\<close>

definition answering :: "int \<Rightarrow> 'w env" where
  "answering head = basic_env\<lparr>requests_post_json :=
     (\<lambda>u q n w. (Inr (JObj [(''result'', JStr (hex_str head))]), w))\<rparr>"

definition chain_env :: "'w env \<Rightarrow> 'w eg_env" where
  "chain_env env = env.extend env (eg_env.fields plain_retry plain_retry)"

lemma chain_env_retry [simp]:
  "tenacity (retry_fetch (chain_env env))" "tenacity (retry_release (chain_env env))"
  by (simp_all add: chain_env_def env.defs eg_env.defs plain_retry_tenacity)

abbreviation start_state :: "unit epoch_generator" where
  "start_state \<equiv> (epoch_generator_init example_settings ())
     \<lparr>eg_nonce := 7, eg_client := True, querystring := construct_rpc_init 1\<rparr>"

section \<open>Every transaction releases one epoch\<close>

definition releases_epoch :: "settings \<Rightarrow> txn \<Rightarrow> bool" where
  "releases_epoch cfg tx \<longleftrightarrow>
     tx_from tx = validator_epoch_address cfg \<and> tx_function tx = ''releaseEpoch'' \<and>
     tx_chain_id tx = anchor_chain_id (st_anchor_chain cfg) \<and>
     (\<exists>b. tx_args tx = release_args b (b + height_of cfg - 1))"

abbreviation only_epochs :: "settings \<Rightarrow> event \<Rightarrow> bool" where
  "only_epochs cfg ev \<equiv> (\<forall>tx. ev = TxSubmit tx \<longrightarrow> releases_epoch cfg tx)"

lemma grows_write_release [growing]:
  assumes "e = b + height_of cfg - 1"
  shows "keepsM (grows (only_epochs cfg)) (write_release cfg env n g (release_args b e))"
    and "keepsM (grows (only_epochs cfg)) (write_release_receipt cfg env n g (release_args b e))"
  using assms
  by (intro wt.write_grows wr.write_grows, auto simp: carries_def releases_epoch_def)+

lemma grows_fetch [growing]:
  "tenacity (retry_fetch env) \<Longrightarrow> keepsM (grows P) (fetch_epoch_from_contract cfg env)"
  by (rule grows_of_logs) (rule logs_fetch_epoch_from_contract)

lemma grows_recover [growing]:
  "tenacity (retry_fetch env) \<Longrightarrow> P (BlockingSleep 30) \<Longrightarrow> keepsM (grows P) (recover cfg env b)"
  unfolding recover_def by (intro growing) simp_all

lemma grows_eg_notify [growing]:
  "(\<And>url. P (Notify url message)) \<Longrightarrow> keepsM (grows P) (eg_notify cfg message)"
  by (rule grows_of_logs) (rule logs_eg_notify)

lemma grows_release_chunk [growing]:
  assumes "tenacity (retry_fetch env)" and "e = b + height_of cfg - 1"
  shows "keepsM (grows (only_epochs cfg)) (release_chunk cfg env begin_block b e)"
  unfolding release_chunk_def release_chunk_body_def release_chunk_handler_def
  by (intro growing assms) simp_all

lemma grows_release_chunks:
  assumes "tenacity (retry_fetch env)" and "\<forall>(b, e, i) \<in> set cs. e - b + 1 \<le> height_of cfg"
  shows "keepsM (grows (only_epochs cfg)) (release_chunks cfg env secs begin_block cs)"
  using assms(2)
proof (induction cs)
  case Nil
  show ?case unfolding release_chunks.simps by (intro growing)
next
  case (Cons c cs)
  obtain b e i where c: "c = (b, e, i)" by (cases c)
  show ?case
  proof (cases "e - b + 1 < height_of cfg")
    case True
    then show ?thesis unfolding c release_chunks.simps by (simp, intro growing)
  next
    case False
    with Cons.prems c have "e = b + height_of cfg - 1" by auto
    moreover have "keepsM (grows (only_epochs cfg)) (release_chunks cfg env secs begin_block cs)"
      using Cons by simp
    ultimately show ?thesis
      unfolding c release_chunks.simps by (intro growing assms(1)) simp_all
  qed
qed

lemma bindM_liftM: "bindM (liftM x) f = (case x of Inl e \<Rightarrow> raiseM e | Inr a \<Rightarrow> f a)"
  by (auto simp: fun_eq_iff M_simps split: sum.split)

lemma grows_eg_round [growing]:
  assumes "tenacity (retry_fetch env)" and h: "0 < height_of cfg"
  shows "keepsM (grows (only_epochs cfg)) (eg_round fuel cfg env b)"
proof -
  have cs: "keepsM (grows (only_epochs cfg)) (bindM (liftM (chunks b stop (height_of cfg))) (\<lambda>epochs.
      bindM (release_chunks cfg env secs b epochs) (\<lambda>(b', completed).
      returnM (if completed then stop + 1 else b'))))" for stop secs
    unfolding bindM_liftM chunks_pos[OF h] sum.case
    by (intro grows.keeps_bind grows_release_chunks assms(1) growing)
       (auto dest: chunks_from_size(1)[OF h])
  show ?thesis
    unfolding eg_round_def Let_def by (intro cs growing) auto
qed

lemma grows_eg_loop [growing]:
  assumes "tenacity (retry_fetch env)" and "0 < height_of cfg"
  shows "keepsM (grows (only_epochs cfg)) (eg_loop fuel rounds cfg env b)"
  unfolding eg_loop_def by (intro growing assms)

lemma grows_release_epoch_attempt [growing]:
  assumes "e = b + height_of cfg - 1"
  shows "keepsM (grows (only_epochs cfg)) (release_epoch_attempt cfg env b e)"
  unfolding release_epoch_attempt_def release_epoch_write_def release_epoch_handler_def reset_nonce_def
  by (intro growing assms) simp_all

lemma grows_release_epoch_with_retry [growing]:
  assumes "tenacity (retry_release env)" and "e = b + height_of cfg - 1"
  shows "keepsM (grows (only_epochs cfg)) (release_epoch_with_retry cfg env b e)"
  unfolding release_epoch_with_retry_def
  by (rule grows.keeps_retry[OF assms(1)]; intro growing assms(2))

lemma grows_wait_and_release [growing]:
  assumes "tenacity (retry_release env)"
  shows "keepsM (grows (only_epochs cfg)) (wait_and_release_first_epoch fuel cfg env)"
  unfolding wait_and_release_first_epoch_def release_first_epoch_def Let_def
  by (intro growing assms) auto

text \<open>
  C3: everything a run of the epoch generator submits, from its start and for any number of
  rounds, whatever the nodes, the chain and the clock do, is a \<^verbatim>\<open>releaseEpoch\<close> from the
  validator's account whose range has exactly the configured height.
\<close>

theorem eg_run_releases_epochs:
  assumes "0 < height_of cfg" and "tenacity (retry_fetch env)" and "tenacity (retry_release env)"
    and "eg_run fuel rounds cfg env s = (r, t)"
  shows "\<exists>evs. trace t = trace s @ evs \<and> (\<forall>tx \<in> set (submitted evs). releases_epoch cfg tx)"
proof -
  have "keepsM (grows (only_epochs cfg)) (eg_run fuel rounds cfg env)"
    unfolding eg_run_def eg_setup_def init_httpx_client_def Let_def
    by (intro growing assms) simp_all
  from this assms(4) obtain evs where "trace t = trace s @ evs" "list_all (only_epochs cfg) evs"
    by (rule growsE)
  then show ?thesis by (auto simp: in_submitted list_all_iff)
qed

theorem eg_run_releases_epochs_witness:
  "\<exists>evs. trace (snd (eg_run 9 3 example_settings (chain_env (answering 130))
            (epoch_generator_init example_settings ()))) = [] @ evs \<and>
         (\<forall>tx \<in> set (submitted evs). releases_epoch example_settings tx)"
proof -
  let ?s = "epoch_generator_init example_settings ()"
  have "0 < height_of example_settings" by (simp add: example_settings_def)
  from eg_run_releases_epochs[OF this chain_env_retry, of 9 3 "answering 130" ?s] show ?thesis
    by (cases "eg_run 9 3 example_settings (chain_env (answering 130)) ?s")
       (auto simp: epoch_generator_init_def)
qed

section \<open>The sequence of epochs\<close>

text \<open>
  C12: one round of the release loop that read the head of the source chain releases
  consecutive epochs of the configured height, in order, starting at the begin marker, with
  consecutive nonces, and none past the head less the offset. If no failure made it pause, the
  marker it leaves is the block after the last epoch released, the nonce has advanced once per
  epoch, and fewer blocks than an epoch are left over.
\<close>

theorem eg_round_sequence:
  assumes "0 < height_of cfg" and "tenacity (retry_fetch env)" and "b \<noteq> 0"
    and "rpc_eth_blocknumber fuel cfg env (rpc_nodes_of cfg) s = (Ret head, u)"
    and "eg_round fuel cfg env b s = (Ret b', t)"
  shows "\<exists>evs k. trace t = trace s @ evs \<and>
           sent evs = epochs_from (height_of cfg) b (eg_nonce s) k \<and>
           (0 < k \<longrightarrow> b + int k * height_of cfg - 1 \<le> head - offset_of cfg) \<and>
           (BlockingSleep 30 \<notin> set evs \<longrightarrow>
              b' = b + int k * height_of cfg \<and> eg_nonce t = eg_nonce s + int k \<and>
              head - offset_of cfg - b' + 1 < height_of cfg)"
  using eg_round_effect[OF assms] by (auto simp: round_effect_def)

section \<open>The whole loop\<close>

text \<open>A loop of rounds each of which releases consecutive epochs from its marker.\<close>

lemma eg_loop_consecutive:
  assumes h: "0 < height_of cfg" and ten: "tenacity (retry_fetch env)" and "0 < b"
    and "eg_loop fuel rounds cfg env b s = (r, t)"
  shows "\<exists>evs. trace t = trace s @ evs \<and>
           (BlockingSleep 30 \<notin> set evs \<longrightarrow>
             (\<exists>k. sent evs = epochs_from (height_of cfg) b (eg_nonce s) k))"
  using assms(3,4) unfolding eg_loop_def
proof (induction rounds arbitrary: b s)
  case 0
  then show ?case
    by (intro exI[of _ "[]"]) (auto simp: M_simps epochs_from_simps intro: exI[of _ "0 :: nat"])
next
  case (Suc rounds)
  let ?loop = "loopM rounds (\<lambda>b. bindM (eg_round fuel cfg env b) (\<lambda>b'. returnM (Inl b')))"
  obtain r1 u where rd: "eg_round fuel cfg env b s = (r1, u)"
    by (cases "eg_round fuel cfg env b s")
  with eg_round_consecutive[OF h ten _ rd] Suc.prems(1) obtain evs k where
    eff: "round_effect (height_of cfg) b (\<lambda>_ _. True) s r1 u evs k" by auto
  then have evs: "trace u = trace s @ evs" "sent evs = epochs_from (height_of cfg) b (eg_nonce s) k"
    by (auto simp: round_effect_def)
  show ?case
  proof (cases r1)
    case (Ret b')
    with rd have "bindM (eg_round fuel cfg env b) (\<lambda>b'. returnM (Inl b')) s = (Ret (Inl b'), u)"
      by (simp add: bindM_Ret returnM_def)
    from loopM_Inl[of "\<lambda>b. bindM (eg_round fuel cfg env b) (\<lambda>b'. returnM (Inl b'))", OF this]
    have rest: "?loop b' u = (r, t)" using Suc.prems(2) by metis
    show ?thesis
    proof (cases "BlockingSleep 30 \<in> set evs")
      case True
      have "keepsM (grows (only_epochs cfg)) (?loop b')"
        by (intro growing h ten)
      from this rest obtain evs' where "trace t = trace u @ evs'" by (rule growsE)
      with evs True show ?thesis by (intro exI[of _ "evs @ evs'"]) simp
    next
      case False
      with eff Ret have b': "b' = b + int k * height_of cfg" "eg_nonce u = eg_nonce s + int k"
        by (auto simp: round_effect_def)
      with Suc.prems(1) h have "0 < b'" by (simp add: add_pos_nonneg)
      from Suc.IH[OF this rest] obtain evs' where "trace t = trace u @ evs'"
        "BlockingSleep 30 \<notin> set evs' \<longrightarrow>
           (\<exists>k. sent evs' = epochs_from (height_of cfg) b' (eg_nonce u) k)" by blast
      with evs b' show ?thesis
        by (intro exI[of _ "evs @ evs'"]) (auto simp: epochs_from_append)
    qed
  qed (use Suc.prems rd evs in \<open>auto simp: bindM_def intro!: exI[of _ evs]\<close>)
qed

section \<open>The run from its start\<close>

text \<open>A call that answers, of the setup and of the retried reading of the contract.\<close>

lemma eg_setup_Ret:
  assumes "get_transaction_count env (validator_epoch_address cfg) (ext s) = (Inr n, w)"
  shows "eg_setup cfg env s = (Ret (), s\<lparr>ext := w, eg_nonce := n, eg_client := True\<rparr>)"
  using assms by (cases s) (auto simp: eg_setup_def init_httpx_client_def M_defs)

lemma fetch_epoch_Ret:
  assumes "tenacity (retry_fetch env)" and "current_epoch_call env (ext s) = (Inr [b0, e0, i0], w)"
  shows "fetch_epoch_from_contract cfg env s = (Ret (if e0 \<noteq> 0 then e0 + 1 else - 1), s\<lparr>ext := w\<rparr>)"
  unfolding fetch_epoch_from_contract_def
  by (rule tenacity_Ret[OF assms(1)])
     (simp add: fetch_epoch_attempt_def M_defs assms(2) py_index_def)

lemma signals_installed:
  "forM [''SIGINT'', ''SIGTERM'', ''SIGQUIT''] (\<lambda>n. emitM (SignalInstall n)) s =
     (Ret (), s\<lparr>trace := trace s @ map SignalInstall [''SIGINT'', ''SIGTERM'', ''SIGQUIT'']\<rparr>)"
  by (simp add: M_defs)

text \<open>A run that finds the epoch \<open>[b0, e0]\<close> in the contract goes on from the block after it.\<close>

lemma eg_run_starts:
  assumes "tenacity (retry_fetch env)"
    and "get_transaction_count env (validator_epoch_address cfg) (ext s) = (Inr n, w1)"
    and "current_epoch_call env w1 = (Inr [b0, e0, i0], w2)" and "0 < e0"
  shows "eg_run fuel rounds cfg env s = eg_loop fuel rounds cfg env (e0 + 1)
     (s\<lparr>eg_nonce := n, eg_client := True, ext := w2,
        trace := trace s @ map SignalInstall [''SIGINT'', ''SIGTERM'', ''SIGQUIT''],
        querystring := construct_rpc_init (source_chain_id (st_chain cfg))\<rparr>)"
proof -
  let ?s1 = "s\<lparr>ext := w1, eg_nonce := n, eg_client := True\<rparr>"
  have fetch: "fetch_epoch_from_contract cfg env ?s1 = (Ret (e0 + 1), ?s1\<lparr>ext := w2\<rparr>)"
    using fetch_epoch_Ret[OF assms(1), of ?s1 b0 e0 i0 w2 cfg] assms(3,4) by simp
  note started = eg_setup_Ret[of env cfg s, OF assms(2)]
  show ?thesis
    using assms(4)
    by (simp add: eg_run_def Let_def thenM_Ret bindM_Ret started fetch signals_installed modifyM_apply
        del: forM.simps list.map)
qed

text \<open>
  C1: a run that finds an epoch \<open>[b0, e0]\<close> in the contract and \<open>n\<close> transactions of the
  validator on the anchor chain releases, for as long as no failure makes it pause, epoch after
  epoch of the configured height from block \<open>e0 + 1\<close> on, with nonces from \<open>n\<close> on: no block
  is left out or released twice, and no nonce is skipped or reused.
\<close>

theorem eg_run_resumes:
  assumes "0 < height_of cfg" and "tenacity (retry_fetch env)"
    and "get_transaction_count env (validator_epoch_address cfg) (ext s) = (Inr n, w1)"
    and "current_epoch_call env w1 = (Inr [b0, e0, i0], w2)" and "0 < e0"
    and "eg_run fuel rounds cfg env s = (r, t)"
  shows "\<exists>evs. trace t = trace s @ evs \<and>
           (BlockingSleep 30 \<notin> set evs \<longrightarrow>
             (\<exists>k. sent evs = epochs_from (height_of cfg) (e0 + 1) n k))"
proof -
  let ?sig = "map SignalInstall [''SIGINT'', ''SIGTERM'', ''SIGQUIT'']"
  let ?s = "s\<lparr>eg_nonce := n, eg_client := True, ext := w2, trace := trace s @ ?sig,
     querystring := construct_rpc_init (source_chain_id (st_chain cfg))\<rparr>"
  from assms(6) have "eg_loop fuel rounds cfg env (e0 + 1) ?s = (r, t)"
    by (simp only: eg_run_starts[OF assms(2-5)])
  from eg_loop_consecutive[OF assms(1,2) _ this] assms(5) obtain evs where
    "trace t = trace ?s @ evs" "BlockingSleep 30 \<notin> set evs \<longrightarrow>
       (\<exists>k. sent evs = epochs_from (height_of cfg) (e0 + 1) (eg_nonce ?s) k)" by auto
  then show ?thesis
    by (intro exI[of _ "?sig @ evs"]) auto
qed

definition resuming :: "unit eg_env" where
  "resuming = chain_env ((answering 130)\<lparr>current_epoch_call := (\<lambda>w. (Inr [91, 100, 10], w))\<rparr>)"

theorem eg_run_resumes_witness:
  "\<exists>evs. trace (snd (eg_run 9 2 example_settings resuming (epoch_generator_init example_settings ())))
          = [] @ evs \<and>
         (BlockingSleep 30 \<notin> set evs \<longrightarrow>
            (\<exists>k. sent evs = epochs_from 10 101 7 k))"
proof -
  let ?s = "epoch_generator_init example_settings ()"
  have "tenacity (retry_fetch resuming)" unfolding resuming_def by simp
  then show ?thesis
    using eg_run_resumes[of example_settings resuming ?s 7 "()" 91 100 10 "()" 9 2]
    by (cases "eg_run 9 2 example_settings resuming ?s")
      (auto simp: example_settings_def epoch_generator_init_def resuming_def chain_env_def
        answering_def basic_env_def env.defs)
qed

section \<open>Rounds on a healthy chain\<close>

lemma release_chunk_healthy:
  assumes "healthy env"
  shows "\<exists>t. release_chunk cfg env begin_block b e s = (Ret None, t)"
proof -
  have "\<exists>t. release_chunk_body cfg env begin_block b e s = (Ret None, t)"
  proof (cases "release_counter s mod check_receipt_every s = 0 \<or> force_tx s")
    case True
    from write_transaction_with_receipt_healthy[OF assms] obtain h rc u where
      "write_release_receipt cfg env (eg_nonce s) (current_gas s) (release_args b e)
         (s\<lparr>release_counter := release_counter s + 1\<rparr>) = (Ret (h, rc), u)"
      "json_item ''status'' rc = Inr (JInt 1)" by blast
    with True show ?thesis
      by (simp add: release_chunk_body_def M_simps)
  next
    case False
    from write_transaction_healthy[OF assms] obtain h u where
      "write_release cfg env (eg_nonce s) (eg_gas s) (release_args b e)
         (s\<lparr>release_counter := release_counter s + 1\<rparr>) = (Ret h, u)" by blast
    with False show ?thesis
      by (simp add: release_chunk_body_def M_simps)
  qed
  then show ?thesis by (auto simp: release_chunk_def M_simps)
qed

text \<open>A pass over a healthy chain ends without a pause.\<close>

lemma release_chunks_healthy:
  assumes "healthy env" and "tenacity (retry_fetch env)"
  shows "\<exists>x t evs. release_chunks cfg env secs begin_block cs s = (Ret x, t) \<and>
           trace t = trace s @ evs \<and> BlockingSleep 30 \<notin> set evs"
proof (induction cs arbitrary: s)
  case Nil
  show ?case by (intro exI[of _ "(begin_block, True)"] exI[of _ s] exI[of _ "[]"]) (simp add: returnM_def)
next
  case (Cons c cs)
  obtain b e i where c: "c = (b, e, i)" by (cases c)
  show ?case
  proof (cases "e - b + 1 < height_of cfg")
    case True
    then show ?thesis
      by (intro exI[of _ "(b, False)"] exI[of _ s] exI[of _ "[]"]) (simp add: c returnM_def)
  next
    case False
    from release_chunk_healthy[OF assms(1)] obtain u where
      u: "release_chunk cfg env begin_block b e s = (Ret None, u)" by blast
    from release_chunk_effect[OF assms(2) u] obtain evs where
      "chunk_effect cfg env b e s (Ret None) u evs" ..
    note evs = chunk_effect_sent(1,3)[OF this]
    from assms(1) obtain w where "async_sleep env secs (ext u) = (Inr (), w)"
      unfolding healthy_def by blast
    then have sl: "asyncSleepM env secs u = (Ret (), u\<lparr>ext := w, trace := trace u @ [AsyncSleep secs]\<rparr>)"
      by (simp add: asyncSleepM_def callM_Inr)
    from Cons[of "u\<lparr>ext := w, trace := trace u @ [AsyncSleep secs]\<rparr>"] obtain x t evs' where
      "release_chunks cfg env secs begin_block cs (u\<lparr>ext := w, trace := trace u @ [AsyncSleep secs]\<rparr>)
         = (Ret x, t)"
      "trace t = trace u @ AsyncSleep secs # evs'" "BlockingSleep 30 \<notin> set evs'" by auto
    with False u sl evs show ?thesis
      by (auto simp: c M_simps)
  qed
qed

lemma eg_round_goes_on:
  assumes h: "0 < height_of cfg" and ten: "tenacity (retry_fetch env)" and b: "b \<noteq> 0" and "healthy env"
    and "rpc_eth_blocknumber fuel cfg env (rpc_nodes_of cfg) s = (Ret head, u)"
  shows "\<exists>b' t evs. eg_round fuel cfg env b s = (Ret b', t) \<and> trace t = trace s @ evs \<and>
          BlockingSleep 30 \<notin> set evs"
proof -
  let ?h = "height_of cfg" and ?stop = "head - offset_of cfg"
  from assms(5) obtain w evs0 q where
    u: "u = s\<lparr>ext := w, trace := trace s @ evs0, querystring := q\<rparr>" "list_all is_rpc_post evs0"
    by (rule blocknumber_effect)
  note idle0 = idle_polls[OF u(2)]
  show ?thesis
  proof (cases "?stop - b + 1 \<ge> ?h")
    case False
    let ?n = "(?h - ((?stop - b) + 1)) * block_time_of cfg"
    from assms(4) obtain w' where "async_sleep env ?n (ext u) = (Inr (), w')"
      unfolding healthy_def by blast
    then have "asyncSleepM env ?n u = (Ret (), u\<lparr>ext := w', trace := trace u @ [AsyncSleep ?n]\<rparr>)"
      by (simp add: asyncSleepM_def callM_Inr)
    with False b assms(5) u idle0 show ?thesis
      by (simp add: eg_round_def Let_def M_simps idle_def)
  next
    case True
    from release_chunks_healthy[OF assms(4) ten] obtain x t evs where
      "release_chunks cfg env (block_time_of cfg div 2) b (chunks_from ?h b ?stop 0) u = (Ret x, t)"
      "trace t = trace u @ evs" "BlockingSleep 30 \<notin> set evs" by blast
    with True b h assms(5) u idle0 show ?thesis
      by (cases x) (simp add: eg_round_def Let_def M_simps chunks_pos idle_def)
  qed
qed

lemma eg_round_healthy:
  assumes h: "0 < height_of cfg" and ten: "tenacity (retry_fetch env)" and b: "b \<noteq> 0"
    and "b \<le> head - offset_of cfg + 1" and "healthy env"
    and "rpc_eth_blocknumber fuel cfg env (rpc_nodes_of cfg) s = (Ret head, u)"
  shows "\<exists>evs t. let k = (head - offset_of cfg - b + 1) div height_of cfg in
           eg_round fuel cfg env b s = (Ret (b + k * height_of cfg), t) \<and>
           trace t = trace s @ evs \<and> eg_nonce t = eg_nonce s + k \<and>
           sent evs = epochs_from (height_of cfg) b (eg_nonce s) (nat k)"
proof -
  let ?h = "height_of cfg" and ?stop = "head - offset_of cfg"
  from eg_round_goes_on[OF h ten b assms(5,6)]
  obtain b' t evs where r: "eg_round fuel cfg env b s = (Ret b', t)"
    "trace t = trace s @ evs" "BlockingSleep 30 \<notin> set evs" by blast
  from eg_round_effect[OF h ten b assms(6) r(1)] r(2,3) obtain k where
    k: "sent evs = epochs_from ?h b (eg_nonce s) k" "b' = b + int k * ?h"
      "eg_nonce t = eg_nonce s + int k" "?stop - b' + 1 < ?h"
      "0 < k \<Longrightarrow> b + int k * ?h - 1 \<le> ?stop"
    by (auto simp: round_effect_def)
  have "int k = (?stop - b + 1) div ?h"
  proof -
    have "int k * ?h \<le> ?stop - b + 1"
      using k(5) assms(4) by (cases "k = 0") auto
    moreover have "?stop - b + 1 < (int k + 1) * ?h"
      using k(2,4) by (simp add: algebra_simps)
    ultimately show ?thesis
      using h by (intro int_div_pos_eq[symmetric, where r = "?stop - b + 1 - int k * ?h"])
        (auto simp: algebra_simps)
  qed
  then have nk: "nat ((?stop - b + 1) div ?h) = k" by (metis nat_int)
  with k(1) have "sent evs = epochs_from ?h b (eg_nonce s) (nat ((?stop - b + 1) div ?h))" by simp
  with r k(2,3) \<open>int k = _\<close> show ?thesis
    unfolding Let_def by (intro exI[of _ evs] exI[of _ t]) simp
qed

text \<open>
  C2: with a node that answers the head and a healthy anchor chain, a round releases all the
  full epochs between the begin marker and the head less the offset, exactly
  \<open>(head - offset - b + 1) div height\<close> of them, and moves the marker past them.
\<close>

theorem eg_round_releases_all:
  assumes "0 < height_of cfg" and "tenacity (retry_fetch env)" and "b \<noteq> 0"
    and "b \<le> head - offset_of cfg + 1" and "healthy env"
    and "rpc_eth_blocknumber fuel cfg env (rpc_nodes_of cfg) s = (Ret head, u)"
  shows "\<exists>evs t. let k = (head - offset_of cfg - b + 1) div height_of cfg in
           eg_round fuel cfg env b s = (Ret (b + k * height_of cfg), t) \<and>
           trace t = trace s @ evs \<and> eg_nonce t = eg_nonce s + k \<and>
           sent evs = epochs_from (height_of cfg) b (eg_nonce s) (nat k)"
  using assms by (rule eg_round_healthy)

lemma healthy_answering: "healthy (chain_env (answering head))"
  by (simp add: healthy_def accepts_def chain_env_def answering_def basic_env_def env.defs)

text \<open>A node that answers with a result at once gives the head.\<close>

lemma example_head:
  "\<exists>u. rpc_eth_blocknumber 9 example_settings (chain_env (answering 130)) (rpc_nodes_of example_settings)
     start_state = (Ret 130, u)"
  using first_node_answers[of "rpc_nodes_of example_settings" "''https://rpc-url''" "[]" 9
      "chain_env (answering 130)" example_settings "[(''result'', JStr (hex_str 130))]" id 130 start_state]
  by (auto simp: rpc_nodes_of_def example_settings_def example_rpc_def chain_env_def answering_def
      basic_env_def env.defs)

lemma example_round:
  "\<exists>t. eg_round 9 example_settings (chain_env (answering 130)) 101 start_state = (Ret 121, t)"
proof -
  from example_head obtain u where
    u: "rpc_eth_blocknumber 9 example_settings (chain_env (answering 130)) (rpc_nodes_of example_settings)
       start_state = (Ret 130, u)" ..
  from eg_round_healthy[of example_settings "chain_env (answering 130)" 101 130 9 start_state u,
      OF _ chain_env_retry(1) _ _ healthy_answering u]
  show ?thesis by (auto simp: example_settings_def Let_def)
qed

theorem eg_round_releases_all_witness:
  "\<exists>evs t. eg_round 9 example_settings (chain_env (answering 130)) 101 start_state = (Ret 121, t) \<and>
           trace t = trace start_state @ evs \<and> eg_nonce t = 9 \<and>
           sent evs = epochs_from 10 101 7 2"
proof -
  from example_head obtain u where
    u: "rpc_eth_blocknumber 9 example_settings (chain_env (answering 130)) (rpc_nodes_of example_settings)
       start_state = (Ret 130, u)" ..
  from eg_round_releases_all[of example_settings "chain_env (answering 130)" 101 130 9 start_state u,
      OF _ chain_env_retry(1) _ _ healthy_answering u]
  show ?thesis
    by (simp add: example_settings_def epoch_generator_init_def Let_def)
qed

theorem eg_round_sequence_witness:
  "\<exists>t evs k. eg_round 9 example_settings (chain_env (answering 130)) 101 start_state = (Ret 121, t) \<and>
           trace t = trace start_state @ evs \<and>
           sent evs = epochs_from 10 101 7 k \<and> (0 < k \<longrightarrow> 101 + int k * 10 - 1 \<le> 130 - 2) \<and>
           (BlockingSleep 30 \<notin> set evs \<longrightarrow>
              121 = 101 + int k * 10 \<and> eg_nonce t = 7 + int k \<and> 130 - 2 - 121 + 1 < (10 :: int))"
proof -
  from example_head obtain u where
    u: "rpc_eth_blocknumber 9 example_settings (chain_env (answering 130)) (rpc_nodes_of example_settings)
       start_state = (Ret 130, u)" ..
  from example_round obtain t where
    r: "eg_round 9 example_settings (chain_env (answering 130)) 101 start_state = (Ret 121, t)" ..
  have n: "eg_nonce start_state = 7" by simp
  note seq = eg_round_sequence[OF _ chain_env_retry(1) _ u r, unfolded n example_numbers]
  have "(0 :: int) < 10" "(101 :: int) \<noteq> 0" by simp_all
  from this seq r show ?thesis by blast
qed

section \<open>Recovery\<close>

text \<open>
  The state and the marker \<open>b'\<close> after a recovery: the nonce is an answer of the anchor chain
  for the validator's account, and the marker is the block after the end of the contract's
  last epoch as read by the last call, or the old marker \<open>b\<close> where there is no such epoch.
\<close>

definition synced :: "settings \<Rightarrow> 'w eg_env \<Rightarrow> int \<Rightarrow> int \<Rightarrow> 'w epoch_generator \<Rightarrow> bool" where
  "synced cfg env b b' t \<longleftrightarrow>
     (\<exists>w w'. get_transaction_count env (validator_epoch_address cfg) w = (Inr (eg_nonce t), w')) \<and>
     (\<exists>w epoch_data e. current_epoch_call env w = (Inr epoch_data, ext t) \<and>
        py_index epoch_data 1 = Inr e \<and>
        b' = (if e \<noteq> 0 \<and> e + 1 \<noteq> - 1 then e + 1 else b))"

lemma fetch_epoch_result:
  assumes "tenacity (retry_fetch env)" and "fetch_epoch_from_contract cfg env s = (Ret x, t)"
  shows "\<exists>w epoch_data e. current_epoch_call env w = (Inr epoch_data, ext t) \<and>
           py_index epoch_data 1 = Inr e \<and> x = (if e \<noteq> 0 then e + 1 else - 1)"
proof -
  from assms(2) have "retry_fetch env is_Exception (rpc_retry (anchor_rpc (st_anchor_chain cfg)))
      (\<lambda>k e. returnM k) (\<lambda>_. fetch_epoch_attempt env) () s = (Ret x, t)"
    by (simp add: fetch_epoch_from_contract_def)
  from tenacity_Ret_from[where retry = "retry_fetch env" and f = "\<lambda>_. fetch_epoch_attempt env"
      and k = "()" and s = s and a = x and t = t, OF assms(1) this] obtain s' where "fetch_epoch_attempt env s' = (Ret x, t)"
    by auto
  then obtain d u where d: "extM (current_epoch_call env) s' = (Ret d, u)"
    "bindM (liftM (py_index d 1)) (\<lambda>e. if e \<noteq> 0 then returnM (e + 1) else returnM (- 1)) u = (Ret x, t)"
    unfolding fetch_epoch_attempt_def by (rule bindM_RetE)
  from d(2) obtain e where "py_index d 1 = Inr e" "(if e \<noteq> 0 then e + 1 else - 1) = x" "u = t"
    by (rule bindM_RetE) (auto simp: liftM_def returnM_def split: sum.splits if_splits)
  moreover from d(1) have "current_epoch_call env (ext s') = (Inr d, ext u)"
    by (auto simp: extM_def liftM_def split: prod.splits sum.splits)
  ultimately show ?thesis by blast
qed

lemma recover_result:
  assumes ten: "tenacity (retry_fetch env)" and run: "recover cfg env b s = (Ret b', t)"
  shows "synced cfg env b b' t"
proof -
  from run obtain u where
    "bindM (extM (get_transaction_count env (validator_epoch_address cfg))) (\<lambda>n.
      thenM (modifyM (\<lambda>s. s\<lparr>eg_nonce := n\<rparr>))
      (bindM (fetch_epoch_from_contract cfg env) (\<lambda>last_contract_epoch.
       returnM (if last_contract_epoch \<noteq> - 1 then last_contract_epoch else b)))) u = (Ret b', t)"
    unfolding recover_def by (rule thenM_E) auto
  then obtain n w v where
    n: "get_transaction_count env (validator_epoch_address cfg) (ext u) = (Inr n, w)"
    and v: "bindM (fetch_epoch_from_contract cfg env) (\<lambda>last_contract_epoch.
       returnM (if last_contract_epoch \<noteq> - 1 then last_contract_epoch else b)) v = (Ret b', t)"
      "eg_nonce v = n"
    by (auto simp: bindM_def thenM_def modifyM_def extM_def liftM_def split: prod.splits sum.splits)
  from v(1) obtain x where x: "fetch_epoch_from_contract cfg env v = (Ret x, t)"
    "b' = (if x \<noteq> - 1 then x else b)"
    by (rule bindM_E) (auto simp: returnM_def)
  from logs_fetch_epoch_from_contract[OF ten] x(1) obtain w' evs where
    "t = v\<lparr>ext := w', trace := trace v @ evs\<rparr>"
    by (rule logsE)
  with v(2) have "eg_nonce t = n" by simp
  moreover from fetch_epoch_result[OF ten x(1)] obtain w2 d e where
    "current_epoch_call env w2 = (Inr d, ext t)" "py_index d 1 = Inr e"
    "x = (if e \<noteq> 0 then e + 1 else - 1)" by blast
  ultimately show ?thesis
    unfolding synced_def using n x(2)
    by (intro conjI exI[of _ "ext u"] exI[of _ w] exI[of _ w2] exI[of _ d] exI[of _ e]) auto
qed

text \<open>The shared end of the two failure paths, when it leaves the pass.\<close>

lemma fail_tail_result:
  assumes "tenacity (retry_fetch env)"
    and "thenM (eg_notify cfg message) (bindM (recover cfg env b) (\<lambda>b'.
           thenM (modifyM (\<lambda>s. s\<lparr>force_tx := True\<rparr>)) (returnM (Some b')))) s = (Ret (Some b'), t)"
  shows "synced cfg env b b' t \<and> force_tx t"
proof -
  from assms(2) obtain u v where rec: "recover cfg env b u = (Ret b', v)"
    and t: "t = v\<lparr>force_tx := True\<rparr>"
  proof -
    from assms(2) obtain u where "bindM (recover cfg env b) (\<lambda>b'.
        thenM (modifyM (\<lambda>s. s\<lparr>force_tx := True\<rparr>)) (returnM (Some b'))) u = (Ret (Some b'), t)"
      by (rule thenM_RetE)
    then obtain x v where "recover cfg env b u = (Ret x, v)"
      "thenM (modifyM (\<lambda>s. s\<lparr>force_tx := True\<rparr>)) (returnM (Some x)) v = (Ret (Some b'), t)"
      by (rule bindM_RetE)
    then show ?thesis using that by (simp add: M_simps)
  qed
  from recover_result[OF assms(1) rec] show ?thesis
    by (simp add: synced_def t)
qed

lemma chunk_failed_synced:
  assumes ten: "tenacity (retry_fetch env)"
    and run: "release_chunk cfg env begin_block b e s = (Ret (Some b'), t)"
  shows "synced cfg env begin_block b' t \<and> force_tx t"
proof -
  have body: "synced cfg env begin_block b' t \<and> force_tx t"
    if body: "release_chunk_body cfg env begin_block b e s = (Ret (Some b'), t)"
  proof (cases "release_counter s mod check_receipt_every s = 0 \<or> force_tx s")
    case False
    with body have "bindM (write_release cfg env (eg_nonce s) (eg_gas s) (release_args b e))
        (\<lambda>_. thenM (modifyM (\<lambda>s. s\<lparr>eg_nonce := eg_nonce s + 1\<rparr>)) (returnM None))
        (s\<lparr>release_counter := release_counter s + 1\<rparr>) = (Ret (Some b'), t)"
      by (simp add: release_chunk_body_def M_simps)
    then show ?thesis
      by (rule bindM_E) (simp_all add: M_simps)
  next
    case True
    with body have "bindM (write_release_receipt cfg env (eg_nonce s) (current_gas s) (release_args b e))
        (\<lambda>(h, receipt). bindM (liftM (json_item ''status'' receipt)) (\<lambda>status.
        if \<not> json_is_one status
        then
          bindM (liftM (web3_to_json env receipt)) (\<lambda>extra.
          thenM (eg_notify cfg (eg_issue cfg b ''EpochReleaseTxnFailed'' extra))
          (bindM (recover cfg env begin_block) (\<lambda>b'.
           thenM (modifyM (\<lambda>s. s\<lparr>force_tx := True\<rparr>)) (returnM (Some b')))))
        else
          thenM (modifyM (\<lambda>s. s\<lparr>force_tx := False\<rparr>))
          (thenM (modifyM (\<lambda>s. s\<lparr>eg_nonce := eg_nonce s + 1\<rparr>)) (returnM None)))) (s\<lparr>release_counter := release_counter s + 1\<rparr>) = (Ret (Some b'), t)"
      by (simp add: release_chunk_body_def M_simps)
    then obtain hr u where "(\<lambda>(h, receipt). bindM (liftM (json_item ''status'' receipt)) (\<lambda>status.
        if \<not> json_is_one status
        then
          bindM (liftM (web3_to_json env receipt)) (\<lambda>extra.
          thenM (eg_notify cfg (eg_issue cfg b ''EpochReleaseTxnFailed'' extra))
          (bindM (recover cfg env begin_block) (\<lambda>b'.
           thenM (modifyM (\<lambda>s. s\<lparr>force_tx := True\<rparr>)) (returnM (Some b')))))
        else
          thenM (modifyM (\<lambda>s. s\<lparr>force_tx := False\<rparr>))
          (thenM (modifyM (\<lambda>s. s\<lparr>eg_nonce := eg_nonce s + 1\<rparr>)) (returnM None)))) hr u = (Ret (Some b'), t)"
      by (rule bindM_E) auto
    then obtain extra v where "thenM (eg_notify cfg (eg_issue cfg b ''EpochReleaseTxnFailed'' extra))
          (bindM (recover cfg env begin_block) (\<lambda>b'.
           thenM (modifyM (\<lambda>s. s\<lparr>force_tx := True\<rparr>)) (returnM (Some b')))) v = (Ret (Some b'), t)"
      by (cases hr; cases "json_item ''status'' (snd hr)"; cases "web3_to_json env (snd hr)")
         (auto simp: M_simps split: if_splits)
    with ten show ?thesis by (rule fail_tail_result)
  qed
  from run have "tryM (release_chunk_body cfg env begin_block b e)
      (release_chunk_handler cfg env begin_block b) s = (Ret (Some b'), t)"
    by (simp add: release_chunk_def)
  then show ?thesis
  proof (cases rule: tryM_E)
    case (Ret a)
    with body show ?thesis by simp
  next
    case (Caught ex u)
    with fail_tail_result[OF ten] show ?thesis
      unfolding release_chunk_handler_def by blast
  qed simp_all
qed

text \<open>
  C17: when the release of an epoch fails, whether the transaction could not be sent or its
  receipt shows it reverted, and the generator recovers, then the nonce it goes on with is one
  the anchor chain reported, the begin marker follows the last epoch of the contract (or stays,
  where the contract has none), and the next release is forced to wait for its receipt.
\<close>

theorem release_chunk_resynchronises:
  assumes "tenacity (retry_fetch env)"
    and "release_chunk cfg env begin_block b e s = (Ret (Some b'), t)"
  shows "synced cfg env begin_block b' t \<and> force_tx t"
  using assms by (rule chunk_failed_synced)

text \<open>The example: the node refuses the transaction.\<close>

definition refusing :: "unit eg_env" where
  "refusing = chain_env (basic_env\<lparr>
     send_raw_transaction := (\<lambda>r w. (Inl (Exn ValueError ''nonce too low''), w)),
     current_epoch_call := (\<lambda>w. (Inr [91, 100, 10], w))\<rparr>)"

lemma refusing_chunk:
  "\<exists>t. release_chunk example_settings refusing 91 91 100 start_state = (Ret (Some 101), t)"
proof -
  have "tenacity (retry_fetch refusing)" unfolding refusing_def by simp
  from fetch_epoch_Ret[OF this, of _ 91 100 10]
  have "fetch_epoch_from_contract example_settings refusing s = (Ret 101, s)" for s :: "unit epoch_generator"
    by (cases s) (simp add: refusing_def chain_env_def basic_env_def env.defs)
  then show ?thesis
    by (simp add: release_chunk_def release_chunk_body_def write_transaction_with_receipt_def
        write_transaction_def release_chunk_handler_def recover_def eg_notify_def M_defs
        timeSleepM_def send_failure_notifications_client refusing_def chain_env_def basic_env_def env.defs
        epoch_generator_init_def Let_def)
qed

theorem release_chunk_resynchronises_witness:
  "\<exists>t. synced example_settings refusing 91 101 t \<and> force_tx t"
proof -
  have "tenacity (retry_fetch refusing)" unfolding refusing_def by simp
  with refusing_chunk release_chunk_resynchronises show ?thesis by blast
qed

section \<open>A release that went through\<close>

lemma fail_tail_leaves:
  "thenM (eg_notify cfg message) (bindM (recover cfg env b) (\<lambda>b'.
     thenM (modifyM (\<lambda>s. s\<lparr>force_tx := True\<rparr>)) (returnM (Some b')))) s \<noteq> (Ret None, t)"
proof
  assume "thenM (eg_notify cfg message) (bindM (recover cfg env b) (\<lambda>b'.
     thenM (modifyM (\<lambda>s. s\<lparr>force_tx := True\<rparr>)) (returnM (Some b')))) s = (Ret None, t)"
  then obtain v where "bindM (recover cfg env b) (\<lambda>b'.
      thenM (modifyM (\<lambda>s. s\<lparr>force_tx := True\<rparr>)) (returnM (Some b'))) v = (Ret None, t)"
    by (rule thenM_RetE)
  then obtain x v where
    "thenM (modifyM (\<lambda>s. s\<lparr>force_tx := True\<rparr>)) (returnM (Some (x :: int))) v = (Ret None, t)"
    by (rule bindM_RetE)
  then show False by (simp add: M_simps)
qed

lemma release_chunk_body_of_Ret:
  assumes "release_chunk cfg env begin_block b e s = (Ret None, t)"
  shows "release_chunk_body cfg env begin_block b e s = (Ret None, t)"
proof -
  from assms have "tryM (release_chunk_body cfg env begin_block b e)
      (release_chunk_handler cfg env begin_block b) s = (Ret None, t)"
    by (simp add: release_chunk_def)
  then show ?thesis
    by (cases rule: tryM_E) (auto simp: release_chunk_handler_def fail_tail_leaves)
qed

end
