(* ===== verification/Hoare.thy ===== *)
theory Hoare
  imports Prelude
begin

text \<open>
  Triples for the effects of the prelude. \<open>hoareM P m Q E\<close>: from a state satisfying \<open>P\<close>, \<open>m\<close>
  returns a value and a state related by \<open>Q\<close>, or it raises (or is still running) in a state
  satisfying \<open>E\<close>. The rules are syntax directed; each computes nothing and leaves the
  implications between the assertions to the automation.
\<close>

definition hoareM ::
  "('s \<Rightarrow> bool) \<Rightarrow> ('s, 'a) M \<Rightarrow> ('a \<Rightarrow> 's \<Rightarrow> bool) \<Rightarrow> ('s \<Rightarrow> bool) \<Rightarrow> bool" where
  "hoareM P m Q E \<longleftrightarrow>
     (\<forall>s. P s \<longrightarrow> (case m s of (Ret a, t) \<Rightarrow> Q a t | (Raise e, t) \<Rightarrow> E t | (Pending, t) \<Rightarrow> E t))"

lemma hoareMI:
  assumes "\<And>s a t. P s \<Longrightarrow> m s = (Ret a, t) \<Longrightarrow> Q a t"
    and "\<And>s e t. P s \<Longrightarrow> m s = (Raise e, t) \<Longrightarrow> E t"
    and "\<And>s t. P s \<Longrightarrow> m s = (Pending, t) \<Longrightarrow> E t"
  shows "hoareM P m Q E"
  using assms by (auto simp: hoareM_def split: prod.split res.split)

lemma hoareM_Ret: "hoareM P m Q E \<Longrightarrow> P s \<Longrightarrow> m s = (Ret a, t) \<Longrightarrow> Q a t"
  by (auto simp: hoareM_def split: prod.splits res.splits)

lemma hoareM_Raise: "hoareM P m Q E \<Longrightarrow> P s \<Longrightarrow> m s = (Raise e, t) \<Longrightarrow> E t"
  by (auto simp: hoareM_def split: prod.splits res.splits)

lemma hoareM_Pending: "hoareM P m Q E \<Longrightarrow> P s \<Longrightarrow> m s = (Pending, t) \<Longrightarrow> E t"
  by (auto simp: hoareM_def split: prod.splits res.splits)

lemma hoareM_any:
  assumes "hoareM P m (\<lambda>_. I) I" and "P s" and "m s = (r, t)"
  shows "I t"
  using assms by (cases r) (auto intro: hoareM_Ret hoareM_Raise hoareM_Pending)

lemma hoareM_conseq:
  assumes "hoareM P' m Q' E'" and "\<And>s. P s \<Longrightarrow> P' s"
    and "\<And>a s. Q' a s \<Longrightarrow> Q a s" and "\<And>s. E' s \<Longrightarrow> E s"
  shows "hoareM P m Q E"
  using assms by (fastforce simp: hoareM_def split: prod.splits res.splits)

named_theorems hoare "triples of the effects"

lemma hoare_return [hoare]: "(\<And>s. P s \<Longrightarrow> Q a s) \<Longrightarrow> hoareM P (returnM a) Q E"
  by (simp add: hoareM_def returnM_def)

lemma hoare_raise [hoare]: "(\<And>s. P s \<Longrightarrow> E s) \<Longrightarrow> hoareM P (raiseM e) Q E"
  by (simp add: hoareM_def raiseM_def)

lemma hoare_gets [hoare]: "(\<And>s. P s \<Longrightarrow> Q (f s) s) \<Longrightarrow> hoareM P (getsM f) Q E"
  by (simp add: hoareM_def getsM_def)

lemma hoare_modify [hoare]: "(\<And>s. P s \<Longrightarrow> Q () (f s)) \<Longrightarrow> hoareM P (modifyM f) Q E"
  by (simp add: hoareM_def modifyM_def)

lemma hoare_lift [hoare]:
  "(\<And>s a. P s \<Longrightarrow> r = Inr a \<Longrightarrow> Q a s) \<Longrightarrow> (\<And>s. P s \<Longrightarrow> E s) \<Longrightarrow> hoareM P (liftM r) Q E"
  by (cases r) (simp_all add: hoareM_def liftM_def)

lemma hoare_ext [hoare]:
  "(\<And>s a w. P s \<Longrightarrow> Q a (s\<lparr>ext := w\<rparr>)) \<Longrightarrow> (\<And>s w. P s \<Longrightarrow> E (s\<lparr>ext := w\<rparr>)) \<Longrightarrow>
     hoareM P (extM f) Q E"
  by (auto simp: hoareM_def extM_def liftM_def split: prod.split sum.split)

lemma hoare_emit [hoare]:
  "(\<And>s. P s \<Longrightarrow> Q () (s\<lparr>trace := trace s @ [ev]\<rparr>)) \<Longrightarrow> hoareM P (emitM ev) Q E"
  by (simp add: hoareM_def emitM_def)

lemma hoare_bind [hoare]:
  assumes "hoareM P m R E" and "\<And>a. hoareM (R a) (f a) Q E"
  shows "hoareM P (bindM m f) Q E"
proof (rule hoareMI)
  fix s b t
  assume "P s" "bindM m f s = (Ret b, t)"
  then show "Q b t"
    by (elim bindM_RetE) (rule hoareM_Ret[OF assms(2) hoareM_Ret[OF assms(1)]])
next
  fix s e t
  assume s: "P s" and "bindM m f s = (Raise e, t)"
  from this(2) show "E t"
    by (cases rule: bindM_E)
       (auto intro: hoareM_Raise[OF assms(2) hoareM_Ret[OF assms(1) s]] hoareM_Raise[OF assms(1) s])
next
  fix s t
  assume s: "P s" and "bindM m f s = (Pending, t)"
  from this(2) show "E t"
    by (cases rule: bindM_E)
       (auto intro: hoareM_Pending[OF assms(2) hoareM_Ret[OF assms(1) s]] hoareM_Pending[OF assms(1) s])
qed

lemma hoare_then [hoare]:
  "hoareM P m R E \<Longrightarrow> (\<And>a. hoareM (R a) n Q E) \<Longrightarrow> hoareM P (thenM m n) Q E"
  unfolding thenM_def by (rule hoare_bind)

lemma hoare_if [hoare]:
  "(b \<Longrightarrow> hoareM P m Q E) \<Longrightarrow> (\<not> b \<Longrightarrow> hoareM P n Q E) \<Longrightarrow> hoareM P (if b then m else n) Q E"
  by simp

lemma hoare_try:
  assumes "hoareM P m Q F" and "\<And>e. hoareM F (h e) Q E" and "\<And>s. F s \<Longrightarrow> E s"
  shows "hoareM P (tryM m h) Q E"
  using assms
  by (fastforce simp: hoareM_def tryM_def try_elseM_def returnM_def split: prod.splits res.splits)

lemma hoare_for:
  assumes "\<And>ys x zs. xs = ys @ x # zs \<Longrightarrow> hoareM (I ys) (f x) (\<lambda>_. I (ys @ [x])) E"
  shows "hoareM (I []) (forM xs f) (\<lambda>_. I xs) E"
proof -
  have "hoareM (I pre) (forM post f) (\<lambda>_. I xs) E" if "xs = pre @ post" for pre post
    using that
  proof (induction post arbitrary: pre)
    case Nil
    then show ?case by (simp add: hoare_return)
  next
    case (Cons x post)
    then have "hoareM (I (pre @ [x])) (forM post f) (\<lambda>_. I xs) E" by simp
    with assms[OF Cons.prems] show ?case
      unfolding forM.simps by (rule hoare_then)
  qed
  from this[of "[]"] show ?thesis by simp
qed

text \<open>What a relation between states says of assertions.\<close>

lemma hoare_keeps:
  assumes "keepsM R m" and "\<And>s t. P s \<Longrightarrow> R s t \<Longrightarrow> I t"
  shows "hoareM P m (\<lambda>_. I) I"
  using assms by (auto simp: hoareM_def keepsM_def split: prod.split res.split) (metis snd_conv)+

text \<open>An operation that only logs keeps every assertion on the program's fields.\<close>

lemma hoare_logs:
  assumes "keepsM (logs (\<lambda>_. True)) m" and "\<And>s w evs. P s \<Longrightarrow> I (s\<lparr>ext := w, trace := evs\<rparr>)"
  shows "hoareM P m (\<lambda>_. I) I"
  using assms by (intro hoare_keeps[OF assms(1)]) (auto simp: logs_def)

text \<open>
  Assertions kept whatever the outcome. Implication between the assertion before and after is
  a relation of the kind of the locale \<open>frame\<close>, so the rules of that locale apply.
\<close>

definition preserves :: "('s \<Rightarrow> bool) \<Rightarrow> 's \<Rightarrow> 's \<Rightarrow> bool" where
  "preserves I s t \<longleftrightarrow> (I s \<longrightarrow> I t)"

interpretation preserves: frame "preserves I" for I
  by unfold_locales (auto simp: preserves_def)

lemma preserves_modify: "(\<And>s. I s \<Longrightarrow> I (f s)) \<Longrightarrow> keepsM (preserves I) (modifyM f)"
  by (simp add: keepsM_def modifyM_def preserves_def)

lemma preserves_logs:
  assumes "keepsM (logs (\<lambda>_. True)) m" and "\<And>s w evs. I s \<Longrightarrow> I (s\<lparr>ext := w, trace := evs\<rparr>)"
  shows "keepsM (preserves I) m"
  using assms(1) by (rule keepsM_mono) (auto simp: logs_def preserves_def assms(2))

lemma hoare_preserves: "keepsM (preserves I) m \<Longrightarrow> hoareM I m (\<lambda>_. I) I"
  by (erule hoare_keeps) (simp add: preserves_def)

end
