(* ===== verification/Epoch_First.thy ===== *)
theory Epoch_First
  imports Epoch_Props Hoare
begin

text \<open>
  The epoch generator when no node answers, and the timed release of its first epoch: the
  wait for the release time, the range released, the bound on the attempts, and what is sent after
  an attempt that was refused.
\<close>

section \<open>No node of the source chain answers\<close>

text \<open>
  C35: while every node of the source chain fails, where they are listed under distinct URLs and the
  retry limit is not negative, a round polls, waits for one block time and keeps its begin marker: it
  submits nothing, and it ends.
\<close>

theorem eg_round_nodes_down:
  assumes "nodes_down cfg env (NODES (rpc_nodes_of cfg))" and "distinct (NODES (rpc_nodes_of cfg))"
    and "0 \<le> RETRY_LIMIT (rpc_nodes_of cfg)" and "nat (RETRY_LIMIT (rpc_nodes_of cfg)) < fuel"
    and "\<And>w. \<exists>w'. async_sleep env (block_time_of cfg) w = (Inr (), w')"
  shows "\<exists>evs t. eg_round fuel cfg env b s = (Ret b, t) \<and> submitted evs = [] \<and>
           trace t = trace s @ evs @ [AsyncSleep (block_time_of cfg)]"
proof -
  from blocknumber_down[OF assms(1-4), of s] obtain u where
    down: "rpc_eth_blocknumber fuel cfg env (rpc_nodes_of cfg) s = (Raise (Exn BailException []), u)" ..
  then obtain w evs q where
    u: "u = s\<lparr>ext := w, trace := trace s @ evs, querystring := q\<rparr>" "list_all is_rpc_post evs"
    by (rule blocknumber_effect)
  from assms(5) obtain w' where "async_sleep env (block_time_of cfg) (ext u) = (Inr (), w')" by blast
  then have "asyncSleepM env (block_time_of cfg) u =
      (Ret (), u\<lparr>ext := w', trace := trace u @ [AsyncSleep (block_time_of cfg)]\<rparr>)"
    by (simp add: asyncSleepM_def callM_Inr)
  with down u idle_polls[OF u(2)] show ?thesis
    by (simp add: eg_round_def M_simps idle_def)
qed

theorem eg_round_nodes_down_witness:
  "\<exists>evs t. eg_round 6 example_settings (chain_env basic_env) 101 start_state = (Ret 101, t) \<and>
           submitted evs = [] \<and> trace t = trace start_state @ evs @ [AsyncSleep 12]"
  using eg_round_nodes_down[of example_settings "chain_env basic_env" 6 101 start_state]
  by (simp add: rpc_nodes_of_def nodes_down_def chain_env_def basic_env_def env.defs
      example_settings_def example_rpc_def)

section \<open>The first epoch\<close>

text \<open>\<open>quiet\<close>: nothing was submitted.\<close>

definition quiet :: "('w, 'z) world_scheme \<Rightarrow> ('w, 'z) world_scheme \<Rightarrow> bool" where
  "quiet s t \<longleftrightarrow> submitted (trace t) = submitted (trace s)"

interpretation quiet: env_frame quiet
  by unfold_locales (auto simp: quiet_def)

lemma quiet_modifyM: "(\<And>s. trace (f s) = trace s) \<Longrightarrow> keepsM quiet (modifyM f)"
  by (simp add: keepsM_def modifyM_def quiet_def)

lemma quiet_of_logs: "keepsM (logs (\<lambda>ev. \<not> is_submit ev)) m \<Longrightarrow> keepsM quiet m"
  by (erule keepsM_mono) (auto simp: logs_def quiet_def submitted_none)

lemma quiet_handler: "keepsM quiet (release_epoch_handler cfg env ex)"
  unfolding release_epoch_handler_def reset_nonce_def
  by (intro quiet.keeps_rules quiet.keeps_ext quiet_modifyM) simp_all

lemma release_epoch_write_sends:
  assumes "release_epoch_write cfg env b e s = (r, t)"
  shows "length (submitted (trace t)) \<le> length (submitted (trace s)) + 1"
proof -
  let ?s1 = "s\<lparr>release_counter := release_counter s + 1\<rparr>"
  let ?w = "write_release_receipt cfg env (eg_nonce s) (current_gas s) (release_args b e)"
  obtain x u where w: "?w ?s1 = (x, u)" by (cases "?w ?s1")
  then obtain w' evs where "u = ?s1\<lparr>ext := w', trace := trace ?s1 @ evs\<rparr>"
    "submitted evs = [] \<or> (\<exists>tx. submitted evs = [tx] \<and> release_carries cfg env (eg_nonce s)
       (current_gas s) (release_args b e) tx)"
    by (rule wr.write_frame)
  then have u: "length (submitted (trace u)) \<le> length (submitted (trace s)) + 1" by auto
  have "current_gas ?s1 = current_gas s" by (simp add: current_gas_def)
  with assms w have "trace t = trace u"
    by (cases x) (auto simp: release_epoch_write_def M_simps split: prod.splits)
  with u show ?thesis by simp
qed

lemma release_epoch_attempt_sends:
  assumes "release_epoch_attempt cfg env b e s = (r, t)"
  shows "length (submitted (trace t)) \<le> length (submitted (trace s)) + 1"
proof -
  let ?body = "tryM (release_epoch_write cfg env b e) (release_epoch_handler cfg env)"
  let ?after = "\<lambda>r. case r of None \<Rightarrow> returnM ()
     | Some receipt \<Rightarrow>
         bindM (liftM (json_item ''status'' receipt)) (\<lambda>status.
         if \<not> json_is_one status
         then raiseM (Exn PyException ''Epoch release transaction failed.'')
         else returnM ())"
  obtain x u where att: "?body s = (x, u)" by (cases "?body s")
  have u: "length (submitted (trace u)) \<le> length (submitted (trace s)) + 1"
    using att
  proof (cases rule: tryM_E)
    case (Caught ex v)
    from keepsMD[OF quiet_handler Caught(3)] release_epoch_write_sends[OF Caught(1)] show ?thesis
      by (simp add: quiet_def)
  qed (use release_epoch_write_sends in blast)+
  have "keepsM quiet (?after a)" for a
    by (intro quiet.keeps_rules)
  then have "quiet u t"
    using assms att unfolding release_epoch_attempt_def
    by (cases x) (auto simp: M_simps quiet.R_refl dest: keepsMD)
  with u show ?thesis by (simp add: quiet_def)
qed

lemma grows_with_retry_args:
  assumes "tenacity (retry_release env)"
  shows "keepsM (grows (\<lambda>ev. \<forall>tx. ev = TxSubmit tx \<longrightarrow> tx_args tx = release_args b e))
           (release_epoch_with_retry cfg env b e)"
proof -
  have w: "keepsM (grows (\<lambda>ev. \<forall>tx. ev = TxSubmit tx \<longrightarrow> tx_args tx = release_args b e))
      (write_release_receipt cfg env n g (release_args b e))" for n g
    by (rule wr.write_grows) (simp add: carries_def)
  have att: "keepsM (grows (\<lambda>ev. \<forall>tx. ev = TxSubmit tx \<longrightarrow> tx_args tx = release_args b e))
      (release_epoch_attempt cfg env b e)"
    unfolding release_epoch_attempt_def release_epoch_write_def release_epoch_handler_def reset_nonce_def
    by (intro growing w) simp_all
  show ?thesis
    unfolding release_epoch_with_retry_def
    by (rule grows.keeps_retry[OF assms]; intro growing att)
qed

lemma release_epoch_with_retry_sends:
  assumes "tenacity (retry_release env)" and "release_epoch_with_retry cfg env b e s = (r, t)"
  obtains evs where "trace t = trace s @ evs"
    and "length (submitted evs) \<le> max 1 (nat (rpc_retry (anchor_rpc (st_anchor_chain cfg))))"
    and "\<forall>tx \<in> set (submitted evs). tx_args tx = release_args b e"
proof -
  let ?\<mu> = "\<lambda>s :: 'a epoch_generator. length (submitted (trace s))"
  from grows_with_retry_args[OF assms(1)] assms(2) obtain evs where
    evs: "trace t = trace s @ evs"
    "list_all (\<lambda>ev. \<forall>tx. ev = TxSubmit tx \<longrightarrow> tx_args tx = release_args b e) evs"
    by (rule growsE)
  have "?\<mu> t \<le> ?\<mu> s + 1 * max 1 (nat (rpc_retry (anchor_rpc (st_anchor_chain cfg))))"
    by (rule tenacity_count[where retry = "retry_release env" and \<mu> = ?\<mu> and c = 1
          and f = "\<lambda>_. release_epoch_attempt cfg env b e" and bs = "\<lambda>k ex. returnM k"
          and p = is_Exception and k = "()" and r = r, OF assms(1)])
       (use release_epoch_attempt_sends assms(2) in
          \<open>auto simp: release_epoch_with_retry_def returnM_def\<close>)
  with evs show thesis by (intro that[of evs]) (auto simp: in_submitted list_all_iff)
qed

text \<open>
  C28: the first epoch released covers the last \<open>height\<close> blocks up to the head less the offset.
  Its release is tried at most as often as the retry limit of the anchor chain's RPC says (once
  where that is not positive), every transaction submitted is for that epoch, and the marker
  returned is the block after it, or 0 where the release was given up.
\<close>

theorem release_first_epoch_range:
  assumes "tenacity (retry_release env)"
    and "rpc_eth_blocknumber fuel cfg env (rpc_nodes_of cfg) s = (Ret head, u)"
    and "release_first_epoch fuel cfg env s = (Ret b', t)"
  shows "\<exists>evs. trace t = trace s @ evs \<and>
           length (submitted evs) \<le> max 1 (nat (rpc_retry (anchor_rpc (st_anchor_chain cfg)))) \<and>
           (\<forall>tx \<in> set (submitted evs). tx_args tx =
              release_args (head - offset_of cfg - height_of cfg + 1) (head - offset_of cfg)) \<and>
           (b' = head - offset_of cfg + 1 \<or> b' = 0)"
proof -
  let ?e = "head - offset_of cfg"
  let ?b = "?e - height_of cfg + 1"
  from assms(2) obtain w evs0 q where
    u: "u = s\<lparr>ext := w, trace := trace s @ evs0, querystring := q\<rparr>" "list_all is_rpc_post evs0"
    by (rule blocknumber_effect)
  from idle_polls[OF u(2)] have none: "submitted evs0 = []" by (simp add: idle_def)
  obtain r v where rel: "release_epoch_with_retry cfg env ?b ?e u = (r, v)"
    by (cases "release_epoch_with_retry cfg env ?b ?e u")
  with assms(1) obtain evs where evs: "trace v = trace u @ evs"
    "length (submitted evs) \<le> max 1 (nat (rpc_retry (anchor_rpc (st_anchor_chain cfg))))"
    "\<forall>tx \<in> set (submitted evs). tx_args tx = release_args ?b ?e"
    by (rule release_epoch_with_retry_sends)
  let ?msg = "\<lambda>ex. eg_issue cfg ?b ''FirstEpochReleaseTxnFailed''
       (json_dumps (JObj [(''issueDetails'', JStr (''Error : '' @ exn_str ex))]))"
  have notify: "keepsM (logs (\<lambda>ev. \<not> is_submit ev)) (eg_notify cfg (?msg ex))" for ex
    by (rule logs_eg_notify) simp
  have "(\<exists>evs'. trace t = trace v @ evs' \<and> submitted evs' = []) \<and> (b' = ?e + 1 \<or> b' = 0)"
  proof (cases r)
    case (Ret a)
    with assms(2,3) rel show ?thesis
      by (simp add: release_first_epoch_def Let_def M_simps)
  next
    case (Raise ex)
    with assms(2,3) rel have ex: "is_Exception ex"
      "thenM (eg_notify cfg (?msg ex)) (returnM 0) v = (Ret b', t)"
      by (simp_all add: release_first_epoch_def Let_def M_simps split: if_splits)
    from ex(2) obtain x where n: "eg_notify cfg (?msg ex) v = (Ret x, t)" "b' = 0"
      by (rule thenM_RetE) (simp add: returnM_def)
    from notify n(1) obtain w' evs' where
      "t = v\<lparr>ext := w', trace := trace v @ evs'\<rparr>" "list_all (\<lambda>ev. \<not> is_submit ev) evs'"
      by (rule logsE)
    with n(2) show ?thesis by (auto simp: submitted_none)
  next
    case Pending
    with assms(2,3) rel show ?thesis
      by (simp add: release_first_epoch_def Let_def M_simps try_elseM_def bindM_def)
  qed
  then obtain evs' where "trace t = trace v @ evs'" "submitted evs' = []" "b' = ?e + 1 \<or> b' = 0"
    by blast
  with u none evs show ?thesis
    by (intro exI[of _ "evs0 @ evs @ evs'"]) auto
qed







text \<open>
  C29: started before the release time, with a clock that moves on by at least the time slept,
  the generator sleeps once, for the seconds left by its reading of the clock, and then releases
  the first epoch; it neither polls the chain nor submits anything before.
\<close>

theorem wait_and_release_first_epoch_on_time:
  assumes "\<And>w. time_time env w = (Inr (clock w), w)" and "\<And>w. 0 \<le> clock w"
    and "\<And>n w. \<exists>w'. async_sleep env n w = (Inr (), w') \<and> clock w + of_int n \<le> clock w'"
    and "py_trunc (clock (ext s)) < epoch_release_start_timestamp cfg" and "2 \<le> fuel"
  shows "\<exists>s'. s' = s\<lparr>ext := ext s', trace := trace s @
             [AsyncSleep (epoch_release_start_timestamp cfg - py_trunc (clock (ext s)))]\<rparr> \<and>
           epoch_release_start_timestamp cfg \<le> py_trunc (clock (ext s')) \<and>
           wait_and_release_first_epoch fuel cfg env s = release_first_epoch fuel cfg env s'"
proof -
  let ?start = "epoch_release_start_timestamp cfg"
  let ?t = "py_trunc (clock (ext s))"
  from assms(3) obtain w' where w': "async_sleep env (?start - ?t) (ext s) = (Inr (), w')"
    "clock (ext s) + of_int (?start - ?t) \<le> clock w'" by blast
  let ?s' = "s\<lparr>ext := w', trace := trace s @ [AsyncSleep (?start - ?t)]\<rparr>"
  have "real_of_int ?start \<le> clock w'"
    using w'(2) py_trunc_le[OF assms(2), of "ext s"] by simp
  then have late: "?start \<le> py_trunc (clock w')"
    using assms(2) by (simp add: py_trunc_def le_floor_iff)
  have now: "nowM env s = (Ret (clock (ext s)), s)" for s :: "'a epoch_generator"
    using assms(1) by (cases s) (simp add: nowM_def M_defs)
  from w'(1) have sl: "asyncSleepM env (?start - ?t) s = (Ret (), ?s')"
    by (simp add: asyncSleepM_def callM_Inr)
  from assms(5) obtain f where f: "fuel = Suc (Suc f)"
    using that[of "fuel - 2"] by simp
  let ?body = "\<lambda>_ :: unit. bindM (nowM env) (\<lambda>t.
     (let current_time = py_trunc t
      in if current_time \<ge> ?start
         then bindM (release_first_epoch fuel cfg env) (\<lambda>b. returnM (Inr b))
         else thenM (asyncSleepM env (?start - current_time)) (returnM (Inl ()))))"
  have first: "?body () s = (Ret (Inl ()), ?s')"
    using assms(4) by (simp add: now sl M_simps)
  have second: "?body () ?s' = bindM (release_first_epoch fuel cfg env) (\<lambda>b. returnM (Inr b)) ?s'"
    using late now[of ?s'] by (simp add: M_simps)
  have "wait_and_release_first_epoch fuel cfg env s = loopM (Suc (Suc f)) ?body () s"
    using assms(4) unfolding f[symmetric] by (simp add: wait_and_release_first_epoch_def Let_def now M_simps)
  also have "\<dots> = loopM (Suc f) ?body () ?s'"
    by (rule loopM_Inl[of ?body, OF first])
  also have "\<dots> = release_first_epoch fuel cfg env ?s'"
    using second by (auto simp: bindM_def returnM_def split: prod.splits res.splits)
  finally have "wait_and_release_first_epoch fuel cfg env s = release_first_epoch fuel cfg env ?s'" .
  then show ?thesis
    using late by (intro exI[of _ ?s']) auto
qed

theorem release_first_epoch_range_witness:
  "\<exists>u b' t. rpc_eth_blocknumber 9 example_settings (chain_env (answering 130))
       (rpc_nodes_of example_settings) start_state = (Ret 130, u) \<and>
     release_first_epoch 9 example_settings (chain_env (answering 130)) start_state = (Ret b', t) \<and>
     (\<exists>evs. trace t = evs \<and> length (submitted evs) \<le> 5 \<and>
        (\<forall>tx \<in> set (submitted evs). tx_args tx = release_args 119 128) \<and> (b' = 129 \<or> b' = 0))"
proof -
  let ?env = "chain_env (answering 130)"
  from example_head obtain u where
    u: "rpc_eth_blocknumber 9 example_settings ?env (rpc_nodes_of example_settings) start_state = (Ret 130, u)" ..
  obtain h rc v where w: "write_release_receipt example_settings ?env (eg_nonce u) (current_gas u)
      (release_args 119 128) (u\<lparr>release_counter := release_counter u + 1\<rparr>) = (Ret (h, rc), v)"
    "json_item ''status'' rc = Inr (JInt 1)"
    using write_transaction_with_receipt_healthy[OF healthy_answering] by blast
  have "current_gas (u\<lparr>release_counter := release_counter u + 1\<rparr>) = current_gas u"
    by (simp add: current_gas_def)
  with w obtain v where v: "release_epoch_attempt example_settings ?env 119 128 u = (Ret (), v)"
    by (simp add: release_epoch_attempt_def release_epoch_write_def M_simps)
  have "release_epoch_with_retry example_settings ?env 119 128 u = (Ret (), v)"
    unfolding release_epoch_with_retry_def
    by (rule tenacity_Ret[OF chain_env_retry(2)]) (rule v)
  with u obtain b' t where run: "release_first_epoch 9 example_settings ?env start_state = (Ret b', t)"
    by (simp add: release_first_epoch_def Let_def M_simps)
  from release_first_epoch_range[OF chain_env_retry(2) u run] u run show ?thesis
    by (intro exI[of _ u] exI[of _ b'] exI[of _ t]) (auto simp: epoch_generator_init_def)
qed




definition ticking :: "nat eg_env" where
  "ticking = chain_env (basic_env\<lparr>time_time := (\<lambda>w. (Inr (real w), w)),
     async_sleep := (\<lambda>n w. (Inr (), w + nat n))\<rparr>)"

theorem wait_and_release_first_epoch_on_time_witness:
  "\<exists>s'. wait_and_release_first_epoch 3 (example_settings\<lparr>epoch_release_start_timestamp := 1000\<rparr>) ticking
          (epoch_generator_init example_settings 900) =
        release_first_epoch 3 (example_settings\<lparr>epoch_release_start_timestamp := 1000\<rparr>) ticking s' \<and>
        trace s' = [AsyncSleep 100]"
proof -
  have tick: "time_time ticking w = (Inr (real w), w)"
    "async_sleep ticking n w = (Inr (), w + nat n)" for w n
    by (simp_all add: ticking_def chain_env_def basic_env_def env.defs)
  have "real w + real_of_int n \<le> real (w + nat n)" for w n by linarith
  then have slept: "\<exists>w'. async_sleep ticking n w = (Inr (), w') \<and> real w + real_of_int n \<le> real w'" for w n
    using tick(2) by blast
  have t: "py_trunc (real (ext (epoch_generator_init example_settings 900 :: nat epoch_generator))) = 900"
    using py_trunc_of_int[of 900] by (simp add: epoch_generator_init_def)
  from wait_and_release_first_epoch_on_time[of ticking real "epoch_generator_init example_settings 900"
      "example_settings\<lparr>epoch_release_start_timestamp := 1000\<rparr>" 3, OF tick(1) _ slept] t
  obtain s' where s': "s' = (epoch_generator_init example_settings 900)\<lparr>ext := ext s',
      trace := trace (epoch_generator_init example_settings 900 :: nat epoch_generator) @ [AsyncSleep 100]\<rparr>"
    and run: "wait_and_release_first_epoch 3 (example_settings\<lparr>epoch_release_start_timestamp := 1000\<rparr>) ticking
      (epoch_generator_init example_settings 900) =
      release_first_epoch 3 (example_settings\<lparr>epoch_release_start_timestamp := 1000\<rparr>) ticking s'"
    by auto
  from arg_cong[OF s', of trace] have "trace s' = [AsyncSleep 100]"
    by (simp add: epoch_generator_init_def)
  with run show ?thesis by blast
qed

end
