(* ===== verification/Epoch_Receipts.thy ===== *)
theory Epoch_Receipts
  imports Epoch_Props
begin

text \<open>
  Which releases of the epoch generator wait for their receipt, and what they pay: the log of a
  run read as rows, each a transaction with the receipt that was waited for, if any. A relation
  between the states before and after, of the kind of the locale \<open>frame\<close>, carries the count of
  releases from the single release to the whole run.
\<close>

section \<open>Relations that hold unless the run ends in an exception\<close>

text \<open>
  \<open>endsM R m\<close>: where \<open>m\<close> returns or is still running, the state it left is related by \<open>R\<close> to the
  state it started in. The rules are those of \<open>keepsM\<close>.
\<close>

definition endsM :: "('s \<Rightarrow> 's \<Rightarrow> bool) \<Rightarrow> ('s, 'a) M \<Rightarrow> bool" where
  "endsM R m \<longleftrightarrow> (\<forall>s r t. m s = (r, t) \<longrightarrow> (\<forall>e. r \<noteq> Raise e) \<longrightarrow> R s t)"

lemma endsMD: "endsM R m \<Longrightarrow> m s = (r, t) \<Longrightarrow> (\<And>e. r \<noteq> Raise e) \<Longrightarrow> R s t"
  by (simp add: endsM_def)

lemma ends_of_keeps: "keepsM R m \<Longrightarrow> endsM R m"
  by (simp add: endsM_def keepsMD)

context frame
begin

lemma ends_bind:
  assumes "endsM R m" and "\<And>a. endsM R (f a)"
  shows "endsM R (bindM m f)"
  unfolding endsM_def
proof (intro allI impI)
  fix s r t
  assume run: "bindM m f s = (r, t)" and r: "\<forall>e. r \<noteq> Raise e"
  from run show "R s t"
  proof (cases rule: bindM_E)
    case (Ret a u)
    with r R_trans[OF endsMD[OF assms(1) Ret(1)] endsMD[OF assms(2) Ret(2)]] show ?thesis by simp
  qed (use r endsMD[OF assms(1)] in simp_all)
qed

lemma ends_then: "endsM R m \<Longrightarrow> endsM R n \<Longrightarrow> endsM R (thenM m n)"
  by (simp add: thenM_def ends_bind)

lemma ends_if: "endsM R m \<Longrightarrow> endsM R n \<Longrightarrow> endsM R (if b then m else n)"
  by simp

lemma ends_case_option:
  "endsM R m \<Longrightarrow> (\<And>a. endsM R (f a)) \<Longrightarrow> endsM R (case x of None \<Rightarrow> m | Some a \<Rightarrow> f a)"
  by (simp split: option.split)

lemma ends_case_prod: "(\<And>a b. endsM R (f a b)) \<Longrightarrow> endsM R (case x of (a, b) \<Rightarrow> f a b)"
  by (simp split: prod.split)

lemma ends_try_else:
  assumes "keepsM R m" and "\<And>e. endsM R (h e)" and "\<And>a. endsM R (k a)"
  shows "endsM R (try_elseM p m h k)"
  unfolding endsM_def
proof (intro allI impI)
  fix s r t
  assume run: "try_elseM p m h k s = (r, t)" and r: "\<forall>e. r \<noteq> Raise e"
  from run show "R s t"
  proof (cases rule: try_elseM_E)
    case (Ret a u)
    with r R_trans[OF keepsMD[OF assms(1) Ret(1)] endsMD[OF assms(3) Ret(2)]] show ?thesis by simp
  next
    case (Caught e u)
    with r R_trans[OF keepsMD[OF assms(1) Caught(1)] endsMD[OF assms(2) Caught(3)]] show ?thesis by simp
  qed (use r keepsMD[OF assms(1)] in simp_all)
qed

lemma ends_loop: "(\<And>a. endsM R (body a)) \<Longrightarrow> endsM R (loopM n body a)"
proof (induction n arbitrary: a)
  case 0
  show ?case by (simp add: ends_of_keeps keeps_pending)
next
  case (Suc n)
  then show ?case
    by (auto intro!: ends_bind simp: ends_of_keeps keeps_return split: sum.split)
qed

lemmas ends_rules = ends_bind ends_then ends_if ends_case_option ends_case_prod ends_loop
  keeps_return[THEN ends_of_keeps] keeps_lift[THEN ends_of_keeps] keeps_gets[THEN ends_of_keeps]

end

section \<open>What the release loop sends\<close>

text \<open>A row: a release, and the receipt that was waited for, if any.\<close>

type_synonym row = "txn \<times> string option"

definition rows_traffic :: "row list \<Rightarrow> event list" where
  "rows_traffic rows =
     concat (map (\<lambda>(tx, rc). TxSubmit tx # (case rc of None \<Rightarrow> [] | Some h \<Rightarrow> [AwaitReceipt h])) rows)"

definition release_row :: "'w eg_env \<Rightarrow> 'w epoch_generator \<Rightarrow> nat \<Rightarrow> row \<Rightarrow> bool" where
  "release_row env s i row \<longleftrightarrow>
     (snd row \<noteq> None \<longleftrightarrow> (release_counter s + int i) mod check_receipt_every s = 0 \<or> i = 0 \<and> force_tx s) \<and>
     to_wei_gwei env (if i = 0 \<and> force_tx s then eg_high_gas s else eg_gas s) = Inr (tx_gas_price (fst row))"

lemma rows_traffic_append [simp]: "rows_traffic (xs @ ys) = rows_traffic xs @ rows_traffic ys"
  by (simp add: rows_traffic_def)

lemma rows_traffic_Nil [simp]: "rows_traffic [] = []"
  by (simp add: rows_traffic_def)

lemma rows_traffic_pure [simp]: "filter tx_traffic (rows_traffic rows) = rows_traffic rows"
  by (induction rows) (auto simp: rows_traffic_def split: option.split)

lemma rows_traffic_no_pause: "BlockingSleep n \<notin> set (rows_traffic rows)"
  by (induction rows) (auto simp: rows_traffic_def split: option.splits)

text \<open>
  Between two states: either the loop paused, or it released row after row, and counted them.
\<close>

definition released_rows :: "'w eg_env \<Rightarrow> 'w epoch_generator \<Rightarrow> 'w epoch_generator \<Rightarrow> row list \<Rightarrow> bool" where
  "released_rows env s t rows \<longleftrightarrow>
     check_receipt_every t = check_receipt_every s \<and> eg_gas t = eg_gas s \<and> eg_high_gas t = eg_high_gas s \<and>
     release_counter t = release_counter s + int (length rows) \<and> force_tx t = (force_tx s \<and> rows = []) \<and>
     (\<forall>i < length rows. release_row env s i (rows ! i))"

definition receipts :: "'w eg_env \<Rightarrow> 'w epoch_generator \<Rightarrow> 'w epoch_generator \<Rightarrow> bool" where
  "receipts env s t \<longleftrightarrow> (\<exists>evs. trace t = trace s @ evs \<and>
     (BlockingSleep 30 \<in> set evs \<or>
        (\<exists>rows. filter tx_traffic evs = rows_traffic rows \<and> released_rows env s t rows)))"

lemma released_rows_append:
  assumes "released_rows env s u xs" and "released_rows env u t ys"
  shows "released_rows env s t (xs @ ys)"
proof -
  have "release_row env s i ((xs @ ys) ! i)" if i: "i < length (xs @ ys)" for i
  proof (cases "i < length xs")
    case True
    with assms(1) show ?thesis by (simp add: released_rows_def nth_append)
  next
    case False
    then obtain j where j: "i = length xs + j" by (metis le_Suc_ex not_less)
    with i assms(2) have "release_row env u j (ys ! j)" by (simp add: released_rows_def)
    with assms(1) show ?thesis
      by (auto simp: j released_rows_def release_row_def nth_append add.assoc split: if_splits)
  qed
  with assms show ?thesis by (auto simp: released_rows_def)
qed

interpretation receipts: env_frame "receipts env" for env :: "'w eg_env"
proof unfold_locales
  fix s t u :: "'w epoch_generator" and w
  show "receipts env s s" "receipts env s (s\<lparr>ext := w\<rparr>)"
    unfolding receipts_def by (intro exI[of _ "[]"], simp add: released_rows_def)+
  assume "receipts env s t" "receipts env t u"
  then obtain xs ys where "trace t = trace s @ xs" "trace u = trace t @ ys"
    and "BlockingSleep 30 \<in> set xs \<or> (\<exists>rows. filter tx_traffic xs = rows_traffic rows \<and> released_rows env s t rows)"
    and "BlockingSleep 30 \<in> set ys \<or> (\<exists>rows. filter tx_traffic ys = rows_traffic rows \<and> released_rows env t u rows)"
    unfolding receipts_def by blast
  then show "receipts env s u"
    unfolding receipts_def
    by (intro exI[of _ "xs @ ys"]) (auto, metis released_rows_append rows_traffic_append)
qed

lemma receipts_quiet:
  assumes "t = s\<lparr>ext := w, trace := trace s @ evs, eg_nonce := n, eg_client := c, querystring := q\<rparr>"
    and "list_all (\<lambda>ev. \<not> tx_traffic ev) evs"
  shows "receipts env s t"
  using assms unfolding receipts_def
  by (intro exI[of _ evs]) (auto simp: released_rows_def list_all_iff filter_empty_conv intro!: disjI2 exI[of _ "[]"])

lemma receipts_logs:
  assumes "keepsM (logs (\<lambda>ev. \<not> tx_traffic ev)) m"
  shows "keepsM (receipts env) m"
proof (rule keepsMI)
  fix s r t
  assume "m s = (r, t)"
  from logsE[OF assms this] obtain w evs where
    "t = s\<lparr>ext := w, trace := trace s @ evs\<rparr>" "list_all (\<lambda>ev. \<not> tx_traffic ev) evs" .
  then show "receipts env s t"
    by (intro receipts_quiet[where n = "eg_nonce s" and c = "eg_client s" and q = "querystring s"]) simp_all
qed

lemma receipts_modify:
  assumes "\<And>s. f s = s\<lparr>eg_nonce := eg_nonce (f s), eg_client := eg_client (f s), querystring := querystring (f s)\<rparr>"
  shows "keepsM (receipts env) (modifyM f)"
proof -
  have "receipts env s (f s)" for s
    by (rule receipts_quiet[where w = "ext s" and evs = "[]" and n = "eg_nonce (f s)" and c = "eg_client (f s)"
          and q = "querystring (f s)"]) (use assms[of s] in simp_all)
  then show ?thesis by (simp add: keepsM_def modifyM_def)
qed


section \<open>One chunk\<close>

lemma write_transaction_Ret:
  assumes "write_transaction cfg env address key fn n g args s = (Ret h, t)"
  shows "\<exists>w tx. t = s\<lparr>ext := w, trace := trace s @ [TxSubmit tx]\<rparr> \<and> carries cfg env address fn n g args tx"
  using assms by (cases rule: write_transaction_cases[of cfg env address key fn n g args s]) auto

lemma write_transaction_with_receipt_Ret:
  assumes "write_transaction_with_receipt cfg env address key fn n g args s = (Ret a, t)"
  shows "\<exists>w tx h. t = s\<lparr>ext := w, trace := trace s @ [TxSubmit tx, AwaitReceipt h]\<rparr> \<and>
           carries cfg env address fn n g args tx"
  using assms
  by (cases rule: write_transaction_with_receipt_cases[of cfg env address key fn n g args s]) auto

lemma release_chunk_body_row:
  assumes "release_chunk_body cfg env begin_block b e s = (Ret None, t)"
  shows "\<exists>row. trace t = trace s @ rows_traffic [row] \<and> released_rows env s t [row]"
proof (cases "release_counter s mod check_receipt_every s = 0 \<or> force_tx s")
  case plain: False
  let ?s1 = "s\<lparr>release_counter := release_counter s + 1\<rparr>"
  from assms plain obtain h u where
    w: "write_release cfg env (eg_nonce s) (eg_gas s) (release_args b e) ?s1 = (Ret h, u)"
    and t: "t = u\<lparr>eg_nonce := eg_nonce u + 1\<rparr>"
    by (auto simp: release_chunk_body_def M_simps elim!: bindM_RetE)
  from write_transaction_Ret[OF w] obtain x tx where
    "u = ?s1\<lparr>ext := x, trace := trace ?s1 @ [TxSubmit tx]\<rparr>" "to_wei_gwei env (eg_gas s) = Inr (tx_gas_price tx)"
    by (auto simp: carries_def)
  with t plain show ?thesis
    by (intro exI[of _ "(tx, None)"]) (simp add: released_rows_def release_row_def rows_traffic_def)
next
  case receipt: True
  let ?s1 = "s\<lparr>release_counter := release_counter s + 1\<rparr>"
  let ?after = "\<lambda>receipt. bindM (liftM (json_item ''status'' receipt)) (\<lambda>status.
        if \<not> json_is_one status
        then
          bindM (liftM (web3_to_json env receipt)) (\<lambda>extra.
          thenM (eg_notify cfg (eg_issue cfg b ''EpochReleaseTxnFailed'' extra))
          (bindM (recover cfg env begin_block) (\<lambda>b'.
           thenM (modifyM (\<lambda>s. s\<lparr>force_tx := True\<rparr>)) (returnM (Some b')))))
        else
          thenM (modifyM (\<lambda>s. s\<lparr>force_tx := False\<rparr>))
          (thenM (modifyM (\<lambda>s. s\<lparr>eg_nonce := eg_nonce s + 1\<rparr>)) (returnM None)))"
  from assms receipt have "bindM (write_release_receipt cfg env (eg_nonce s) (current_gas s) (release_args b e))
      (\<lambda>(h, receipt). ?after receipt) ?s1 = (Ret None, t)"
    by (simp add: release_chunk_body_def M_simps)
  then obtain hr u where
    w: "write_release_receipt cfg env (eg_nonce s) (current_gas s) (release_args b e) ?s1 = (Ret hr, u)"
    and a: "(case hr of (h, receipt) \<Rightarrow> ?after receipt) u = (Ret None, t)"
    by (rule bindM_RetE)
  from a have t: "t = u\<lparr>force_tx := False, eg_nonce := eg_nonce u + 1\<rparr>"
    by (cases hr; cases "json_item ''status'' (snd hr)"; cases "web3_to_json env (snd hr)")
       (auto simp: M_simps fail_tail_leaves split: if_splits)
  from write_transaction_with_receipt_Ret[OF w] obtain x tx h where
    "u = ?s1\<lparr>ext := x, trace := trace ?s1 @ [TxSubmit tx, AwaitReceipt h]\<rparr>"
    "to_wei_gwei env (current_gas s) = Inr (tx_gas_price tx)"
    by (auto simp: carries_def)
  with t receipt show ?thesis
    by (intro exI[of _ "(tx, Some h)"])
       (auto simp: released_rows_def release_row_def rows_traffic_def current_gas_def)
qed

text \<open>A chunk never hangs: its transaction, its report and the recovery all end.\<close>

lemma bindM_ends: "fst (m s) \<noteq> Pending \<Longrightarrow> (\<And>a t. fst (f a t) \<noteq> Pending) \<Longrightarrow> fst (bindM m f s) \<noteq> Pending"
  by (auto simp: bindM_def split: prod.split res.split)

lemma thenM_ends: "fst (m s) \<noteq> Pending \<Longrightarrow> (\<And>t. fst (n t) \<noteq> Pending) \<Longrightarrow> fst (thenM m n s) \<noteq> Pending"
  by (simp add: thenM_def bindM_ends)

lemma branch_ends:
  "fst (m s) \<noteq> Pending \<Longrightarrow> fst (n s) \<noteq> Pending \<Longrightarrow> fst ((if c then m else n) s) \<noteq> Pending"
  "(\<And>a b. fst (f a b s) \<noteq> Pending) \<Longrightarrow> fst ((case x of (a, b) \<Rightarrow> f a b) s) \<noteq> Pending"
  by (simp_all split: prod.split)

lemma leaf_ends:
  "fst (returnM a s) \<noteq> Pending" "fst (liftM x s) \<noteq> Pending" "fst (modifyM f s) \<noteq> Pending"
  "fst (getsM g s) \<noteq> Pending" "fst (extM h w) \<noteq> Pending" "fst (timeSleepM env n w) \<noteq> Pending"
  by (simp_all add: returnM_def liftM_def modifyM_def getsM_def extM_def timeSleepM_def callM_def emitM_def
      thenM_def bindM_def split: sum.split prod.split)

lemma notify_ends: "fst (eg_notify cfg message s) \<noteq> Pending"
  by (cases "eg_client s")
     (simp_all add: eg_notify_def M_step send_failure_notifications_client send_failure_notifications_no_client)

lemma recover_ends:
  assumes "tenacity (retry_fetch env)"
  shows "fst (recover cfg env b s) \<noteq> Pending"
proof -
  have "fst (fetch_epoch_attempt env s) \<noteq> Pending" for s
    unfolding fetch_epoch_attempt_def by (intro bindM_ends leaf_ends) (simp add: leaf_ends)
  then have "fst (fetch_epoch_from_contract cfg env s) \<noteq> Pending" for s
    unfolding fetch_epoch_from_contract_def
    by (intro tenacity_ends[where f = "\<lambda>_. fetch_epoch_attempt env", OF assms] leaf_ends)
  then show ?thesis
    unfolding recover_def by (intro bindM_ends thenM_ends leaf_ends)
qed

lemma release_chunk_ends:
  assumes "tenacity (retry_fetch env)"
  shows "fst (release_chunk cfg env begin_block b e s) \<noteq> Pending"
proof -
  have tail: "fst (thenM (eg_notify cfg message) (bindM (recover cfg env begin_block) (\<lambda>b'.
      thenM (modifyM (\<lambda>s. s\<lparr>force_tx := True\<rparr>)) (returnM (Some b')))) s) \<noteq> Pending" for message s
    by (intro bindM_ends thenM_ends leaf_ends notify_ends recover_ends[OF assms])
  have "fst (release_chunk_body cfg env begin_block b e s) \<noteq> Pending"
    unfolding release_chunk_body_def
    by (intro bindM_ends thenM_ends branch_ends leaf_ends wt.write_returns wr.write_returns tail)
  then show ?thesis
    using tail by (auto simp: release_chunk_def release_chunk_handler_def tryM_def try_elseM_def returnM_def
        split: prod.split res.split)
qed

lemma receipts_chunk:
  assumes "tenacity (retry_fetch env)"
  shows "endsM (receipts env) (release_chunk cfg env begin_block b e)"
  unfolding endsM_def
proof (intro allI impI)
  fix s r t
  assume run: "release_chunk cfg env begin_block b e s = (r, t)" and r: "\<forall>e. r \<noteq> Raise e"
  from release_chunk_ends[OF assms] run have "r \<noteq> Pending" by (metis fst_conv)
  with r obtain x where x: "r = Ret x" by (cases r) auto
  show "receipts env s t"
  proof (cases x)
    case None
    with run x have "release_chunk_body cfg env begin_block b e s = (Ret None, t)"
      by (simp add: release_chunk_body_of_Ret)
    from release_chunk_body_row[OF this] obtain row where
      "trace t = trace s @ rows_traffic [row]" "released_rows env s t [row]" by blast
    then show ?thesis unfolding receipts_def using rows_traffic_pure by blast
  next
    case (Some b')
    from release_chunk_effect[OF assms run] obtain evs where "chunk_effect cfg env b e s r t evs" ..
    with x Some show ?thesis by (auto simp: receipts_def chunk_effect_def)
  qed
qed

section \<open>The loop\<close>

lemma not_traffic: "is_rpc_post ev \<Longrightarrow> \<not> tx_traffic ev"
  by (cases ev) auto

lemma receipts_blocknumber: "keepsM (receipts env) (rpc_eth_blocknumber fuel cfg env' nodes)"
proof (rule keepsMI)
  fix s :: "'a epoch_generator" and r t
  assume "rpc_eth_blocknumber fuel cfg env' nodes s = (r, t)"
  then obtain w evs q where "t = s\<lparr>ext := w, trace := trace s @ evs, querystring := q\<rparr>" "list_all is_rpc_post evs"
    by (rule blocknumber_effect)
  then show "receipts env s t"
    by (intro receipts_quiet[where n = "eg_nonce s" and c = "eg_client s" and q = q and w = w and evs = evs])
       (auto simp: list_all_iff not_traffic)
qed

lemma receipts_sleep: "keepsM (receipts env) (asyncSleepM env' n)"
  by (rule receipts_logs) (simp add: logging)

lemma receipts_chunks:
  assumes "tenacity (retry_fetch env)"
  shows "endsM (receipts env) (release_chunks cfg env secs begin_block cs)"
proof (induction cs)
  case (Cons c cs)
  obtain b e i where c: "c = (b, e, i)" by (cases c)
  show ?case
    unfolding c release_chunks.simps
    by (intro receipts.ends_rules receipts_chunk[OF assms] Cons ends_of_keeps[OF receipts_sleep])
qed (simp add: receipts.ends_rules)

lemma receipts_loop:
  assumes "tenacity (retry_fetch env)"
  shows "endsM (receipts env) (eg_loop fuel rounds cfg env b)"
proof -
  have "endsM (receipts env) (eg_round fuel cfg env b)" for b
    unfolding eg_round_def Let_def
    by (intro receipts.ends_try_else receipts_blocknumber receipts.ends_rules receipts_chunks[OF assms]
        ends_of_keeps[OF receipts_sleep])
  then show ?thesis
    unfolding eg_loop_def by (intro receipts.ends_rules)
qed

lemma receipts_run:
  assumes "tenacity (retry_fetch env)" and "epoch_release_start_timestamp cfg = 0"
  shows "endsM (receipts env) (eg_run fuel rounds cfg env)"
proof -
  have "keepsM (receipts env) (eg_setup cfg env)"
    unfolding eg_setup_def init_httpx_client_def
    by (intro receipts.keeps_rules receipts.keeps_ext receipts_modify) simp_all
  moreover have "keepsM (receipts env) (fetch_epoch_from_contract cfg env)"
    by (rule receipts_logs) (rule logs_fetch_epoch_from_contract[OF assms(1)])
  moreover have "keepsM (receipts env) (forM ns (\<lambda>n. emitM (SignalInstall n)))" for ns
    by (rule receipts_logs) (intro logging, simp)
  moreover have "keepsM (receipts env) (modifyM (\<lambda>s. s\<lparr>querystring := q\<rparr>))" for q
    by (rule receipts_modify) simp
  ultimately show ?thesis
    unfolding eg_run_def Let_def assms(2)
    by (simp del: forM.simps) (intro receipts.ends_rules receipts_loop[OF assms(1)]; rule ends_of_keeps; assumption)
qed

text \<open>
  C27: a generator that starts with the release loop waits for the receipt of its first release and
  of every tenth one after it, and of no other, for as long as no failure makes it pause; all of
  them pay the normal gas price. And wherever the loop goes on with a forced release, as after a
  failure, it waits for the receipt of that one and pays the high gas price for it; the releases after
  it pay the normal price and are checked when the count of releases is at a multiple of
  \<^verbatim>\<open>_check_receipt_every\<close>.
\<close>

theorem eg_run_receipts:
  assumes "tenacity (retry_fetch env)" and "epoch_release_start_timestamp cfg = 0"
    and "eg_run fuel rounds cfg env (epoch_generator_init cfg w) = (r, t)" and "\<And>e. r \<noteq> Raise e"
    and "BlockingSleep 30 \<notin> set (trace t)"
  shows "(\<exists>rows. filter tx_traffic (trace t) = rows_traffic rows \<and>
       (\<forall>i < length rows. (snd (rows ! i) \<noteq> None \<longleftrightarrow> i mod 10 = 0) \<and>
          to_wei_gwei env (default_gas_in_gwei (st_anchor_chain cfg)) = Inr (tx_gas_price (fst (rows ! i))))) \<and>
     (\<forall>s b n x u. eg_loop fuel n cfg env b s = (x, u) \<and> (\<forall>e. x \<noteq> Raise e) \<and> force_tx s \<longrightarrow>
       (\<exists>evs. trace u = trace s @ evs \<and> (BlockingSleep 30 \<notin> set evs \<longrightarrow>
          (\<exists>rows. filter tx_traffic evs = rows_traffic rows \<and>
            (\<forall>i < length rows.
              (snd (rows ! i) \<noteq> None \<longleftrightarrow> i = 0 \<or> (release_counter s + int i) mod check_receipt_every s = 0) \<and>
              to_wei_gwei env (if i = 0 then eg_high_gas s else eg_gas s) = Inr (tx_gas_price (fst (rows ! i))))))))"
proof (intro conjI allI impI)
  let ?s = "epoch_generator_init cfg w"
  have "receipts env ?s t"
    using endsMD[OF receipts_run[OF assms(1,2)] assms(3)] assms(4) by blast
  with assms(5) obtain rows where rows: "filter tx_traffic (trace t) = rows_traffic rows" "released_rows env ?s t rows"
    by (auto simp: receipts_def epoch_generator_init_def)
  have "(snd (rows ! i) \<noteq> None \<longleftrightarrow> i mod 10 = 0) \<and>
      to_wei_gwei env (default_gas_in_gwei (st_anchor_chain cfg)) = Inr (tx_gas_price (fst (rows ! i)))"
    if "i < length rows" for i
  proof -
    from rows(2) that have "release_row env ?s i (rows ! i)" by (simp add: released_rows_def)
    moreover have "int i mod 10 = 0 \<longleftrightarrow> i mod 10 = 0" by presburger
    ultimately show ?thesis by (simp add: release_row_def epoch_generator_init_def)
  qed
  with rows(1) show "\<exists>rows. filter tx_traffic (trace t) = rows_traffic rows \<and>
       (\<forall>i < length rows. (snd (rows ! i) \<noteq> None \<longleftrightarrow> i mod 10 = 0) \<and>
          to_wei_gwei env (default_gas_in_gwei (st_anchor_chain cfg)) = Inr (tx_gas_price (fst (rows ! i))))"
    by blast
next
  fix s b n x u
  assume run: "eg_loop fuel n cfg env b s = (x, u) \<and> (\<forall>e. x \<noteq> Raise e) \<and> force_tx s"
  then have "receipts env s u" using endsMD[OF receipts_loop[OF assms(1)]] by blast
  then obtain evs where evs: "trace u = trace s @ evs"
    "BlockingSleep 30 \<notin> set evs \<Longrightarrow> \<exists>rows. filter tx_traffic evs = rows_traffic rows \<and> released_rows env s u rows"
    unfolding receipts_def by blast
  show "\<exists>evs. trace u = trace s @ evs \<and> (BlockingSleep 30 \<notin> set evs \<longrightarrow>
      (\<exists>rows. filter tx_traffic evs = rows_traffic rows \<and>
         (\<forall>i < length rows.
            (snd (rows ! i) \<noteq> None \<longleftrightarrow> i = 0 \<or> (release_counter s + int i) mod check_receipt_every s = 0) \<and>
            to_wei_gwei env (if i = 0 then eg_high_gas s else eg_gas s) = Inr (tx_gas_price (fst (rows ! i))))))"
  proof (intro exI[of _ evs] conjI impI evs(1))
    assume "BlockingSleep 30 \<notin> set evs"
    from evs(2)[OF this] obtain rows where
      rows: "filter tx_traffic evs = rows_traffic rows" "released_rows env s u rows" by blast
    then have "\<forall>i < length rows. release_row env s i (rows ! i)" by (simp add: released_rows_def)
    with rows(1) run show "\<exists>rows. filter tx_traffic evs = rows_traffic rows \<and>
         (\<forall>i < length rows.
            (snd (rows ! i) \<noteq> None \<longleftrightarrow> i = 0 \<or> (release_counter s + int i) mod check_receipt_every s = 0) \<and>
            to_wei_gwei env (if i = 0 then eg_high_gas s else eg_gas s) = Inr (tx_gas_price (fst (rows ! i))))"
      by (intro exI[of _ rows]) (auto simp: release_row_def)
  qed
qed

section \<open>Witness\<close>

lemma submitted_rows: "submitted (rows_traffic rows) = map fst rows"
  by (induction rows) (auto simp: rows_traffic_def split: option.split)

lemma submitted_traffic: "submitted (filter tx_traffic evs) = submitted evs"
  by (induction evs rule: submitted.induct) auto

lemma resuming_simps:
  "tenacity (retry_fetch resuming)" "healthy resuming" "get_transaction_count resuming a w = (Inr 7, w)"
  "current_epoch_call resuming w = (Inr [91, 100, 10], w)"
  "requests_post_json resuming u q n w = (Inr (JObj [(''result'', JStr (hex_str 130))]), w)"
  by (simp_all add: resuming_def healthy_def accepts_def chain_env_def answering_def basic_env_def env.defs
      eg_env.defs plain_retry_tenacity)

text \<open>The first two releases of the example: one with its receipt, one without.\<close>

theorem eg_run_receipts_witness:
  "\<exists>t tx0 h tx1. eg_run 9 1 example_settings resuming (epoch_generator_init example_settings ()) = (Pending, t) \<and>
     filter tx_traffic (trace t) = [TxSubmit tx0, AwaitReceipt h, TxSubmit tx1] \<and>
     tx_gas_price tx0 = 100000 \<and> tx_gas_price tx1 = 100000"
proof -
  let ?s = "epoch_generator_init example_settings ()"
  let ?s3 = "?s\<lparr>eg_nonce := 7, eg_client := True, ext := (),
     trace := trace ?s @ map SignalInstall [''SIGINT'', ''SIGTERM'', ''SIGQUIT''],
     querystring := construct_rpc_init (source_chain_id (st_chain example_settings))\<rparr>"
  obtain u where head: "rpc_eth_blocknumber 9 example_settings resuming (rpc_nodes_of example_settings) ?s3 = (Ret 130, u)"
    using first_node_answers[of "rpc_nodes_of example_settings" "''https://rpc-url''" "[]" 9
      resuming example_settings "[(''result'', JStr (hex_str 130))]" id 130 ?s3]
    by (auto simp: rpc_nodes_of_def example_settings_def example_rpc_def resuming_simps)
  from eg_round_goes_on[OF _ resuming_simps(1) _ resuming_simps(2) head, of 101] obtain b' t evs where
    round: "eg_round 9 example_settings resuming 101 ?s3 = (Ret b', t)" "trace t = trace ?s3 @ evs"
    and quiet: "BlockingSleep 30 \<notin> set evs" by auto
  from eg_round_healthy[OF _ resuming_simps(1) _ _ resuming_simps(2) head, of 101] round
  have "sent evs = epochs_from 10 101 7 2" by (auto simp: Let_def epoch_generator_init_def)
  from arg_cong[OF this, of length] have two: "length (submitted evs) = 2"
    by (simp add: sent_def epochs_from_def)
  have run: "eg_run 9 1 example_settings resuming ?s = (Pending, t)"
    using eg_run_starts[where s = ?s and cfg = example_settings and env = resuming, OF resuming_simps(1,3,4)] round(1)
    by (simp add: eg_loop_def bindM_def returnM_def pendingM_def)
  have trace: "trace t = map SignalInstall [''SIGINT'', ''SIGTERM'', ''SIGQUIT''] @ evs"
    using round(2) by (simp add: epoch_generator_init_def)
  have "epoch_release_start_timestamp example_settings = 0" by (simp add: example_settings_def)
  from eg_run_receipts[OF resuming_simps(1) this run] quiet obtain rows where
    rows: "filter tx_traffic (trace t) = rows_traffic rows"
    "\<forall>i < length rows. (snd (rows ! i) \<noteq> None \<longleftrightarrow> i mod 10 = 0) \<and>
       to_wei_gwei resuming (default_gas_in_gwei (st_anchor_chain example_settings)) = Inr (tx_gas_price (fst (rows ! i)))"
    by (auto simp: trace)
  have "submitted evs = map fst rows"
    using arg_cong[OF rows(1), of submitted] by (simp add: submitted_rows submitted_traffic trace)
  with two have "length rows = 2" by simp
  then obtain row0 row1 where "rows = [row0, row1]"
    by (auto simp: numeral_2_eq_2 length_Suc_conv)
  moreover obtain tx0 r0 tx1 r1 where "row0 = (tx0, r0)" "row1 = (tx1, r1)" by (cases row0, cases row1)
  moreover have "to_wei_gwei resuming (default_gas_in_gwei (st_anchor_chain example_settings)) = Inr 100000"
    by (simp add: resuming_def chain_env_def answering_def basic_env_def env.defs example_settings_def)
  ultimately have "r0 \<noteq> None" "r1 = None" "tx_gas_price tx0 = 100000" "tx_gas_price tx1 = 100000"
    using rows(2)[rule_format, of 0] rows(2)[rule_format, of 1] by auto
  moreover from this(1) obtain h where "r0 = Some h" by blast
  ultimately show ?thesis
    using rows(1) run \<open>rows = [row0, row1]\<close> \<open>row0 = (tx0, r0)\<close> \<open>row1 = (tx1, r1)\<close>
    by (intro exI[of _ t] exI[of _ tx0] exI[of _ h] exI[of _ tx1]) (simp add: rows_traffic_def)
qed

end
