(* ===== verification/Rate_Limiter.thy ===== *)
theory Rate_Limiter
  imports Environment
begin

text \<open>
  \<^verbatim>\<open>utils/rate_limiter.py\<close>: the check of a node's rate limits before each call. The package
  async_limits and the Redis server behind it are parameters: what a hit on a limit answers,
  and the window statistics. An item of the package is represented by its text, \<^verbatim>\<open>str(item)\<close>.
\<close>

section \<open>The code\<close>

type_synonym script_shas = "(string \<times> string) list"

record 'w limiter_env = "'w env" +
  script_load :: "string \<Rightarrow> 'w \<Rightarrow> (exn + string) \<times> 'w"
  limiter_hit :: "script_shas \<Rightarrow> string \<Rightarrow> int \<Rightarrow> string list \<Rightarrow> 'w \<Rightarrow> (exn + bool) \<times> 'w"
  limiter_window_stats :: "script_shas \<Rightarrow> string \<Rightarrow> string list \<Rightarrow> 'w \<Rightarrow> (exn + int \<times> int) \<times> 'w"

text \<open>The Lua sources are named by the constants of the file.\<close>

definition load_rate_limiter_scripts ::
  "('w, 'e) limiter_env_scheme \<Rightarrow> (('w, 'z) world_scheme, script_shas) M" where
  "load_rate_limiter_scripts env =
     bindM (callM (ScriptLoad ''SCRIPT_CLEAR_KEYS'') (script_load env ''SCRIPT_CLEAR_KEYS'')) (\<lambda>clear_keys.
     bindM (callM (ScriptLoad ''SCRIPT_INCR_EXPIRE'') (script_load env ''SCRIPT_INCR_EXPIRE'')) (\<lambda>incr_expire.
     returnM [(''script_incr_expire'', incr_expire), (''script_clear_keys'', clear_keys)]))"

fun is_redis_error :: "exn \<Rightarrow> bool" where
  "is_redis_error (Exn RedisConnectionError m) = True"
| "is_redis_error (Exn RedisTimeoutError m) = True"
| "is_redis_error (Exn RedisResponseError m) = True"
| "is_redis_error e = False"

text \<open>One limit: \<open>None\<close> when it is not violated, otherwise the seconds to wait.\<close>

definition hit_limit ::
  "('w, 'e) limiter_env_scheme \<Rightarrow> script_shas \<Rightarrow> string list \<Rightarrow> int \<Rightarrow> string \<Rightarrow>
     (('w, 'z) world_scheme, int option) M" where
  "hit_limit env shas key_bits incr each_lim =
     try_elseM is_redis_error
       (bindM (callM (RateHit each_lim key_bits incr) (limiter_hit env shas each_lim incr key_bits)) (\<lambda>ok.
        if \<not> ok
        then bindM (extM (limiter_window_stats env shas each_lim key_bits)) (\<lambda>window_stats.
             bindM (nowM env) (\<lambda>t. returnM (Some (1 + fst window_stats - py_trunc t))))
        else returnM None))
       (\<lambda>exc. raiseM (Exn PyException []))
       returnM"

fun limits_loop ::
  "('w, 'e) limiter_env_scheme \<Rightarrow> script_shas \<Rightarrow> string list \<Rightarrow> int \<Rightarrow> string list \<Rightarrow>
     (('w, 'z) world_scheme, bool \<times> int \<times> string) M" where
  "limits_loop env shas key_bits incr [] = returnM (True, 0, [])"
| "limits_loop env shas key_bits incr (each_lim # limits) =
     bindM (hit_limit env shas key_bits incr each_lim) (\<lambda>r.
     case r of
       Some retry_after \<Rightarrow> returnM (False, retry_after, each_lim)
     | None \<Rightarrow> limits_loop env shas key_bits incr limits)"

definition generic_rate_limiter ::
  "('w, 'e) limiter_env_scheme \<Rightarrow> string list \<Rightarrow> string list \<Rightarrow> script_shas option \<Rightarrow> int \<Rightarrow>
     (('w, 'z) world_scheme, bool \<times> int \<times> string) M" where
  "generic_rate_limiter env parsed_limits key_bits shas incr =
     bindM (case shas of
              Some (sha # rest) \<Rightarrow> returnM (sha # rest)
            | _ \<Rightarrow> load_rate_limiter_scripts env) (\<lambda>shas.
     limits_loop env shas key_bits incr parsed_limits)"

definition check_rpc_rate_limit ::
  "('w, 'e) limiter_env_scheme \<Rightarrow> string list \<Rightarrow> string \<Rightarrow> json \<Rightarrow> json \<Rightarrow> script_shas option \<Rightarrow> int \<Rightarrow>
     (('w, 'z) world_scheme, bool) M" where
  "check_rpc_rate_limit env parsed_limits app_id request_payload error_msg shas incr =
     bindM (tryM (generic_rate_limiter env parsed_limits [app_id, ''eth_call''] shas incr) raiseM)
       (\<lambda>(can_request, retry_after, violated_limit).
     if \<not> can_request then raiseM (RPCException request_payload (JObj []) NoCause error_msg)
     else returnM can_request)"

section \<open>What a check logs\<close>

fun is_limiter_call :: "event \<Rightarrow> bool" where
  "is_limiter_call (RateHit each_lim key_bits incr) = True"
| "is_limiter_call (ScriptLoad n) = True"
| "is_limiter_call ev = False"

lemma logs_hit_limit [logging]:
  "P (RateHit each_lim key_bits incr) \<Longrightarrow> keepsM (logs P) (hit_limit env shas key_bits incr each_lim)"
  unfolding hit_limit_def by (intro logging)

lemma logs_limits_loop [logging]:
  "(\<And>each_lim. P (RateHit each_lim key_bits incr)) \<Longrightarrow>
     keepsM (logs P) (limits_loop env shas key_bits incr limits)"
proof (induction limits)
  case (Cons each_lim limits)
  then show ?case unfolding limits_loop.simps by (intro logging) simp_all
qed (simp add: logging)

lemma logs_load_scripts [logging]:
  "(\<And>n. P (ScriptLoad n)) \<Longrightarrow> keepsM (logs P) (load_rate_limiter_scripts env)"
  unfolding load_rate_limiter_scripts_def by (intro logging)

lemma logs_generic_rate_limiter [logging]:
  assumes "\<And>each_lim. P (RateHit each_lim key_bits incr)" and "\<And>n. P (ScriptLoad n)"
  shows "keepsM (logs P) (generic_rate_limiter env limits key_bits shas incr)"
  unfolding generic_rate_limiter_def
  by (intro logging assms) (auto split: option.split list.split intro!: logging assms)

lemma logs_check_rpc_rate_limit [logging]:
  assumes "\<And>each_lim. P (RateHit each_lim [app_id, ''eth_call''] incr)" and "\<And>n. P (ScriptLoad n)"
  shows "keepsM (logs P) (check_rpc_rate_limit env limits app_id req msg shas incr)"
  unfolding check_rpc_rate_limit_def by (intro logging assms)

section \<open>The outcome of a check\<close>

text \<open>The state of the environment after every limit in turn was hit and allowed.\<close>

fun hits_allowed ::
  "('w, 'e) limiter_env_scheme \<Rightarrow> script_shas \<Rightarrow> string list \<Rightarrow> int \<Rightarrow> string list \<Rightarrow> 'w \<Rightarrow> 'w option" where
  "hits_allowed env shas key_bits incr [] w = Some w"
| "hits_allowed env shas key_bits incr (each_lim # limits) w =
     (case limiter_hit env shas each_lim incr key_bits w of
        (Inr True, w') \<Rightarrow> hits_allowed env shas key_bits incr limits w'
      | _ \<Rightarrow> None)"

lemma hit_limit_allowed:
  assumes "limiter_hit env shas each_lim incr key_bits (ext s) = (Inr True, w)"
  shows "hit_limit env shas key_bits incr each_lim s =
           (Ret None, s\<lparr>ext := w, trace := trace s @ [RateHit each_lim key_bits incr]\<rparr>)"
  using assms by (simp add: hit_limit_def M_defs)

lemma limits_loop_allowed:
  assumes "hits_allowed env shas key_bits incr limits (ext s) = Some w"
  shows "limits_loop env shas key_bits incr (limits @ post) s =
     limits_loop env shas key_bits incr post
       (s\<lparr>ext := w, trace := trace s @ map (\<lambda>l. RateHit l key_bits incr) limits\<rparr>)"
  using assms
proof (induction limits arbitrary: s)
  case Nil
  then show ?case by auto
next
  case (Cons l limits)
  from Cons.prems obtain w' where
    hit: "limiter_hit env shas l incr key_bits (ext s) = (Inr True, w')"
    and rest: "hits_allowed env shas key_bits incr limits w' = Some w"
    by (auto split: prod.splits sum.splits bool.splits)
  from Cons.IH[of "s\<lparr>ext := w', trace := trace s @ [RateHit l key_bits incr]\<rparr>"] rest
  show ?case by (simp add: hit_limit_allowed[OF hit] bindM_Ret)
qed

lemma generic_with_shas:
  "generic_rate_limiter env limits key_bits (Some (sha # shas)) incr s =
     limits_loop env (sha # shas) key_bits incr limits s"
  by (simp add: generic_rate_limiter_def M_simps)

text \<open>
  A call is let through when every rate limit of its node allows it: each limit is hit
  once, in order, with the call's cost.
\<close>

theorem check_rpc_rate_limit_passes:
  assumes "hits_allowed env (sha # shas) [app_id, ''eth_call''] incr limits (ext s) = Some w"
  shows "check_rpc_rate_limit env limits app_id req msg (Some (sha # shas)) incr s =
     (Ret True, s\<lparr>ext := w, trace := trace s @
        map (\<lambda>l. RateHit l [app_id, ''eth_call''] incr) limits\<rparr>)"
  using limits_loop_allowed[OF assms, of "[]"]
  by (simp add: check_rpc_rate_limit_def generic_with_shas M_simps)

text \<open>
  C25: the check stops at the first limit that does not allow the call. A violated limit raises
  \<^verbatim>\<open>RPCException\<close> with the request and the caller's message, so that the call moves on to the
  next node; a failure of Redis raises a bare \<^verbatim>\<open>Exception\<close>: the rate limit check is not
  bypassed, whatever the log line says, and the call is given up. The limits after the first
  violated one are not charged.
\<close>

theorem check_rpc_rate_limit_stops:
  assumes "hits_allowed env (sha # shas) [app_id, ''eth_call''] incr pre (ext s) = Some w"
    and "limiter_hit env (sha # shas) l incr [app_id, ''eth_call''] w = (answer, w1)"
    and "answer = Inr False \<and>
           (\<exists>stats t. limiter_window_stats env (sha # shas) l [app_id, ''eth_call''] w1 = (Inr stats, w2) \<and>
              time_time env w2 = (Inr t, w3)) \<or>
         (\<exists>e. answer = Inl e \<and> is_redis_error e \<and> w3 = w1)"
  shows "check_rpc_rate_limit env (pre @ l # post) app_id req msg (Some (sha # shas)) incr s =
     (Raise (if answer = Inr False then RPCException req (JObj []) NoCause msg else Exn PyException []),
      s\<lparr>ext := w3, trace := trace s @
          map (\<lambda>l. RateHit l [app_id, ''eth_call''] incr) (pre @ [l])\<rparr>)"
proof -
  let ?kb = "[app_id, ''eth_call'']"
  let ?u = "s\<lparr>ext := w, trace := trace s @ map (\<lambda>l. RateHit l ?kb incr) pre\<rparr>"
  let ?t = "s\<lparr>ext := w3, trace := trace s @ map (\<lambda>l. RateHit l ?kb incr) (pre @ [l])\<rparr>"
  from assms(3) consider
    (violated) stats t where "answer = Inr False"
      "limiter_window_stats env (sha # shas) l ?kb w1 = (Inr stats, w2)" "time_time env w2 = (Inr t, w3)"
    | (down) e where "answer = Inl e" "is_redis_error e" "w3 = w1" by blast
  then show ?thesis
  proof cases
    case violated
    then have "hit_limit env (sha # shas) ?kb incr l ?u = (Ret (Some (1 + fst stats - py_trunc t)), ?t)"
      using assms(2) by (simp add: hit_limit_def nowM_def M_defs)
    with limits_loop_allowed[OF assms(1), of "l # post"] violated show ?thesis
      by (simp add: check_rpc_rate_limit_def generic_with_shas M_simps)
  next
    case down
    then have "hit_limit env (sha # shas) ?kb incr l ?u = (Raise (Exn PyException []), ?t)"
      using assms(2) by (simp add: hit_limit_def M_defs)
    with limits_loop_allowed[OF assms(1), of "l # post"] down show ?thesis
      by (simp add: check_rpc_rate_limit_def generic_with_shas M_simps)
  qed
qed

text \<open>An example: a window with the hits counted per limit, 300 of them allowed.\<close>

definition window_env :: "(string \<Rightarrow> int) limiter_env" where
  "window_env = env.extend basic_env (limiter_env.fields
     (\<lambda>script w. (Inr ''sha'', w))
     (\<lambda>shas l incr key w. (Inr (w l + incr \<le> 300), w(l := w l + incr)))
     (\<lambda>shas l key w. (Inr (1060, 300 - w l), w)))"

theorem check_rpc_rate_limit_passes_witness:
  "fst (check_rpc_rate_limit window_env [''300 per 1 minute'', ''300 per 1 day''] ''node'' JNull JNull
     (Some [(''s'', ''sha'')]) 20 \<lparr>ext = (\<lambda>l. 280), trace = []\<rparr>) = Ret True"
  using check_rpc_rate_limit_passes[of window_env "(''s'', ''sha'')" "[]" "''node''" 20
      "[''300 per 1 minute'', ''300 per 1 day'']" "\<lparr>ext = (\<lambda>l. 280), trace = []\<rparr>"
      "(\<lambda>l. 280)(''300 per 1 minute'' := 300, ''300 per 1 day'' := 300)" JNull JNull]
  by (simp add: window_env_def env.defs limiter_env.defs)

theorem check_rpc_rate_limit_stops_witness:
  "fst (check_rpc_rate_limit window_env [''300 per 1 minute'', ''300 per 1 day''] ''node'' JNull JNull
     (Some [(''s'', ''sha'')]) 20 \<lparr>ext = (\<lambda>l. 290), trace = []\<rparr>) =
     Raise (RPCException JNull (JObj []) NoCause JNull)"
  using check_rpc_rate_limit_stops[of window_env "(''s'', ''sha'')" "[]" "''node''" 20 "[]"
      "\<lparr>ext = (\<lambda>l. 290), trace = []\<rparr>" "\<lambda>l. 290" "''300 per 1 minute''" "Inr False"
      "(\<lambda>l. 290)(''300 per 1 minute'' := 310)" "(\<lambda>l. 290)(''300 per 1 minute'' := 310)"
      "(\<lambda>l. 290)(''300 per 1 minute'' := 310)" "[''300 per 1 day'']" JNull JNull]
  by (simp add: window_env_def basic_env_def env.defs limiter_env.defs)

end
