(* ===== verification/Rpc_Abi.thy ===== *)
theory Rpc_Abi
  imports Py_Strings "HOL-Library.AList"
begin

text \<open>
  The ABI helpers at the top of \<^verbatim>\<open>rpc.py\<close>. The hash \<^verbatim>\<open>keccak\<close> and the encoder of the package
  eth_abi are parameters. A Python dictionary is an association list with its keys in insertion
  order; \<^verbatim>\<open>d[k] = v\<close> is \<open>AList.update\<close>.
\<close>

section \<open>The code\<close>

text \<open>\<^verbatim>\<open>[x[key] for x in v]\<close> for a decoded JSON list \<open>v\<close>.\<close>

fun collect_items :: "string \<Rightarrow> json list \<Rightarrow> exn + json list" where
  "collect_items key [] = Inr []"
| "collect_items key (j # js) =
     (case json_item key j of
        Inl e \<Rightarrow> Inl e
      | Inr v \<Rightarrow> (case collect_items key js of Inl e \<Rightarrow> Inl e | Inr vs \<Rightarrow> Inr (v # vs)))"

fun json_iter :: "json \<Rightarrow> exn + json list" where
  "json_iter (JList xs) = Inr xs"
| "json_iter (JObj kvs) = Inr (map (\<lambda>(k, v). JStr k) kvs)"
| "json_iter (JStr s) = Inr (map (\<lambda>c. JStr [c]) s)"
| "json_iter j = Inl (Exn TypeError ''object is not iterable'')"

definition json_types :: "string \<Rightarrow> json \<Rightarrow> exn + json list" where
  "json_types key abi_obj =
     (case json_item key abi_obj of
        Inl e \<Rightarrow> Inl e
      | Inr v \<Rightarrow> (case json_iter v of Inl e \<Rightarrow> Inl e | Inr js \<Rightarrow> collect_items ''type'' js))"

text \<open>\<^verbatim>\<open>','.join(xs)\<close>; every item must be a string.\<close>

fun as_strings :: "json list \<Rightarrow> exn + string list" where
  "as_strings [] = Inr []"
| "as_strings (JStr s # js) = (case as_strings js of Inl e \<Rightarrow> Inl e | Inr ss \<Rightarrow> Inr (s # ss))"
| "as_strings (j # js) = Inl (Exn TypeError ''sequence item: expected str instance'')"

record abi_entry =
  abi_signature :: string
  abi_output :: "json list"
  abi_input :: "json list"
  abi_abi :: json

text \<open>One turn of the loop over the functions of an ABI; the name of a function is a string.\<close>

definition abi_dict_entry :: "json \<Rightarrow> exn + (string \<times> abi_entry)" where
  "abi_dict_entry abi_obj =
     (case json_item ''name'' abi_obj of
        Inl e \<Rightarrow> Inl e
      | Inr (JStr name) \<Rightarrow>
          (case json_types ''inputs'' abi_obj of
             Inl e \<Rightarrow> Inl e
           | Inr input_types \<Rightarrow>
               (case json_types ''outputs'' abi_obj of
                  Inl e \<Rightarrow> Inl e
                | Inr output_types \<Rightarrow>
                    (case as_strings input_types of
                       Inl e \<Rightarrow> Inl e
                     | Inr types \<Rightarrow>
                         Inr (name, \<lparr>abi_signature = name @ ''('' @ sep_concat '','' types @ '')'',
                              abi_output = output_types, abi_input = input_types,
                              abi_abi = abi_obj\<rparr>))))
      | Inr j \<Rightarrow> Inl (Exn TypeError ''unhashable type''))"

text \<open>The comprehension that keeps the functions is evaluated first.\<close>

fun abi_functions :: "json list \<Rightarrow> exn + json list" where
  "abi_functions [] = Inr []"
| "abi_functions (obj # abi) =
     (case json_item ''type'' obj of
        Inl e \<Rightarrow> Inl e
      | Inr t \<Rightarrow> (case abi_functions abi of
                    Inl e \<Rightarrow> Inl e
                  | Inr objs \<Rightarrow> Inr (if t = JStr ''function'' then obj # objs else objs)))"

fun abi_dict_loop :: "(string \<times> abi_entry) list \<Rightarrow> json list \<Rightarrow> exn + (string \<times> abi_entry) list" where
  "abi_dict_loop d [] = Inr d"
| "abi_dict_loop d (obj # objs) =
     (case abi_dict_entry obj of
        Inl e \<Rightarrow> Inl e
      | Inr (name, entry) \<Rightarrow> abi_dict_loop (AList.update name entry d) objs)"

definition get_contract_abi_dict :: "json list \<Rightarrow> exn + (string \<times> abi_entry) list" where
  "get_contract_abi_dict abi =
     (case abi_functions abi of Inl e \<Rightarrow> Inl e | Inr objs \<Rightarrow> abi_dict_loop [] objs)"

text \<open>\<open>keccak\<close> gives the hexadecimal digits of the hash, \<open>encode_abi\<close> those of the arguments.\<close>

definition get_encoded_function_signature ::
  "(string \<Rightarrow> string) \<Rightarrow> (json list \<Rightarrow> json list \<Rightarrow> exn + string) \<Rightarrow>
     (string \<times> abi_entry) list \<Rightarrow> string \<Rightarrow> json list option \<Rightarrow> exn + string" where
  "get_encoded_function_signature keccak encode_abi abi_dict function_name params =
     (case map_of abi_dict function_name of
        None \<Rightarrow> Inl (Exn TypeError ''NoneType object is not subscriptable'')
      | Some entry \<Rightarrow>
          (let encoded_signature = ''0x'' @ take 8 (keccak (abi_signature entry))
           in case params of
                None \<Rightarrow> Inr encoded_signature
              | Some ps \<Rightarrow>
                  (if ps = [] then Inr encoded_signature
                   else case encode_abi (abi_input entry) ps of
                          Inl e \<Rightarrow> Inl e
                        | Inr args \<Rightarrow> Inr (encoded_signature @ args))))"

definition get_event_sig_and_abi ::
  "(string \<Rightarrow> string) \<Rightarrow> (string \<times> string) list \<Rightarrow> (string \<times> json) list \<Rightarrow>
     string list \<times> (string \<times> json) list" where
  "get_event_sig_and_abi keccak event_signatures event_abis =
     (map (\<lambda>(name, sig). ''0x'' @ keccak sig) event_signatures,
      foldl (\<lambda>d (name, sig). AList.update (''0x'' @ keccak sig)
               (case map_of event_abis name of Some a \<Rightarrow> a | None \<Rightarrow> JStr ''incorrect event name'') d)
        [] event_signatures)"

section \<open>The event table\<close>

lemma map_of_foldl_update_other:
  "x \<notin> f ` set xs \<Longrightarrow> map_of (foldl (\<lambda>d y. AList.update (f y) (g y) d) d xs) x = map_of d x"
  by (induction xs arbitrary: d) (auto simp: update_conv')

lemma map_of_foldl_update:
  assumes "inj_on f (set xs)" and "distinct xs" and "x \<in> set xs"
  shows "map_of (foldl (\<lambda>d y. AList.update (f y) (g y) d) d xs) (f x) = Some (g x)"
proof -
  from assms(3) obtain ys zs where xs: "xs = ys @ x # zs" by (meson split_list)
  have "f x \<notin> f ` set zs"
    using assms(1,2) unfolding xs by (auto simp: inj_on_def)
  then show ?thesis
    by (simp add: xs map_of_foldl_update_other update_conv')
qed

lemma dom_foldl_update:
  "fst ` set (foldl (\<lambda>d y. AList.update (f y) (g y) d) d xs) = f ` set xs \<union> fst ` set d"
proof (induction xs arbitrary: d)
  case (Cons x xs)
  show ?case by (simp add: Cons dom_update)
qed simp

text \<open>
  C39: the table by which event logs are decoded has exactly the topics that are asked for, and
  where the hash does not confuse two signatures and the events' names are distinct, the topic
  of each event leads to the ABI of that event.
\<close>

theorem get_event_sig_and_abi_lookup:
  assumes "inj_on keccak (snd ` set sigs)" and "inj_on snd (set sigs)" and "distinct sigs"
    and "get_event_sig_and_abi keccak sigs abis = (event_sig, event_abi)"
    and "(name, sig) \<in> set sigs" and "map_of abis name = Some abi"
  shows "set event_sig = fst ` set event_abi \<and> map_of event_abi (''0x'' @ keccak sig) = Some abi"
proof -
  let ?f = "\<lambda>(name :: string, sig). ''0x'' @ keccak sig"
  let ?g = "\<lambda>(name, sig :: string). case map_of abis name of Some a \<Rightarrow> a | None \<Rightarrow> JStr ''incorrect event name''"
  have table: "event_sig = map ?f sigs"
    "event_abi = foldl (\<lambda>d y. AList.update (?f y) (?g y) d) [] sigs"
    using assms(4) by (auto simp: get_event_sig_and_abi_def case_prod_unfold)
  have "inj_on ?f (set sigs)"
  proof (rule inj_onI)
    fix x y assume xy: "x \<in> set sigs" "y \<in> set sigs" "?f x = ?f y"
    then have "keccak (snd x) = keccak (snd y)" by (auto split: prod.splits)
    with xy assms(1) have "snd x = snd y" by (auto simp: inj_on_def)
    with xy assms(2) show "x = y" by (auto simp: inj_on_def)
  qed
  from map_of_foldl_update[OF this assms(3,5), of ?g "[]"] assms(6)
  have "map_of event_abi (''0x'' @ keccak sig) = Some abi" by (simp add: table)
  moreover have "set event_sig = fst ` set event_abi"
    using dom_foldl_update[of ?f ?g "[]" sigs] by (simp add: table)
  ultimately show ?thesis by simp
qed

theorem get_event_sig_and_abi_lookup_witness:
  "map_of (snd (get_event_sig_and_abi (\<lambda>s. s) [(''A'', ''A(uint256)''), (''B'', ''B()'')]
     [(''B'', JInt 2), (''A'', JInt 1)])) ''0xB()'' = Some (JInt 2)"
  using get_event_sig_and_abi_lookup[of "\<lambda>s. s" "[(''A'', ''A(uint256)''), (''B'', ''B()'')]"
     "[(''B'', JInt 2), (''A'', JInt 1)]" _ _ "''B''" "''B()''" "JInt 2", OF _ _ _ prod.collapse[symmetric]]
  by simp

end
