(* ===== verification/Redis_Keys.thy ===== *)
theory Redis_Keys
  imports Main
begin

text \<open>
  The keys in Redis (\<^verbatim>\<open>helpers/redis_keys.py\<close>): the sorted sets in which the RPC pool records its calls,
  one for each kind of call, and the marker of the force-consensus service.
\<close>

definition rpc_json_rpc_calls :: string where
  "rpc_json_rpc_calls = ''rpc:jsonRpc:calls''"

definition rpc_get_event_logs_calls :: string where
  "rpc_get_event_logs_calls = ''rpc:eventLogsCount:calls''"

definition rpc_web3_calls :: string where
  "rpc_web3_calls = ''rpc:web3:calls''"

definition rpc_blocknumber_calls :: string where
  "rpc_blocknumber_calls = ''rpc:blocknumber:calls''"

definition rpc_get_transaction_receipt_calls :: string where
  "rpc_get_transaction_receipt_calls = ''rpc:transactionReceipt:calls''"

definition event_detector_last_processed_block :: string where
  "event_detector_last_processed_block = ''SystemEventDetector:lastProcessedBlock''"

lemmas redis_keys = rpc_json_rpc_calls_def rpc_get_event_logs_calls_def rpc_web3_calls_def rpc_blocknumber_calls_def
  rpc_get_transaction_receipt_calls_def event_detector_last_processed_block_def

text \<open>No two kinds of call share a set, and none shares the key of the marker.\<close>

lemma redis_keys_distinct:
  "distinct [rpc_json_rpc_calls, rpc_get_event_logs_calls, rpc_web3_calls, rpc_blocknumber_calls,
     rpc_get_transaction_receipt_calls, event_detector_last_processed_block]"
  by (simp add: redis_keys)

end
