(* ===== verification/Rpc_Helper.thy ===== *)
theory Rpc_Helper
  imports Rate_Limiter Rpc_Abi Redis_Keys
begin

text \<open>
  The class \<^verbatim>\<open>RpcHelper\<close> of \<^verbatim>\<open>rpc.py\<close>: a pool of RPC nodes, each with its rate limits, and the
  queries of a chain through it. A failed query moves to the next node by the call-back that
  tenacity runs between two attempts. The packages web3, eth_abi, httpx and redis are
  parameters (\<open>rpc_env\<close>).
\<close>

section \<open>State\<close>

text \<open>\<open>nd_async\<close>: the entry \<^verbatim>\<open>web3_client_async\<close> is set.\<close>

record rpc_node =
  nd_url :: string
  nd_rate_limit :: "string list"
  nd_async :: bool

record 'w rpc_helper = "'w world" +
  rh_archive_mode :: bool
  rh_settings :: rpc_config_base
  rh_nodes :: "rpc_node list"
  rh_current_node_index :: int
  rh_node_count :: int
  rh_shas :: "script_shas option"
  rh_initialized :: bool
  rh_sync_nodes_initialized :: bool
  rh_client :: bool \<comment> \<open>\<^verbatim>\<open>_client\<close> is set\<close>
  rh_connector :: bool \<comment> \<open>\<^verbatim>\<open>_aiohttp_tcp_connector\<close> is set\<close>

text \<open>A contract function with its arguments bound, as web3 passes it around.\<close>

record contract_fn =
  cf_fn_name :: string
  cf_address :: string
  cf_outputs :: "json list"

text \<open>A response of httpx: its status code, its text, and what \<^verbatim>\<open>json()\<close> answers.\<close>

record http_response =
  status_code :: int
  response_text :: string
  response_json :: "exn + json"

record ('w, 's) rpc_env = "'w limiter_env" +
  web3_http_provider :: "string \<Rightarrow> exn + unit"
  limit_parse_many :: "string \<Rightarrow> exn + string list"
  cache_async_session :: "string \<Rightarrow> 'w \<Rightarrow> (exn + unit) \<times> 'w"
  redis_zadd :: "string \<Rightarrow> zmember \<Rightarrow> real \<Rightarrow> 'w \<Rightarrow> (exn + unit) \<times> 'w"
  redis_zremrangebyscore :: "string \<Rightarrow> real \<Rightarrow> real \<Rightarrow> 'w \<Rightarrow> (exn + unit) \<times> 'w"
  eth_block_number :: "string \<Rightarrow> 'w \<Rightarrow> (exn + int) \<times> 'w"
  eth_get_logs :: "string \<Rightarrow> json \<Rightarrow> 'w \<Rightarrow> (exn + json list) \<times> 'w"
  eth_get_transaction_receipt :: "string \<Rightarrow> string \<Rightarrow> 'w \<Rightarrow> (exn + json) \<times> 'w"
  eth_call :: "string \<Rightarrow> json \<Rightarrow> 'w \<Rightarrow> (exn + string) \<times> 'w"
  client_post :: "string \<Rightarrow> json \<Rightarrow> 'w \<Rightarrow> (exn + http_response) \<times> 'w"
  to_checksum_address :: "string \<Rightarrow> exn + string"
  get_event_data :: "json \<Rightarrow> json \<Rightarrow> exn + json"
  build_call_data :: "contract_fn \<Rightarrow> exn + string"
  decode_normalized :: "json list \<Rightarrow> string \<Rightarrow> exn + json list"
  keccak_hex :: "string \<Rightarrow> string"
  eth_encode_abi :: "json list \<Rightarrow> json list \<Rightarrow> exn + string"
  eth_decode_abi :: "json list \<Rightarrow> json \<Rightarrow> exn + json"
  retry_json :: "(int, 's, json) retrying"
  retry_events :: "(int, 's, json list) retrying"

definition rpc_helper_init :: "rpc_config_base \<Rightarrow> bool \<Rightarrow> 'w \<Rightarrow> 'w rpc_helper" where
  "rpc_helper_init rpc_settings archive_mode w =
     \<lparr>ext = w, trace = [], rh_archive_mode = archive_mode, rh_settings = rpc_settings,
      rh_nodes = [], rh_current_node_index = 0, rh_node_count = 0, rh_shas = None,
      rh_initialized = False, rh_sync_nodes_initialized = False, rh_client = False,
      rh_connector = False\<rparr>"

section \<open>Initialisation\<close>

definition load_rate_limit_shas ::
  "('w, 'e) limiter_env_scheme \<Rightarrow> (('w, 'z) rpc_helper_scheme, unit) M" where
  "load_rate_limit_shas env =
     bindM (getsM rh_shas) (\<lambda>shas.
     if shas \<noteq> None then returnM ()
     else bindM (load_rate_limiter_scripts env) (\<lambda>loaded.
          modifyM (\<lambda>s. s\<lparr>rh_shas := Some loaded\<rparr>)))"

definition init_http_clients :: "(('w, 'z) rpc_helper_scheme, unit) M" where
  "init_http_clients =
     bindM (getsM rh_client) (\<lambda>client.
     if client then returnM ()
     else thenM (modifyM (\<lambda>s. s\<lparr>rh_client := True\<rparr>))
          (bindM (getsM rh_connector) (\<lambda>connector.
           if connector then returnM ()
           else modifyM (\<lambda>s. s\<lparr>rh_connector := True\<rparr>))))"

definition load_async_web3_provider ::
  "('w, 's, 'e) rpc_env_scheme \<Rightarrow> nat \<Rightarrow> (('w, 'z) rpc_helper_scheme, unit) M" where
  "load_async_web3_provider env i =
     bindM (getsM (\<lambda>s. rh_nodes s ! i)) (\<lambda>node.
     if nd_async node then returnM ()
     else thenM (modifyM (\<lambda>s. s\<lparr>rh_nodes := (rh_nodes s)[i := node\<lparr>nd_async := True\<rparr>]\<rparr>))
                (extM (cache_async_session env (nd_url node))))"

definition load_async_web3_providers ::
  "('w, 's, 'e) rpc_env_scheme \<Rightarrow> (('w, 'z) rpc_helper_scheme, unit) M" where
  "load_async_web3_providers env =
     bindM (getsM (\<lambda>s. length (rh_nodes s))) (\<lambda>n. forM [0..<n] (load_async_web3_provider env))"

text \<open>A node whose provider or rate limit cannot be made is logged and left out.\<close>

definition load_node ::
  "('w, 's, 'e) rpc_env_scheme \<Rightarrow> rpc_node_config \<Rightarrow> (('w, 'z) rpc_helper_scheme, unit) M" where
  "load_node env node =
     tryM
       (thenM (liftM (web3_http_provider env (node_url node)))
        (bindM (liftM (limit_parse_many env (node_rate_limit node))) (\<lambda>limits.
         modifyM (\<lambda>s. s\<lparr>rh_nodes := rh_nodes s @
           [\<lparr>nd_url = node_url node, nd_rate_limit = limits, nd_async = False\<rparr>]\<rparr>))))
       (\<lambda>exc. returnM ())"

definition load_web3_providers_and_rate_limits ::
  "('w, 's, 'e) rpc_env_scheme \<Rightarrow> (('w, 'z) rpc_helper_scheme, unit) M" where
  "load_web3_providers_and_rate_limits env =
     bindM (getsM (\<lambda>s. (rh_archive_mode s, rh_settings s))) (\<lambda>(archive, rpc_settings).
     (let nodes = (if archive then archive_nodes rpc_settings else Some (full_nodes rpc_settings))
      in case nodes of
           None \<Rightarrow> raiseM (Exn TypeError ''NoneType object is not iterable'')
         | Some ns \<Rightarrow>
             thenM (forM ns (load_node env))
                   (modifyM (\<lambda>s. if rh_nodes s \<noteq> []
                                 then s\<lparr>rh_node_count := int (length (rh_nodes s))\<rparr> else s))))"

definition init_sync_nodes ::
  "('w, 's, 'e) rpc_env_scheme \<Rightarrow> (('w, 'z) rpc_helper_scheme, unit) M" where
  "init_sync_nodes env =
     bindM (getsM rh_sync_nodes_initialized) (\<lambda>done.
     if done then returnM ()
     else thenM (load_web3_providers_and_rate_limits env)
                (modifyM (\<lambda>s. s\<lparr>rh_sync_nodes_initialized := True\<rparr>)))"

definition rh_init ::
  "('w, 's, 'e) rpc_env_scheme \<Rightarrow> (('w, 'z) rpc_helper_scheme, unit) M" where
  "rh_init env =
     thenM (init_sync_nodes env)
     (thenM (load_rate_limit_shas env)
     (thenM init_http_clients
     (thenM (load_async_web3_providers env)
            (modifyM (\<lambda>s. s\<lparr>rh_initialized := True\<rparr>)))))"

definition ensure_init ::
  "('w, 's, 'e) rpc_env_scheme \<Rightarrow> (('w, 'z) rpc_helper_scheme, unit) M" where
  "ensure_init env =
     bindM (getsM rh_initialized) (\<lambda>ready. if ready then returnM () else rh_init env)"

definition get_current_node ::
  "('w, 's, 'e) rpc_env_scheme \<Rightarrow> (('w, 'z) rpc_helper_scheme, rpc_node) M" where
  "get_current_node env =
     thenM (init_sync_nodes env)
     (bindM (getsM id) (\<lambda>self.
      if rh_node_count self = 0 then raiseM (Exn PyException ''No full nodes available'')
      else liftM (py_index (rh_nodes self) (rh_current_node_index self))))"

section \<open>Moving to the next node\<close>

text \<open>
  The call-back before the next attempt: from the index of the attempt that failed to the
  index of the next. The log line reads both nodes, so it can raise.
\<close>

definition on_node_exception :: "int \<Rightarrow> exn \<Rightarrow> (('w, 'z) rpc_helper_scheme, int) M" where
  "on_node_exception exc_idx ex =
     bindM (getsM id) (\<lambda>self.
     if rh_node_count self = 0
     then raiseM (Exn ZeroDivisionError ''integer division or modulo by zero'')
     else
       (let next_node_idx = (exc_idx + 1) mod rh_node_count self
        in thenM (liftM (py_index (rh_nodes self) exc_idx))
           (thenM (liftM (py_index (rh_nodes self) next_node_idx))
                  (returnM next_node_idx))))"

section \<open>What the queries share\<close>

text \<open>\<^verbatim>\<open>rpc_url.split('/')[-1]\<close>\<close>

definition last_segment :: "string \<Rightarrow> string" where
  "last_segment url = rev (takeWhile (\<lambda>c. c \<noteq> CHR ''/'') (rev url))"

definition check_node_limit ::
  "('w, 'e) limiter_env_scheme \<Rightarrow> rpc_node \<Rightarrow> json \<Rightarrow> string \<Rightarrow> int \<Rightarrow>
     (('w, 'z) rpc_helper_scheme, bool) M" where
  "check_node_limit env node request_payload msg incr =
     bindM (getsM rh_shas) (\<lambda>shas.
     check_rpc_rate_limit env (nd_rate_limit node) (last_segment (nd_url node)) request_payload
       (JObj [(''msg'', JStr msg)]) shas incr)"

text \<open>The record of a call is added to its sorted set, and records older than an hour go.\<close>

definition record_call ::
  "('w, 's, 'e) rpc_env_scheme \<Rightarrow> string \<Rightarrow> zmember \<Rightarrow> real \<Rightarrow>
     (('w, 'z) rpc_helper_scheme, unit list) M" where
  "record_call env key member cur_time =
     gatherM
       [callM (RedisZAdd key member cur_time) (redis_zadd env key member cur_time),
        callM (RedisZRemRangeByScore key 0 (cur_time - 3600))
          (redis_zremrangebyscore env key 0 (cur_time - 3600))]"

text \<open>The asynchronous client of a node; \<^verbatim>\<open>None.eth\<close> raises.\<close>

definition async_client :: "rpc_node \<Rightarrow> exn + string" where
  "async_client node =
     (if nd_async node then Inr (nd_url node)
      else Inl (Exn AttributeError ''NoneType object has no attribute eth''))"

end
