(* ===== verification/Rpc_Queries.thy ===== *)
theory Rpc_Queries
  imports Rpc_Helper
begin

text \<open>
  The queries of \<^verbatim>\<open>RpcHelper\<close> (\<^verbatim>\<open>rpc.py\<close>). The function that \<^verbatim>\<open>retry\<close> decorates is \<open>..._attempt\<close>,
  with the index of the node as its argument; it is retried on \<^verbatim>\<open>RPCException\<close> only.
\<close>

section \<open>Events\<close>

text \<open>\<^verbatim>\<open>log['topics'][0].hex()\<close> of a log whose topics are hexadecimal texts.\<close>

definition log_topic :: "json \<Rightarrow> exn + string" where
  "log_topic evlog =
     (case json_item ''topics'' evlog of
        Inl e \<Rightarrow> Inl e
      | Inr (JList (JStr t # ts)) \<Rightarrow> Inr t
      | Inr (JList []) \<Rightarrow> Inl (Exn IndexError ''list index out of range'')
      | Inr j \<Rightarrow> Inl (Exn AttributeError ''no attribute hex''))"

definition decode_log ::
  "('w, 's, 'e) rpc_env_scheme \<Rightarrow> (string \<times> json) list \<Rightarrow> json \<Rightarrow> exn + json" where
  "decode_log env event_abi evlog =
     (case log_topic evlog of
        Inl e \<Rightarrow> Inl e
      | Inr t \<Rightarrow> get_event_data env (case map_of event_abi t of Some a \<Rightarrow> a | None \<Rightarrow> JStr []) evlog)"

text \<open>The part of an attempt under \<^verbatim>\<open>try\<close>, and the exception that wraps its failures.\<close>

definition fetch_logs ::
  "('w, 's, 'e) rpc_env_scheme \<Rightarrow> rpc_node \<Rightarrow> json \<Rightarrow> int \<Rightarrow> int \<Rightarrow> (string \<times> json) list \<Rightarrow>
     (('w, 'z) rpc_helper_scheme, json list) M" where
  "fetch_logs env node query from_block to_block event_abi =
     bindM (nowM env) (\<lambda>cur_time.
     thenM (record_call env rpc_get_event_logs_calls (ZJson query) cur_time)
     (bindM (liftM (async_client node)) (\<lambda>url.
      bindM (callM (GetLogs url from_block to_block) (eth_get_logs env url query)) (\<lambda>event_log.
      mapM (\<lambda>evlog. liftM (decode_log env event_abi evlog)) event_log))))"

definition events_logs_error :: "string \<Rightarrow> int \<Rightarrow> int \<Rightarrow> json \<Rightarrow> exn \<Rightarrow> exn" where
  "events_logs_error contract_address to_block from_block topics e =
     RPCException
       (JObj [(''contract_address'', JStr contract_address), (''to_block'', JInt to_block),
              (''from_block'', JInt from_block), (''topics'', topics)])
       JNull (CauseExn e) (JStr (''RPC_GET_EVENT_LOGS_ERROR: '' @ exn_str e))"

definition get_events_logs_attempt ::
  "('w, 's, 'e) rpc_env_scheme \<Rightarrow> string \<Rightarrow> int \<Rightarrow> int \<Rightarrow> json \<Rightarrow> (string \<times> json) list \<Rightarrow> int \<Rightarrow>
     (('w, 'z) rpc_helper_scheme, json list) M" where
  "get_events_logs_attempt env contract_address to_block from_block topics event_abi node_idx =
     bindM (getsM rh_nodes) (\<lambda>nodes.
     bindM (liftM (py_index nodes node_idx)) (\<lambda>node.
     bindM (liftM (to_checksum_address env contract_address)) (\<lambda>address.
     (let event_log_query =
            JObj [(''address'', JStr address), (''toBlock'', JInt to_block),
                  (''fromBlock'', JInt from_block), (''topics'', topics)]
      in thenM (check_node_limit env node event_log_query
                  ''exhausted_api_key_rate_limit inside get_events_logs'' (to_block - from_block + 1))
         (tryM (fetch_logs env node event_log_query from_block to_block event_abi)
               (\<lambda>e. raiseM (events_logs_error contract_address to_block from_block topics e)))))))"

definition get_events_logs ::
  "settings \<Rightarrow> ('w, ('w, 'z) rpc_helper_scheme, 'e) rpc_env_scheme \<Rightarrow> string \<Rightarrow> int \<Rightarrow> int \<Rightarrow> json \<Rightarrow>
     (string \<times> json) list \<Rightarrow> (('w, 'z) rpc_helper_scheme, json list) M" where
  "get_events_logs cfg env contract_address to_block from_block topics event_abi =
     thenM (ensure_init env)
       (retry_events env is_RPCException (rpc_retry (chain_rpc (st_chain cfg))) on_node_exception
          (get_events_logs_attempt env contract_address to_block from_block topics event_abi) 0)"

section \<open>The head of the chain, and receipts\<close>

definition get_current_block ::
  "('w, 's, 'e) rpc_env_scheme \<Rightarrow> int \<Rightarrow> (('w, 'z) rpc_helper_scheme, int) M" where
  "get_current_block env node_idx =
     thenM (ensure_init env)
     (bindM (getsM rh_nodes) (\<lambda>nodes.
      bindM (liftM (py_index nodes node_idx)) (\<lambda>node.
      thenM (check_node_limit env node (JStr ''get_current_block'')
               ''exhausted_api_key_rate_limit inside web3_call'' 1)
      (bindM (callM (NodeCall (nd_url node) ''eth_blockNumber'') (eth_block_number env (nd_url node)))
        (\<lambda>current_block.
       bindM (nowM env) (\<lambda>cur_time.
       thenM (record_call env rpc_blocknumber_calls
                (ZTimed (JObj [(''fn_name'', JStr ''get_current_block'')]) cur_time) cur_time)
             (returnM current_block)))))))"

definition receipt_error :: "string \<Rightarrow> exn \<Rightarrow> exn" where
  "receipt_error tx_hash e =
     RPCException (JObj [(''txHash'', JStr tx_hash)]) JNull (CauseExn e)
       (JStr (''RPC_GET_TRANSACTION_RECEIPT_ERROR: '' @ exn_str e))"

definition get_transaction_receipt_attempt ::
  "('w, 's, 'e) rpc_env_scheme \<Rightarrow> string \<Rightarrow> int \<Rightarrow> (('w, 'z) rpc_helper_scheme, json) M" where
  "get_transaction_receipt_attempt env tx_hash node_idx =
     thenM (bindM (getsM rh_node_count) (\<lambda>n. if n = 0 then rh_init env else returnM ()))
     (bindM (getsM rh_nodes) (\<lambda>nodes.
      bindM (liftM (py_index nodes node_idx)) (\<lambda>node.
      (let tx_receipt_query = JObj [(''txHash'', JStr tx_hash)]
       in thenM (check_node_limit env node tx_receipt_query
                   ''exhausted_api_key_rate_limit inside get_events_logs'' 1)
          (tryM
             (bindM (nowM env) (\<lambda>cur_time.
              thenM (record_call env rpc_get_transaction_receipt_calls (ZJson tx_receipt_query) cur_time)
              (bindM (liftM (async_client node)) (\<lambda>url.
               callM (NodeCall url ''eth_getTransactionReceipt'')
                 (eth_get_transaction_receipt env url tx_hash)))))
             (\<lambda>e. raiseM (receipt_error tx_hash e)))))))"

definition get_transaction_receipt ::
  "settings \<Rightarrow> ('w, ('w, 'z) rpc_helper_scheme, 'e) rpc_env_scheme \<Rightarrow> string \<Rightarrow>
     (('w, 'z) rpc_helper_scheme, json) M" where
  "get_transaction_receipt cfg env tx_hash =
     retry_json env is_RPCException (rpc_retry (chain_rpc (st_chain cfg))) on_node_exception
       (get_transaction_receipt_attempt env tx_hash) 0"

section \<open>Contract calls\<close>

text \<open>The payload of a call without its time; \<^verbatim>\<open>from\<close> is added after the call is recorded.\<close>

definition web3_payload :: "contract_fn \<Rightarrow> string \<Rightarrow> (string \<times> json) list" where
  "web3_payload fn data =
     [(''to'', JStr (cf_address fn)), (''data'', JStr data),
      (''output_type'', JList (cf_outputs fn)), (''fn_name'', JStr (cf_fn_name fn))]"

definition web3_call_body ::
  "('w, 's, 'e) rpc_env_scheme \<Rightarrow> contract_fn \<Rightarrow> string option \<Rightarrow> int \<Rightarrow>
     (('w, 'z) rpc_helper_scheme, json) M" where
  "web3_call_body env fn from_address node_idx =
     bindM (getsM rh_nodes) (\<lambda>nodes.
     bindM (liftM (py_index nodes node_idx)) (\<lambda>node.
     thenM (check_node_limit env node (JStr (cf_fn_name fn))
              ''exhausted_api_key_rate_limit inside web3_call'' 1)
     (if cf_address fn = []
      then raiseM (Exn ValueError (''Missing address for batch_call in `'' @ cf_fn_name fn @ ''`''))
      else
        bindM (liftM (build_call_data env fn)) (\<lambda>data.
        bindM (nowM env) (\<lambda>cur_time.
        thenM (record_call env rpc_web3_calls (ZTimed (JObj (web3_payload fn data)) cur_time) cur_time)
        (let payload = (case from_address of
                          None \<Rightarrow> web3_payload fn data
                        | Some a \<Rightarrow> (if a = [] then web3_payload fn data
                                     else web3_payload fn data @ [(''from'', JStr a)]))
         in bindM (liftM (async_client node)) (\<lambda>url.
            bindM (callM (NodeCall url ''eth_call'') (eth_call env url (JObj payload))) (\<lambda>result.
            bindM (liftM (decode_normalized env (cf_outputs fn) result)) (\<lambda>normalized_data.
            case normalized_data of
              [x] \<Rightarrow> returnM x
            | _ \<Rightarrow> returnM (JList normalized_data)))))))))) "

definition web3_call_error :: "contract_fn \<Rightarrow> exn \<Rightarrow> exn" where
  "web3_call_error fn e =
     RPCException (JList [JStr (cf_fn_name fn)]) JNull (CauseExn e)
       (JObj [(''msg'', JStr (exn_str e))])"

definition async_web3_call ::
  "settings \<Rightarrow> ('w, ('w, 'z) rpc_helper_scheme, 'e) rpc_env_scheme \<Rightarrow> string option \<Rightarrow> contract_fn \<Rightarrow>
     (('w, 'z) rpc_helper_scheme, json) M" where
  "async_web3_call cfg env from_address fn =
     retry_json env is_RPCException (rpc_retry (chain_rpc (st_chain cfg))) on_node_exception
       (\<lambda>node_idx. tryM (web3_call_body env fn from_address node_idx)
                        (\<lambda>e. raiseM (web3_call_error fn e))) 0"

definition web3_call ::
  "settings \<Rightarrow> ('w, ('w, 'z) rpc_helper_scheme, 'e) rpc_env_scheme \<Rightarrow> contract_fn list \<Rightarrow>
     string option \<Rightarrow> (('w, 'z) rpc_helper_scheme, json list) M" where
  "web3_call cfg env tasks from_address =
     thenM (ensure_init env) (gatherM (map (async_web3_call cfg env from_address) tasks))"

section \<open>JSON-RPC batches\<close>

text \<open>
  The errors in a response. For a list, \<^verbatim>\<open>append\<close> is called with the value of another
  \<^verbatim>\<open>append\<close>, so that each error is followed by \<^verbatim>\<open>None\<close>.
\<close>

fun list_errors :: "json list \<Rightarrow> exn + json list" where
  "list_errors [] = Inr []"
| "list_errors (item # items) =
     (case json_has_key ''error'' item of
        Inl e \<Rightarrow> Inl e
      | Inr False \<Rightarrow> list_errors items
      | Inr True \<Rightarrow>
          (case json_item ''error'' item of
             Inl e \<Rightarrow> Inl e
           | Inr err \<Rightarrow> (case list_errors items of Inl e \<Rightarrow> Inl e | Inr es \<Rightarrow> Inr (err # JNull # es))))"

fun response_errors :: "json \<Rightarrow> exn + json list" where
  "response_errors (JList items) = list_errors items"
| "response_errors j =
     (case json_has_key ''error'' j of
        Inl e \<Rightarrow> Inl e
      | Inr False \<Rightarrow> Inr []
      | Inr True \<Rightarrow> (case json_item ''error'' j of Inl e \<Rightarrow> Inl e | Inr err \<Rightarrow> Inr [err]))"

definition jsonrpc_error :: "json \<Rightarrow> exn \<Rightarrow> exn" where
  "jsonrpc_error rpc_query e =
     RPCException rpc_query JNull (CauseExn e) (JStr (''RPC_BATCH_ETH_CALL_ERROR: '' @ exn_str e))"

definition jsonrpc_attempt ::
  "('w, 's, 'e) rpc_env_scheme \<Rightarrow> json \<Rightarrow> int \<Rightarrow> (('w, 'z) rpc_helper_scheme, json) M" where
  "jsonrpc_attempt env rpc_query node_idx =
     bindM (getsM rh_nodes) (\<lambda>nodes.
     bindM (liftM (py_index nodes node_idx)) (\<lambda>node.
     thenM (check_node_limit env node rpc_query
              ''exhausted_api_key_rate_limit inside make_rpc_jsonrpc_call'' 1)
     (bindM
        (tryM
           (bindM (nowM env) (\<lambda>cur_time.
            thenM (record_call env rpc_json_rpc_calls (ZJson rpc_query) cur_time)
            (bindM (getsM rh_client) (\<lambda>client.
             bindM (if client then callM (RpcPost (nd_url node) rpc_query) (client_post env (nd_url node) rpc_query)
                    else raiseM (Exn AttributeError ''NoneType object has no attribute post'')) (\<lambda>response.
             bindM (liftM (response_json response)) (\<lambda>response_data.
             returnM (response, response_data)))))))
           (\<lambda>e. raiseM (jsonrpc_error rpc_query e)))
        (\<lambda>(response, response_data).
         if status_code response \<noteq> 200
         then raiseM (RPCException rpc_query
                (JList [JInt (status_code response), JStr (response_text response)]) NoCause
                (JStr (''RPC_CALL_ERROR: '' @ response_text response)))
         else
           bindM (liftM (response_errors response_data)) (\<lambda>response_exceptions.
           if response_exceptions \<noteq> []
           then raiseM (RPCException rpc_query response_data (CauseList response_exceptions)
                  (JStr (''RPC_BATCH_ETH_CALL_ERROR: '' @ py_repr (JList response_exceptions))))
           else returnM response_data)))))"

definition make_rpc_jsonrpc_call ::
  "settings \<Rightarrow> ('w, ('w, 'z) rpc_helper_scheme, 'e) rpc_env_scheme \<Rightarrow> json \<Rightarrow>
     (('w, 'z) rpc_helper_scheme, json) M" where
  "make_rpc_jsonrpc_call cfg env rpc_query =
     retry_json env is_RPCException (rpc_retry (chain_rpc (st_chain cfg))) on_node_exception
       (jsonrpc_attempt env rpc_query) 0"

text \<open>The loop that builds a batch over a range of blocks, with the running request id.\<close>

fun batch_query :: "string \<Rightarrow> (int \<Rightarrow> json list) \<Rightarrow> int list \<Rightarrow> int \<Rightarrow> json list" where
  "batch_query rpc_method params [] request_id = []"
| "batch_query rpc_method params (block # blocks) request_id =
     JObj [(''jsonrpc'', JStr ''2.0''), (''method'', JStr rpc_method),
           (''params'', JList (params block)), (''id'', JInt request_id)]
     # batch_query rpc_method params blocks (request_id + 1)"

fun balances :: "json list \<Rightarrow> exn + json list" where
  "balances [] = Inr []"
| "balances (response # responses) =
     (case json_has_key ''result'' response of
        Inl e \<Rightarrow> Inl e
      | Inr found \<Rightarrow>
          (case (if found then json_item ''result'' response else Inr JNull) of
             Inl e \<Rightarrow> Inl e
           | Inr v \<Rightarrow> (case balances responses of Inl e \<Rightarrow> Inl e | Inr vs \<Rightarrow> Inr (v # vs))))"

definition batch_eth_get_balance_on_block_range ::
  "settings \<Rightarrow> ('w, ('w, 'z) rpc_helper_scheme, 'e) rpc_env_scheme \<Rightarrow> string \<Rightarrow> int \<Rightarrow> int \<Rightarrow>
     (('w, 'z) rpc_helper_scheme, json list) M" where
  "batch_eth_get_balance_on_block_range cfg env address from_block to_block =
     thenM (ensure_init env)
     (bindM (make_rpc_jsonrpc_call cfg env (JList
               (batch_query ''eth_getBalance'' (\<lambda>block. [JStr address, JStr (hex_str block)])
                  [from_block..to_block] 1))) (\<lambda>response_data.
      bindM (liftM (json_iter response_data)) (\<lambda>responses.
      liftM (balances responses))))"

fun decode_results ::
  "(json list \<Rightarrow> json \<Rightarrow> exn + json) \<Rightarrow> json list \<Rightarrow> json list \<Rightarrow> exn + json list" where
  "decode_results decode output [] = Inr []"
| "decode_results decode output (result # results) =
     (case json_item ''result'' result of
        Inl e \<Rightarrow> Inl e
      | Inr v \<Rightarrow>
          (case decode output v of
             Inl e \<Rightarrow> Inl e
           | Inr d \<Rightarrow> (case decode_results decode output results of
                         Inl e \<Rightarrow> Inl e | Inr ds \<Rightarrow> Inr (d # ds))))"

text \<open>The address is converted for each block; over an empty range it is not looked at.\<close>

definition batch_eth_call_on_block_range ::
  "settings \<Rightarrow> ('w, ('w, 'z) rpc_helper_scheme, 'e) rpc_env_scheme \<Rightarrow> (string \<times> abi_entry) list \<Rightarrow>
     string \<Rightarrow> string \<Rightarrow> int \<Rightarrow> int \<Rightarrow> json list option \<Rightarrow> string \<Rightarrow>
     (('w, 'z) rpc_helper_scheme, json list) M" where
  "batch_eth_call_on_block_range cfg env abi_dict function_name contract_address from_block to_block
       params from_address =
     thenM (ensure_init env)
     (bindM (liftM (get_encoded_function_signature (keccak_hex env) (eth_encode_abi env) abi_dict
               function_name params)) (\<lambda>function_signature.
      bindM (if [from_block..to_block] = [] then returnM []
             else liftM (to_checksum_address env contract_address)) (\<lambda>to_address.
      bindM (make_rpc_jsonrpc_call cfg env (JList
               (batch_query ''eth_call'' (\<lambda>block.
                  [JObj [(''from'', JStr from_address), (''to'', JStr to_address),
                         (''data'', JStr function_signature)], JStr (hex_str block)])
                  [from_block..to_block] 1))) (\<lambda>response_data.
      (let response = (case response_data of JList xs \<Rightarrow> xs | j \<Rightarrow> [j])
       in case map_of abi_dict function_name of
            None \<Rightarrow> (if response = [] then returnM []
                     else raiseM (Exn TypeError ''NoneType object is not subscriptable''))
          | Some entry \<Rightarrow> liftM (decode_results (eth_decode_abi env) (abi_output entry) response))))))"

definition batch_eth_get_block ::
  "settings \<Rightarrow> ('w, ('w, 'z) rpc_helper_scheme, 'e) rpc_env_scheme \<Rightarrow> int \<Rightarrow> int \<Rightarrow>
     (('w, 'z) rpc_helper_scheme, json) M" where
  "batch_eth_get_block cfg env from_block to_block =
     thenM (ensure_init env)
     (make_rpc_jsonrpc_call cfg env (JList
        (batch_query ''eth_getBlockByNumber'' (\<lambda>block. [JStr (hex_str block), JBool False])
           [from_block..to_block] 1)))"

end
