(* ===== verification/Rpc_Props.thy ===== *)
theory Rpc_Props
  imports Rpc_Queries Hoare
begin

text \<open>
  The properties of the RPC client pool: what its initialisation establishes, how a query moves
  through the nodes, which responses count as failures, and the requests of a batch.
\<close>

section \<open>The pool\<close>

text \<open>
  The pool is well formed: its count is the number of nodes once they are loaded, and a pool
  that is initialised has its scripts, its HTTP client and a client for every node.
\<close>

definition pool_wf :: "('w, 'z) rpc_helper_scheme \<Rightarrow> bool" where
  "pool_wf s \<longleftrightarrow>
     (if rh_sync_nodes_initialized s then rh_node_count s = int (length (rh_nodes s))
      else rh_node_count s = 0 \<and> \<not> rh_initialized s) \<and>
     (rh_initialized s \<longrightarrow> rh_shas s \<noteq> None \<and> rh_client s \<and> list_all nd_async (rh_nodes s))"

lemma pool_wf_init: "pool_wf (rpc_helper_init rpc_settings archive w)"
  by (simp add: pool_wf_def rpc_helper_init_def)

lemma pool_wf_logs [simp]: "pool_wf (s\<lparr>ext := w, trace := evs\<rparr>) = pool_wf s"
  by (simp add: pool_wf_def)

text \<open>The assertions between the steps of \<^verbatim>\<open>init\<close>.\<close>

definition pool_unloaded :: "('w, 'z) rpc_helper_scheme \<Rightarrow> bool" where
  "pool_unloaded s \<longleftrightarrow>
     \<not> rh_sync_nodes_initialized s \<and> \<not> rh_initialized s \<and> rh_node_count s = 0"

definition pool_loaded :: "('w, 'z) rpc_helper_scheme \<Rightarrow> bool" where
  "pool_loaded s \<longleftrightarrow> pool_wf s \<and> rh_sync_nodes_initialized s"

definition pool_clients :: "('w, 'z) rpc_helper_scheme \<Rightarrow> bool" where
  "pool_clients s \<longleftrightarrow> pool_loaded s \<and> rh_shas s \<noteq> None \<and> rh_client s"

definition pool_ready :: "('w, 'z) rpc_helper_scheme \<Rightarrow> bool" where
  "pool_ready s \<longleftrightarrow> pool_clients s \<and> list_all nd_async (rh_nodes s) \<and> rh_initialized s"

lemmas pool_defs = pool_wf_def pool_unloaded_def pool_loaded_def pool_clients_def pool_ready_def

lemma pool_ready_iff: "pool_ready s \<longleftrightarrow> pool_wf s \<and> rh_initialized s"
  by (auto simp: pool_defs split: if_splits)

lemma load_node_unloaded: "keepsM (preserves pool_unloaded) (load_node env node)"
  unfolding load_node_def
  by (intro preserves.keeps_rules preserves_modify) (simp add: pool_unloaded_def)

lemma hoare_load_providers:
  "hoareM pool_unloaded
     (thenM (load_web3_providers_and_rate_limits env) (modifyM (\<lambda>s. s\<lparr>rh_sync_nodes_initialized := True\<rparr>)))
     (\<lambda>_. pool_loaded) pool_wf"
proof -
  let ?counted = "\<lambda>(_ :: unit) s. \<not> rh_initialized s \<and> rh_node_count s = int (length (rh_nodes s))"
  have "hoareM pool_unloaded (load_web3_providers_and_rate_limits env) ?counted pool_unloaded"
    unfolding load_web3_providers_and_rate_limits_def Let_def
    by (rule hoare_bind[where R = "\<lambda>_. pool_unloaded"], rule hoare_gets, assumption,
        simp split: prod.split option.split,
        intro conjI impI allI hoare_raise hoare_then[where R = "\<lambda>_. pool_unloaded"] hoare_modify
          hoare_preserves preserves.keeps_for load_node_unloaded)
       (auto simp: pool_unloaded_def)
  then have "hoareM pool_unloaded (load_web3_providers_and_rate_limits env) ?counted pool_wf"
    by (rule hoareM_conseq) (auto simp: pool_defs)
  then show ?thesis
    by (rule hoare_then) (intro hoare_modify, simp add: pool_defs)
qed

lemma hoare_init_sync_nodes: "hoareM pool_wf (init_sync_nodes env) (\<lambda>_. pool_loaded) pool_wf"
  unfolding init_sync_nodes_def
proof (rule hoare_bind[where R = "\<lambda>done s. pool_wf s \<and> rh_sync_nodes_initialized s = done"])
  show "hoareM pool_wf (getsM rh_sync_nodes_initialized)
     (\<lambda>done s. pool_wf s \<and> rh_sync_nodes_initialized s = done) pool_wf"
    by (intro hoare_gets) simp
next
  fix loaded
  have "hoareM (\<lambda>s. pool_wf s \<and> rh_sync_nodes_initialized s = loaded)
     (thenM (load_web3_providers_and_rate_limits env) (modifyM (\<lambda>s. s\<lparr>rh_sync_nodes_initialized := True\<rparr>)))
     (\<lambda>_. pool_loaded) pool_wf" if "\<not> loaded"
    by (rule hoareM_conseq[OF hoare_load_providers]) (use that in \<open>auto simp: pool_defs\<close>)
  then show "hoareM (\<lambda>s. pool_wf s \<and> rh_sync_nodes_initialized s = loaded)
     (if loaded then returnM ()
      else thenM (load_web3_providers_and_rate_limits env)
             (modifyM (\<lambda>s. s\<lparr>rh_sync_nodes_initialized := True\<rparr>)))
     (\<lambda>_. pool_loaded) pool_wf"
    by (auto intro!: hoare_return simp: pool_loaded_def)
qed

lemma hoare_load_shas:
  "hoareM pool_loaded (load_rate_limit_shas env)
     (\<lambda>_ s. pool_loaded s \<and> rh_shas s \<noteq> None) pool_wf"
  unfolding load_rate_limit_shas_def
proof (rule hoare_bind[where R = "\<lambda>shas s. pool_loaded s \<and> rh_shas s = shas"])
  show "hoareM pool_loaded (getsM rh_shas) (\<lambda>shas s. pool_loaded s \<and> rh_shas s = shas) pool_wf"
    by (intro hoare_gets) simp
next
  fix shas :: "script_shas option"
  have "hoareM (\<lambda>s. pool_loaded s \<and> rh_shas s = shas) (load_rate_limiter_scripts env)
      (\<lambda>_. pool_loaded) pool_loaded"
    by (rule hoare_logs[OF logs_load_scripts]) (auto simp: pool_defs)
  then have scripts: "hoareM (\<lambda>s. pool_loaded s \<and> rh_shas s = shas) (load_rate_limiter_scripts env)
      (\<lambda>_. pool_loaded) pool_wf"
    by (rule hoareM_conseq) (auto simp: pool_loaded_def)
  have set_shas: "hoareM pool_loaded (modifyM (\<lambda>s. s\<lparr>rh_shas := Some loaded\<rparr>))
      (\<lambda>_ s. pool_loaded s \<and> rh_shas s \<noteq> None) pool_wf" for loaded
    by (intro hoare_modify) (simp add: pool_defs)
  have "hoareM (\<lambda>s. pool_loaded s \<and> rh_shas s = shas)
      (bindM (load_rate_limiter_scripts env) (\<lambda>loaded. modifyM (\<lambda>s. s\<lparr>rh_shas := Some loaded\<rparr>)))
      (\<lambda>_ s. pool_loaded s \<and> rh_shas s \<noteq> None) pool_wf"
    using scripts set_shas by (rule hoare_bind)
  then show "hoareM (\<lambda>s. pool_loaded s \<and> rh_shas s = shas)
      (if shas \<noteq> None then returnM ()
       else bindM (load_rate_limiter_scripts env) (\<lambda>loaded. modifyM (\<lambda>s. s\<lparr>rh_shas := Some loaded\<rparr>)))
      (\<lambda>_ s. pool_loaded s \<and> rh_shas s \<noteq> None) pool_wf"
    by (auto intro!: hoare_return)
qed

lemma hoare_init_http:
  "hoareM (\<lambda>s. pool_loaded s \<and> rh_shas s \<noteq> None) init_http_clients (\<lambda>_. pool_clients) pool_wf"
  by (rule hoareMI)
     (auto simp: init_http_clients_def M_defs pool_defs split: if_splits)

lemma hoare_load_async:
  "hoareM (pool_clients :: ('w, 'z) rpc_helper_scheme \<Rightarrow> bool) (load_async_web3_providers env)
     (\<lambda>_ s. pool_clients s \<and> list_all nd_async (rh_nodes s)) pool_wf"
  unfolding load_async_web3_providers_def
proof (rule hoare_bind[where R = "\<lambda>n (s :: ('w, 'z) rpc_helper_scheme). pool_clients s \<and> length (rh_nodes s) = n"])
  show "hoareM (pool_clients :: ('w, 'z) rpc_helper_scheme \<Rightarrow> bool) (getsM (\<lambda>s. length (rh_nodes s)))
     (\<lambda>n s. pool_clients s \<and> length (rh_nodes s) = n) pool_wf"
    by (intro hoare_gets) simp
next
  fix n :: nat
  let ?I = "\<lambda>(ys :: nat list) (s :: ('w, 'z) rpc_helper_scheme). pool_clients s \<and> length (rh_nodes s) = n \<and> (\<forall>i < length ys. nd_async (rh_nodes s ! i))"
  have step: "hoareM (?I ys) (load_async_web3_provider env x) (\<lambda>_. ?I (ys @ [x])) pool_wf"
    if xs: "[0..<n] = ys @ x # zs" for ys x zs
  proof -
    from arg_cong[OF xs, of length] have l: "length ys < n" by simp
    from xs have "[0..<n] ! length ys = x" by simp
    with l have x: "x = length ys" by simp
    show ?thesis
      using l by (intro hoareMI)
         (auto simp: load_async_web3_provider_def M_defs pool_defs x nth_list_update nth_append
            less_Suc_eq list_all_length split: if_splits prod.splits sum.splits)
  qed
  have "hoareM (?I []) (forM [0..<n] (load_async_web3_provider env)) (\<lambda>_. ?I [0..<n]) pool_wf"
    by (rule hoare_for[where I = ?I, OF step])
  then show "hoareM (\<lambda>s :: ('w, 'z) rpc_helper_scheme. pool_clients s \<and> length (rh_nodes s) = n)
      (forM [0..<n] (load_async_web3_provider env))
      (\<lambda>_ s. pool_clients s \<and> list_all nd_async (rh_nodes s)) pool_wf"
    by (rule hoareM_conseq) (auto simp: list_all_length)
qed

lemma hoare_rh_init: "hoareM pool_wf (rh_init env) (\<lambda>_. pool_ready) pool_wf"
  unfolding rh_init_def
  by (intro hoare_then[OF hoare_init_sync_nodes] hoare_then[OF hoare_load_shas]
        hoare_then[OF hoare_init_http] hoare_then[OF hoare_load_async] hoare_modify)
     (auto simp: pool_defs split: if_splits)

lemma hoare_ensure_init: "hoareM pool_wf (ensure_init env) (\<lambda>_. pool_ready) pool_wf"
  unfolding ensure_init_def
proof (rule hoare_bind[where R = "\<lambda>ready s. pool_wf s \<and> rh_initialized s = ready"])
  show "hoareM pool_wf (getsM rh_initialized) (\<lambda>ready s. pool_wf s \<and> rh_initialized s = ready) pool_wf"
    by (intro hoare_gets) simp
  show "hoareM (\<lambda>s. pool_wf s \<and> rh_initialized s = ready) (if ready then returnM () else rh_init env)
      (\<lambda>_. pool_ready) pool_wf" for ready
    by (intro hoare_if hoare_return hoareM_conseq[OF hoare_rh_init]) (auto simp: pool_ready_iff)
qed

text \<open>
  C23: from a well-formed pool, \<^verbatim>\<open>init\<close> either ends with every node that could be loaded counted
  and given its client, the rate limit scripts and the HTTP client in place, or it raises and
  leaves the pool well formed and not marked ready more than it was, so that it can be called
  again; a pool that is ready stays as it is.
\<close>

theorem ensure_init_ready:
  assumes "pool_wf s" and "ensure_init env s = (r, t)"
  shows "pool_wf t \<and> (r = Ret () \<longrightarrow> pool_ready t) \<and> (rh_initialized s \<longrightarrow> r = Ret () \<and> t = s)"
proof -
  have "r = Ret () \<Longrightarrow> pool_ready t"
    using hoareM_Ret[OF hoare_ensure_init assms(1)] assms(2) by blast
  moreover have "pool_wf t"
  proof (cases r)
    case (Ret u)
    with calculation show ?thesis by (simp add: pool_ready_iff)
  qed (use assms hoare_ensure_init in \<open>auto dest: hoareM_Raise hoareM_Pending\<close>)
  moreover have "rh_initialized s \<Longrightarrow> r = Ret () \<and> t = s"
    using assms(2) by (simp add: ensure_init_def M_simps)
  ultimately show ?thesis by blast
qed

section \<open>An example environment\<close>

text \<open>Every limit allows every call; every node answers.\<close>

definition open_limiter :: "'w limiter_env" where
  "open_limiter = env.extend basic_env (limiter_env.fields
     (\<lambda>script w. (Inr ''sha'', w)) (\<lambda>shas l incr key w. (Inr True, w))
     (\<lambda>shas l key w. (Inr (0, 0), w)))"

text \<open>The environment with nodes that answer, for a given limiter.\<close>

definition pool_env :: "'w limiter_env \<Rightarrow> ('w, ('w, 'z) rpc_helper_scheme) rpc_env" where
  "pool_env lenv = limiter_env.extend lenv (rpc_env.fields
     (\<lambda>u. Inr ()) (\<lambda>r. Inr [r]) (\<lambda>u w. (Inr (), w))
     (\<lambda>k x t w. (Inr (), w)) (\<lambda>k a b w. (Inr (), w))
     (\<lambda>u w. (Inr 130, w)) (\<lambda>u q w. (Inr [JObj [(''topics'', JList [JStr ''0xaa''])]], w))
     (\<lambda>u h w. (Inr (JObj [(''status'', JInt 1)]), w)) (\<lambda>u q w. (Inr ''0x'', w))
     (\<lambda>u q w. (Inr \<lparr>status_code = 200, response_text = [], response_json = Inr (JList [])\<rparr>, w))
     (\<lambda>a. Inr a) (\<lambda>abi evlog. Inr evlog) (\<lambda>fn. Inr ''0x'') (\<lambda>tys r. Inr [JStr r])
     (\<lambda>s. s) (\<lambda>tys args. Inr []) (\<lambda>tys v. Inr v) plain_retry plain_retry)"

lemmas pool_env_simps = pool_env_def open_limiter_def basic_env_def env.defs limiter_env.defs rpc_env.defs

lemma pool_env_tenacity [simp]:
  "tenacity (retry_events (pool_env lenv))" "tenacity (retry_json (pool_env lenv))"
  by (simp_all add: pool_env_def env.defs limiter_env.defs rpc_env.defs plain_retry_tenacity)

theorem ensure_init_ready_witness:
  "\<exists>t. ensure_init (pool_env open_limiter :: (unit, unit rpc_helper) rpc_env) (rpc_helper_init example_rpc False ()) = (Ret (), t) \<and>
       pool_ready t"
proof -
  obtain r t where run: "ensure_init (pool_env open_limiter :: (unit, unit rpc_helper) rpc_env) (rpc_helper_init example_rpc False ()) = (r, t)"
    by fastforce
  have "r = Ret ()"
    using run
    by (simp add: ensure_init_def rh_init_def init_sync_nodes_def load_web3_providers_and_rate_limits_def
        load_node_def load_rate_limit_shas_def load_rate_limiter_scripts_def init_http_clients_def
        load_async_web3_providers_def load_async_web3_provider_def rpc_helper_init_def M_defs
        pool_env_simps example_rpc_def Let_def)
  with ensure_init_ready[OF pool_wf_init run] run show ?thesis by blast
qed

section \<open>Moving through the nodes\<close>

text \<open>The nodes asked for logs, in order.\<close>

fun log_urls :: "event list \<Rightarrow> string list" where
  "log_urls [] = []"
| "log_urls (GetLogs u a b # evs) = u # log_urls evs"
| "log_urls (ev # evs) = log_urls evs"

fun is_get_logs :: "event \<Rightarrow> bool" where
  "is_get_logs (GetLogs u a b) = True"
| "is_get_logs ev = False"

lemma log_urls_append [simp]: "log_urls (evs @ evs') = log_urls evs @ log_urls evs'"
  by (induction evs rule: log_urls.induct) auto

lemma log_urls_none: "list_all (\<lambda>ev. \<not> is_get_logs ev) evs \<Longrightarrow> log_urls evs = []"
  by (induction evs rule: log_urls.induct) auto

lemma logs_record_call [logging]:
  "P (RedisZAdd key member t) \<Longrightarrow> P (RedisZRemRangeByScore key 0 (t - 3600)) \<Longrightarrow>
     keepsM (logs P) (record_call env key member t)"
  unfolding record_call_def by (intro logs.keeps_gather) (simp add: logs_callM)

lemma logs_check_node_limit [logging]:
  "(\<And>l a. P (RateHit l [a, ''eth_call''] incr)) \<Longrightarrow> (\<And>n. P (ScriptLoad n)) \<Longrightarrow>
     keepsM (logs P) (check_node_limit env node req msg incr)"
  unfolding check_node_limit_def by (intro logging) auto

text \<open>The fetch of the logs asks the node at most once.\<close>

lemma fetch_logs_cases:
  assumes "fetch_logs env node query from_block to_block event_abi s = (r, t)"
  obtains w evs where "t = s\<lparr>ext := w, trace := trace s @ evs\<rparr>"
    and "log_urls evs = [] \<or> log_urls evs = [nd_url node]"
proof -
  let ?quiet = "\<lambda>ev. \<not> is_get_logs ev"
  let ?ask = "\<lambda>url. bindM (callM (GetLogs url from_block to_block) (eth_get_logs env url query)) (\<lambda>event_log.
      mapM (\<lambda>evlog. liftM (decode_log env event_abi evlog)) event_log)"
  let ?before = "bindM (nowM env) (\<lambda>t.
      thenM (record_call env rpc_get_event_logs_calls (ZJson query) t) (liftM (async_client node)))"
  have before: "keepsM (logs ?quiet) ?before" by (intro logging) simp_all
  have after: "keepsM (logs ?quiet) (mapM (\<lambda>evlog. liftM (decode_log env event_abi evlog)) event_log)"
    for event_log by (intro logging)
  from assms have "bindM ?before ?ask s = (r, t)"
    by (auto simp: fetch_logs_def bindM_def thenM_def split: prod.splits res.splits)
  then show thesis
  proof (cases rule: bindM_E)
    case (Ret url u)
    from Ret(1) have url: "url = nd_url node"
      by (auto simp: bindM_def thenM_def liftM_def async_client_def
          split: prod.splits res.splits sum.splits if_splits)
    from before Ret(1) obtain w evs where
      u: "u = s\<lparr>ext := w, trace := trace s @ evs\<rparr>" "list_all ?quiet evs"
      by (rule logsE)
    obtain x v where v: "callM (GetLogs url from_block to_block) (eth_get_logs env url query) u = (x, v)"
      by fastforce
    then obtain w' where v': "v = u\<lparr>ext := w', trace := trace u @ [GetLogs url from_block to_block]\<rparr>"
      by (auto simp: callM_def thenM_def bindM_def emitM_def extM_def liftM_def
          split: prod.splits sum.splits)
    have "\<exists>w evs. t = v\<lparr>ext := w, trace := trace v @ evs\<rparr> \<and> list_all ?quiet evs"
    proof (cases x)
      case (Ret event_log)
      with \<open>?ask url u = (r, t)\<close> v have "mapM (\<lambda>evlog. liftM (decode_log env event_abi evlog)) event_log v = (r, t)"
        by (simp add: bindM_Ret)
      from logsE[OF after this] show ?thesis by blast
    qed (use \<open>?ask url u = (r, t)\<close> v in \<open>auto simp: bindM_def intro!: exI[of _ "ext v"] exI[of _ "[]"]\<close>)
    then obtain w2 evs2 where "t = v\<lparr>ext := w2, trace := trace v @ evs2\<rparr>" "list_all ?quiet evs2" by blast
    with u v' url show thesis
      by (intro that[of "evs @ [GetLogs url from_block to_block] @ evs2" w2]) (auto simp: log_urls_none)
  next
    case (Raise e)
    from logsE[OF before Raise(1)] show thesis by (metis that log_urls_none)
  next
    case Pending
    from logsE[OF before Pending(1)] show thesis by (metis that log_urls_none)
  qed
qed
lemma get_events_logs_attempt_cases:
  assumes "get_events_logs_attempt env address to_block from_block topics event_abi i s = (r, t)"
    and "0 \<le> i" and "i < int (length (rh_nodes s))"
  obtains w evs where "t = s\<lparr>ext := w, trace := trace s @ evs\<rparr>"
    and "log_urls evs = [] \<or> log_urls evs = [nd_url (rh_nodes s ! nat i)]"
proof -
  let ?node = "rh_nodes s ! nat i"
  from assms(2,3) have node: "py_index (rh_nodes s) i = Inr ?node"
    using py_index_nth[of "nat i" "rh_nodes s"] by simp
  show thesis
  proof (cases "to_checksum_address env address")
    case (Inl e)
    with assms(1) node show thesis
      by (intro that[of "[]" "ext s"]) (simp_all add: get_events_logs_attempt_def M_simps)
  next
    case (Inr a)
    let ?query = "JObj [(''address'', JStr a), (''toBlock'', JInt to_block),
                  (''fromBlock'', JInt from_block), (''topics'', topics)]"
    let ?check = "check_node_limit env ?node ?query
        ''exhausted_api_key_rate_limit inside get_events_logs'' (to_block - from_block + 1)"
    let ?fetch = "tryM (fetch_logs env ?node ?query from_block to_block event_abi)
        (\<lambda>e. raiseM (events_logs_error address to_block from_block topics e))"
    have check: "keepsM (logs (\<lambda>ev. \<not> is_get_logs ev)) ?check" by (intro logging) simp_all
    from assms(1) node Inr have "thenM ?check ?fetch s = (r, t)"
      by (simp add: get_events_logs_attempt_def M_simps Let_def)
    then show thesis
    proof (cases rule: thenM_E)
      case (Ret x u)
      from logsE[OF check Ret(1)] obtain w evs where
        u: "u = s\<lparr>ext := w, trace := trace s @ evs\<rparr>" "log_urls evs = []"
        by (metis log_urls_none)
      obtain r1 where "fetch_logs env ?node ?query from_block to_block event_abi u = (r1, t)"
        using Ret(2) by (cases rule: tryM_E) (auto simp: raiseM_def)
      then obtain w' evs' where "t = u\<lparr>ext := w', trace := trace u @ evs'\<rparr>"
        "log_urls evs' = [] \<or> log_urls evs' = [nd_url ?node]"
        by (rule fetch_logs_cases)
      with u show thesis by (intro that[of "evs @ evs'" w']) auto
    next
      case (Raise e)
      from logsE[OF check Raise(1)] show thesis by (metis that log_urls_none)
    next
      case Pending
      from logsE[OF check Pending(1)] show thesis by (metis that log_urls_none)
    qed
  qed
qed

lemma on_node_exception_cases:
  assumes "on_node_exception i e s = (r, t)"
  shows "t = s" and "r = Ret k \<Longrightarrow> k = (i + 1) mod rh_node_count s"
  using assms
  by (auto simp: on_node_exception_def M_defs Let_def split: if_splits sum.splits prod.splits res.splits)

text \<open>\<open>rotation ns k m\<close>: the URLs of \<open>m\<close> attempts that start at the node with index \<open>k\<close>.\<close>

definition rotation :: "rpc_node list \<Rightarrow> nat \<Rightarrow> nat \<Rightarrow> string list" where
  "rotation ns k m = map (\<lambda>j. nd_url (ns ! ((k + j) mod length ns))) [0..<m]"

lemma rotation_Suc:
  "k < length ns \<Longrightarrow> rotation ns k (Suc m) = nd_url (ns ! k) # rotation ns ((k + 1) mod length ns) m"
  by (simp add: rotation_def map_upt_Suc mod_add_left_eq del: upt_Suc)

definition moves :: "nat \<Rightarrow> int \<Rightarrow> ('w, 'z) rpc_helper_scheme \<Rightarrow> ('w, 'z) rpc_helper_scheme \<Rightarrow> bool" where
  "moves m k s t \<longleftrightarrow>
     (rh_node_count s = int (length (rh_nodes s)) \<and> 0 \<le> k \<and> k < int (length (rh_nodes s)) \<longrightarrow>
       (\<exists>w evs. t = s\<lparr>ext := w, trace := trace s @ evs\<rparr> \<and>
          subseq (log_urls evs) (rotation (rh_nodes s) (nat k) m)))"

lemma moves_one:
  assumes "get_events_logs_attempt env address to_block from_block topics event_abi k s = (x, u)"
  shows "moves 1 k s (u\<lparr>ext := w\<rparr>)" and "moves 1 k s u"
proof -
  have "\<exists>w' evs. u = s\<lparr>ext := w', trace := trace s @ evs\<rparr> \<and>
      subseq (log_urls evs) (rotation (rh_nodes s) (nat k) 1)"
    if "0 \<le> k" "k < int (length (rh_nodes s))"
    by (rule get_events_logs_attempt_cases[OF assms that])
       (use that in \<open>auto simp: rotation_def nat_less_iff intro!: exI\<close>)
  then show "moves 1 k s (u\<lparr>ext := w\<rparr>)" "moves 1 k s u"
    unfolding moves_def by force+
qed
lemma moves_step:
  assumes "get_events_logs_attempt env address to_block from_block topics event_abi k s = (Raise e, u)"
    and "on_node_exception k e u = (Ret k', v)" and "moves m k' (v\<lparr>ext := w\<rparr>) t"
  shows "moves (Suc m) k s t"
  unfolding moves_def
proof
  assume wf: "rh_node_count s = int (length (rh_nodes s)) \<and> 0 \<le> k \<and> k < int (length (rh_nodes s))"
  let ?ns = "rh_nodes s"
  from wf obtain w1 evs1 where u: "u = s\<lparr>ext := w1, trace := trace s @ evs1\<rparr>"
    "log_urls evs1 = [] \<or> log_urls evs1 = [nd_url (?ns ! nat k)]"
    by (auto elim: get_events_logs_attempt_cases[OF assms(1)])
  from on_node_exception_cases[OF assms(2)] u wf have
    v: "v = u" "k' = (k + 1) mod int (length ?ns)" by auto
  have pos: "0 < length ?ns" using wf by auto
  then have k': "0 \<le> k'" "k' < int (length ?ns)" "nat k' = (nat k + 1) mod length ?ns"
    using wf v(2) by (auto simp: nat_mod_distrib nat_add_distrib)
  with assms(3) u v wf obtain w2 evs2 where
    "t = v\<lparr>ext := w2, trace := trace v @ evs2\<rparr>" "subseq (log_urls evs2) (rotation ?ns (nat k') m)"
    unfolding moves_def by auto
  moreover have "nat k < length ?ns" using wf by (simp add: nat_less_iff)
  ultimately show "\<exists>w evs. t = s\<lparr>ext := w, trace := trace s @ evs\<rparr> \<and>
      subseq (log_urls evs) (rotation ?ns (nat k) (Suc m))"
    using u v(1) k'(3)
    by (intro exI[of _ w2] exI[of _ "evs1 @ evs2"]) (auto simp: rotation_Suc)
qed

text \<open>
  C18: a query of event logs through a ready pool asks the nodes in turn, from the first one on
  and around the list, one at a time, and it makes no more attempts than the retry limit: the
  nodes asked are, in order, among those of that many steps around the pool (a node whose rate
  limit stops the attempt is stepped over).
\<close>

theorem get_events_logs_rotates:
  assumes "tenacity (retry_events env)" and "pool_ready s" and "rh_nodes s \<noteq> []"
    and "get_events_logs cfg env address to_block from_block topics event_abi s = (r, t)"
  shows "\<exists>w evs m. t = s\<lparr>ext := w, trace := trace s @ evs\<rparr> \<and>
           m \<le> max 1 (nat (rpc_retry (chain_rpc (st_chain cfg)))) \<and>
           subseq (log_urls evs) (rotation (rh_nodes s) 0 m)"
proof -
  let ?f = "get_events_logs_attempt env address to_block from_block topics event_abi"
  from assms(2) have ready: "rh_initialized s" "rh_node_count s = int (length (rh_nodes s))"
    by (auto simp: pool_defs split: if_splits)
  from assms(4) have "retry_events env is_RPCException (rpc_retry (chain_rpc (st_chain cfg)))
      on_node_exception ?f 0 s = (r, t)"
    by (simp add: get_events_logs_def ensure_init_def M_simps ready)
  then have "\<exists>m. 1 \<le> m \<and> m \<le> max 1 (nat (rpc_retry (chain_rpc (st_chain cfg)))) \<and> moves m 0 s t"
  proof (rule tenacity_run[where f = ?f and bs = on_node_exception and R = moves, OF assms(1), rotated 4])
    show "moves 1 k s u" if "?f k s = (x, u)" for k s x u
      using that by (rule moves_one)
    show "moves 1 k s v" if "?f k s = (Raise e, u)" "on_node_exception k e u = (x, v)" for k s e u x v
      using moves_one(2)[OF that(1)] on_node_exception_cases(1)[OF that(2)] by simp
    show "moves 1 k s (v\<lparr>ext := w\<rparr>)"
      if "?f k s = (Raise e, u)" "on_node_exception k e u = (Ret k', v)" for k s e u k' v w
      using moves_one(1)[OF that(1)] on_node_exception_cases(1)[OF that(2)] by simp
    show "moves (Suc m) k s t"
      if "?f k s = (Raise e, u)" "on_node_exception k e u = (Ret k', v)" "moves m k' (v\<lparr>ext := w\<rparr>) t"
      for k s e u k' v w m t
      using that by (rule moves_step)
  qed
  then obtain m where m: "m \<le> max 1 (nat (rpc_retry (chain_rpc (st_chain cfg))))" "moves m 0 s t"
    by blast
  from m(2) ready(2) assms(3) obtain w evs where
    "t = s\<lparr>ext := w, trace := trace s @ evs\<rparr>" "subseq (log_urls evs) (rotation (rh_nodes s) 0 m)"
    unfolding moves_def by auto
  with m(1) show ?thesis by blast
qed

definition example_pool_at :: "'w \<Rightarrow> 'w rpc_helper" where
  "example_pool_at w = (rpc_helper_init example_rpc False w)\<lparr>
     rh_nodes := [\<lparr>nd_url = ''a'', nd_rate_limit = [], nd_async = True\<rparr>,
                  \<lparr>nd_url = ''b'', nd_rate_limit = [], nd_async = True\<rparr>],
     rh_node_count := 2, rh_shas := Some [(''s'', ''sha'')], rh_initialized := True,
     rh_sync_nodes_initialized := True, rh_client := True, rh_connector := True\<rparr>"

abbreviation example_pool :: "unit rpc_helper" where
  "example_pool \<equiv> example_pool_at ()"

lemma example_pool_ready: "pool_ready example_pool"
  by (simp add: example_pool_at_def rpc_helper_init_def pool_defs)

theorem get_events_logs_rotates_witness:
  "\<exists>w evs m. snd (get_events_logs example_settings
         ((pool_env open_limiter)\<lparr>eth_get_logs := (\<lambda>u q w. (Inl (Exn RequestsTimeout u), w))\<rparr>)
         ''c'' 130 101 (JList []) [] example_pool) = example_pool\<lparr>ext := w, trace := trace example_pool @ evs\<rparr> \<and>
     m \<le> 5 \<and> subseq (log_urls evs) (rotation (rh_nodes example_pool) 0 m)"
proof -
  let ?env = "(pool_env open_limiter)\<lparr>eth_get_logs := (\<lambda>u q w. (Inl (Exn RequestsTimeout u), w))\<rparr>"
  have "tenacity (retry_events ?env)" by simp
  moreover have "rh_nodes example_pool \<noteq> []" by (simp add: example_pool_at_def)
  ultimately show ?thesis
    using get_events_logs_rotates[where env = ?env and s = example_pool and cfg = example_settings
        and address = "''c''" and to_block = 130 and from_block = 101 and topics = "JList []"
        and event_abi = "[]", OF _ example_pool_ready _ prod.collapse[symmetric]]
    by simp
qed

section \<open>Batches\<close>

lemma batch_query_nth:
  "length (batch_query rpc_method params blocks r) = length blocks"
  "i < length blocks \<Longrightarrow> batch_query rpc_method params blocks r ! i =
     JObj [(''jsonrpc'', JStr ''2.0''), (''method'', JStr rpc_method),
           (''params'', JList (params (blocks ! i))), (''id'', JInt (r + int i))]"
  by (induction blocks arbitrary: r i) (auto simp: nth_Cons split: nat.split)

text \<open>
  A batch response counts as failed exactly when one of its items carries an error. The
  list of errors that is reported has each error followed by a \<^verbatim>\<open>None\<close>, since the result of
  \<^verbatim>\<open>append\<close> is appended as well.
\<close>

theorem response_errors_batch:
  assumes "response_errors (JList items) = Inr es"
  shows "es = concat (map (\<lambda>item. [projr (json_item ''error'' item), JNull])
               (filter (\<lambda>item. json_has_key ''error'' item = Inr True) items)) \<and>
         (es = [] \<longleftrightarrow> (\<forall>item \<in> set items. json_has_key ''error'' item = Inr False))"
proof -
  from assms have "list_errors items = Inr es" by simp
  then show ?thesis
    by (induction items arbitrary: es) (auto split: sum.splits bool.splits)
qed

theorem response_errors_batch_witness:
  "[JStr ''limit'', JNull] \<noteq> [] \<and>
   response_errors (JList [JObj [(''result'', JNull)], JObj [(''error'', JStr ''limit'')]]) =
     Inr [JStr ''limit'', JNull]"
  using response_errors_batch[of "[JObj [(''result'', JNull)], JObj [(''error'', JStr ''limit'')]]"
      "[JStr ''limit'', JNull]"] by simp

lemma balances_answers:
  "balances (map (\<lambda>(i, v). JObj [(''id'', JInt i), (''result'', v)]) answers) = Inr (map snd answers)"
  by (induction answers) auto

text \<open>
  The balances of a block range are asked for in one batch with one request per block, with
  the ids 1, 2, and so on in block order, and they are returned in the order in which the node
  lists its answers. The ids of the answers are not looked at: a node that answers the batch in
  another order, as JSON-RPC allows, has its balances attributed to the wrong blocks.
\<close>

theorem batch_eth_get_balance_positional:
  assumes "ensure_init env s = (Ret (), u)"
    and "make_rpc_jsonrpc_call cfg env (JList
           (map (\<lambda>i. JObj [(''jsonrpc'', JStr ''2.0''), (''method'', JStr ''eth_getBalance''),
              (''params'', JList [JStr address, JStr (hex_str (from_block + int i))]),
              (''id'', JInt (1 + int i))]) [0..<nat (to_block - from_block + 1)])) u =
         (Ret (JList (map (\<lambda>(i, v). JObj [(''id'', JInt i), (''result'', v)]) answers)), t)"
  shows "batch_eth_get_balance_on_block_range cfg env address from_block to_block s =
           (Ret (map snd answers), t)"
proof -
  let ?params = "\<lambda>block. [JStr address, JStr (hex_str block)]"
  have "batch_query ''eth_getBalance'' ?params [from_block..to_block] 1 =
      map (\<lambda>i. JObj [(''jsonrpc'', JStr ''2.0''), (''method'', JStr ''eth_getBalance''),
        (''params'', JList (?params (from_block + int i))), (''id'', JInt (1 + int i))])
        [0..<nat (to_block - from_block + 1)]"
    by (rule nth_equalityI) (auto simp: batch_query_nth nth_upto)
  then show ?thesis
    using assms
    by (simp add: batch_eth_get_balance_on_block_range_def M_simps balances_answers)
qed

text \<open>The example: a node that answers a batch of two in the other order.\<close>

definition swapped_answers :: json where
  "swapped_answers = JList (map (\<lambda>(i, v). JObj [(''id'', JInt i), (''result'', v)])
     [(2, JStr ''0x5''), (1, JStr ''0x7'')])"

definition swapping :: "(unit, unit rpc_helper) rpc_env" where
  "swapping = (pool_env open_limiter)\<lparr>client_post := (\<lambda>u q w.
     (Inr \<lparr>status_code = 200, response_text = [], response_json = Inr swapped_answers\<rparr>, w))\<rparr>"

lemma swapping_simps:
  "nowM swapping s = (Ret 1000, s)"
  "client_post swapping u q w =
     (Inr \<lparr>status_code = 200, response_text = [], response_json = Inr swapped_answers\<rparr>, w)"
  "tenacity (retry_json swapping)"
  "\<exists>x u. record_call swapping k m c example_pool = (Ret x, u) \<and> rh_client u"
  by (simp_all add: swapping_def nowM_def record_call_def M_defs pool_env_simps example_pool_at_def
      rpc_helper_init_def plain_retry_tenacity)

lemma swapped_errors: "response_errors swapped_answers = Inr []"
  by (simp add: swapped_answers_def)

lemma example_node: "py_index (rh_nodes example_pool) 0 =
    Inr \<lparr>nd_url = ''a'', nd_rate_limit = [], nd_async = True\<rparr>"
  by (simp add: example_pool_at_def py_index_def)

lemma example_no_limit:
  "check_node_limit env \<lparr>nd_url = u, nd_rate_limit = [], nd_async = b\<rparr> q m n example_pool =
     (Ret True, example_pool)"
proof -
  have shas: "rh_shas example_pool = Some [(''s'', ''sha'')]" by (simp add: example_pool_at_def)
  have "generic_rate_limiter env [] key_bits (Some [(''s'', ''sha'')]) n example_pool =
      (Ret (True, 0, []), example_pool)" for key_bits
    by (simp only: generic_with_shas limits_loop.simps returnM_apply)
  then show ?thesis
    by (simp only: check_node_limit_def M_step shas rpc_node.simps
        check_rpc_rate_limit_def bindM_Ret[OF tryM_Ret]) (simp add: returnM_apply)
qed

lemma swapping_call:
  "\<exists>t. make_rpc_jsonrpc_call example_settings swapping q example_pool = (Ret swapped_answers, t)"
proof -
  obtain x u where rec: "record_call swapping rpc_json_rpc_calls (ZJson q) 1000 example_pool = (Ret x, u)"
    "rh_client u"
    using swapping_simps(4) by blast
  let ?resp = "\<lparr>status_code = 200, response_text = [], response_json = Inr swapped_answers\<rparr>"
  let ?v = "u\<lparr>ext := ext u, trace := trace u @ [RpcPost ''a'' q]\<rparr>"
  have post: "callM (RpcPost ''a'' q) (client_post swapping ''a'' q) u = (Ret ?resp, ?v)"
    by (rule callM_Inr) (rule swapping_simps(2))
  have "jsonrpc_attempt swapping q 0 example_pool = (Ret swapped_answers, ?v)"
    unfolding jsonrpc_attempt_def
    by (simp only: M_step example_node example_no_limit swapping_simps(1) rec if_True rpc_node.simps post
        http_response.simps returnM_apply thenM_Ret bindM_Ret tryM_Ret prod.case swapped_errors
        refl simp_thms) (simp add: M_step returnM_apply)
  then have "\<exists>t. jsonrpc_attempt swapping q 0 example_pool = (Ret swapped_answers, t)" by blast
  then obtain t where "jsonrpc_attempt swapping q 0 example_pool = (Ret swapped_answers, t)" ..
  then have "make_rpc_jsonrpc_call example_settings swapping q example_pool = (Ret swapped_answers, t)"
    unfolding make_rpc_jsonrpc_call_def
    by (rule tenacity_Ret[where f = "jsonrpc_attempt swapping q" and k = 0, OF swapping_simps(3)])
  then show ?thesis ..
qed

theorem batch_eth_get_balance_positional_witness:
  "fst (batch_eth_get_balance_on_block_range example_settings swapping ''0xa'' 100 101 example_pool) =
     Ret [JStr ''0x5'', JStr ''0x7'']"
proof -
  have ini: "ensure_init swapping example_pool = (Ret (), example_pool)"
    by (simp add: ensure_init_def example_pool_at_def M_simps)
  obtain t where "make_rpc_jsonrpc_call example_settings swapping (JList
           (map (\<lambda>i. JObj [(''jsonrpc'', JStr ''2.0''), (''method'', JStr ''eth_getBalance''),
              (''params'', JList [JStr ''0xa'', JStr (hex_str (100 + int i))]),
              (''id'', JInt (1 + int i))]) [0..<nat (101 - 100 + 1)])) example_pool = (Ret swapped_answers, t)"
    using swapping_call by blast
  from batch_eth_get_balance_positional[OF ini this[unfolded swapped_answers_def]] show ?thesis by simp
qed

end
