(* ===== verification/Tx_Lock.thy ===== *)
theory Tx_Lock
  imports Rpc_Helper
begin

text \<open>
  The decorator \<^verbatim>\<open>semaphore_then_aiorwlock_aqcuire_release\<close> of \<^verbatim>\<open>utils/helpers.py\<close>: it runs a
  method while holding one permit of the object's semaphore and the writer side of its
  readers-writer lock. \<^verbatim>\<open>asyncio.Semaphore\<close> is a counter. The lock is a package (aiorwlock):
  a parameter, of which \<open>writer_lock\<close> states the exclusion it promises.
\<close>

section \<open>The locks of an object\<close>

text \<open>
  Operations of a writer lock, for a task of the event loop given by its number:
  \<^verbatim>\<open>acquire\<close> answers \<open>None\<close> when it has to wait, else raises or gives the lock taken.
\<close>

record 'l rwlock =
  lk_new :: 'l
  lk_acquire :: "nat \<Rightarrow> 'l \<Rightarrow> (exn + 'l) option"
  lk_release :: "nat \<Rightarrow> 'l \<Rightarrow> exn + 'l"

record ('w, 'l) tx_locks = "'w rpc_helper" +
  tl_semaphore :: nat
  tl_rwlock :: "'l option" \<comment> \<open>\<^verbatim>\<open>None\<close> before \<^verbatim>\<open>setup\<close>\<close>

lemma tx_locks_swap [simp]:
  "s\<lparr>tl_semaphore := n, trace := tr\<rparr> = s\<lparr>trace := tr, tl_semaphore := n\<rparr>"
  "s\<lparr>tl_rwlock := l, trace := tr\<rparr> = s\<lparr>trace := tr, tl_rwlock := l\<rparr>"
  by (cases s; simp)+

text \<open>
  Exclusion: the lock counts how often each task holds it. A task gets it only when no other
  task holds it, and can always give back what it holds.
\<close>

definition writer_lock :: "'l rwlock \<Rightarrow> ('l \<Rightarrow> nat \<Rightarrow> nat) \<Rightarrow> bool" where
  "writer_lock lk depth \<longleftrightarrow>
     (\<forall>t. depth (lk_new lk) t = 0) \<and>
     (\<forall>t l l'. lk_acquire lk t l = Some (Inr l') \<longrightarrow>
        (\<forall>u. u \<noteq> t \<longrightarrow> depth l u = 0) \<and> depth l' = (depth l)(t := Suc (depth l t))) \<and>
     (\<forall>t l. 0 < depth l t \<longrightarrow>
        (\<exists>l'. lk_release lk t l = Inr l' \<and> depth l' = (depth l)(t := depth l t - 1)))"

lemma writer_lock_new: "writer_lock lk depth \<Longrightarrow> depth (lk_new lk) t = 0"
  by (simp add: writer_lock_def)

lemma writer_lock_acquire:
  assumes "writer_lock lk depth" and "lk_acquire lk t l = Some (Inr l')"
  shows "u \<noteq> t \<Longrightarrow> depth l u = 0" and "depth l' = (depth l)(t := Suc (depth l t))"
  using assms unfolding writer_lock_def by blast+

lemma writer_lock_release:
  assumes "writer_lock lk depth" and "0 < depth l t"
  obtains l' where "lk_release lk t l = Inr l'" and "depth l' = (depth l)(t := depth l t - 1)"
  using assms unfolding writer_lock_def by blast

section \<open>The decorator\<close>

definition acquire_semaphore :: "(('w, 'l, 'z) tx_locks_scheme, unit) M" where
  "acquire_semaphore =
     bindM (getsM tl_semaphore) (\<lambda>v.
     if v = 0 then pendingM
     else thenM (emitM SemaphoreAcquire) (modifyM (\<lambda>s. s\<lparr>tl_semaphore := v - 1\<rparr>)))"

definition release_semaphore :: "(('w, 'l, 'z) tx_locks_scheme, unit) M" where
  "release_semaphore =
     thenM (emitM SemaphoreRelease) (modifyM (\<lambda>s. s\<lparr>tl_semaphore := tl_semaphore s + 1\<rparr>))"

definition no_rwlock :: exn where
  "no_rwlock = Exn AttributeError ''NoneType object has no attribute writer_lock''"

definition acquire_writer :: "'l rwlock \<Rightarrow> nat \<Rightarrow> (('w, 'l, 'z) tx_locks_scheme, unit) M" where
  "acquire_writer lk task =
     bindM (getsM tl_rwlock) (\<lambda>lock.
     case lock of
       None \<Rightarrow> raiseM no_rwlock
     | Some l \<Rightarrow>
         (case lk_acquire lk task l of
            None \<Rightarrow> pendingM
          | Some (Inl e) \<Rightarrow> raiseM e
          | Some (Inr l') \<Rightarrow>
              thenM (emitM WriterLockAcquire) (modifyM (\<lambda>s. s\<lparr>tl_rwlock := Some l'\<rparr>))))"

definition release_writer :: "'l rwlock \<Rightarrow> nat \<Rightarrow> (('w, 'l, 'z) tx_locks_scheme, unit) M" where
  "release_writer lk task =
     bindM (getsM tl_rwlock) (\<lambda>lock.
     case lock of
       None \<Rightarrow> raiseM no_rwlock
     | Some l \<Rightarrow>
         (case lk_release lk task l of
            Inl e \<Rightarrow> raiseM e
          | Inr l' \<Rightarrow>
              thenM (emitM WriterLockRelease) (modifyM (\<lambda>s. s\<lparr>tl_rwlock := Some l'\<rparr>))))"

text \<open>
  The wrapped method. Releasing the semaphore cannot raise; an exception of releasing the lock
  is logged; an exception of the method goes to the caller with nothing released.
\<close>

definition semaphore_then_aiorwlock_aqcuire_release ::
  "'l rwlock \<Rightarrow> nat \<Rightarrow> (('w, 'l, 'z) tx_locks_scheme, 'a) M \<Rightarrow>
     (('w, 'l, 'z) tx_locks_scheme, 'a) M" where
  "semaphore_then_aiorwlock_aqcuire_release lk task fn =
     thenM acquire_semaphore
     (thenM (tryM (acquire_writer lk task) (\<lambda>e. thenM release_semaphore (raiseM e)))
     (bindM fn (\<lambda>tx_hash.
      thenM release_semaphore
      (thenM (tryM (release_writer lk task) (\<lambda>e. returnM ()))
      (returnM tx_hash)))))"

section \<open>What the decorator does to the locks\<close>

text \<open>The state in which the method runs.\<close>

definition entered ::
  "'l rwlock \<Rightarrow> nat \<Rightarrow> ('w, 'l, 'z) tx_locks_scheme \<Rightarrow> ('w, 'l, 'z) tx_locks_scheme \<Rightarrow> bool" where
  "entered lk task s u \<longleftrightarrow>
     0 < tl_semaphore s \<and>
     (\<exists>l l'. tl_rwlock s = Some l \<and> lk_acquire lk task l = Some (Inr l') \<and>
        u = s\<lparr>trace := trace s @ [SemaphoreAcquire, WriterLockAcquire],
              tl_semaphore := tl_semaphore s - 1, tl_rwlock := Some l'\<rparr>)"

text \<open>The locks an operation does not touch.\<close>

definition same_locks ::
  "('w, 'l, 'z) tx_locks_scheme \<Rightarrow> ('w, 'l, 'z) tx_locks_scheme \<Rightarrow> bool" where
  "same_locks s t \<longleftrightarrow> tl_semaphore t = tl_semaphore s \<and> tl_rwlock t = tl_rwlock s"

interpretation same_locks: env_frame same_locks
  by unfold_locales (auto simp: same_locks_def)

lemma same_locks_logs: "keepsM (logs P) m \<Longrightarrow> keepsM same_locks m"
  by (erule keepsM_mono) (auto simp: logs_def same_locks_def)

lemma same_locks_modify:
  "(\<And>s. tl_semaphore (f s) = tl_semaphore s \<and> tl_rwlock (f s) = tl_rwlock s) \<Longrightarrow>
     keepsM same_locks (modifyM f)"
  by (simp add: keepsM_def modifyM_def same_locks_def)

text \<open>The release after the method, and what follows it.\<close>

definition leave :: "'l rwlock \<Rightarrow> nat \<Rightarrow> 'a \<Rightarrow> (('w, 'l, 'z) tx_locks_scheme, 'a) M" where
  "leave lk task a =
     thenM release_semaphore (thenM (tryM (release_writer lk task) (\<lambda>e. returnM ())) (returnM a))"

lemma release_semaphore_run:
  "release_semaphore s =
     (Ret (), s\<lparr>trace := trace s @ [SemaphoreRelease], tl_semaphore := tl_semaphore s + 1\<rparr>)"
  by (simp add: release_semaphore_def M_defs)

lemma acquire_writer_run:
  "acquire_writer lk task s =
     (case tl_rwlock s of
        None \<Rightarrow> (Raise no_rwlock, s)
      | Some l \<Rightarrow>
          (case lk_acquire lk task l of
             None \<Rightarrow> (Pending, s)
           | Some (Inl e) \<Rightarrow> (Raise e, s)
           | Some (Inr l') \<Rightarrow>
               (Ret (), s\<lparr>trace := trace s @ [WriterLockAcquire], tl_rwlock := Some l'\<rparr>)))"
  by (simp add: acquire_writer_def M_defs split: option.split sum.split)

lemma release_writer_run:
  "release_writer lk task s =
     (case tl_rwlock s of
        None \<Rightarrow> (Raise no_rwlock, s)
      | Some l \<Rightarrow>
          (case lk_release lk task l of
             Inl e \<Rightarrow> (Raise e, s)
           | Inr l' \<Rightarrow>
               (Ret (), s\<lparr>trace := trace s @ [WriterLockRelease], tl_rwlock := Some l'\<rparr>)))"
  by (simp add: release_writer_def M_defs split: option.split sum.split)

lemma leave_held:
  assumes "tl_rwlock v = Some l" and "lk_release lk task l = Inr l'"
  shows "leave lk task a v =
     (Ret a, v\<lparr>trace := trace v @ [SemaphoreRelease, WriterLockRelease],
                tl_semaphore := tl_semaphore v + 1, tl_rwlock := Some l'\<rparr>)"
  using assms
  by (simp add: leave_def thenM_Ret[OF release_semaphore_run] thenM_Ret[OF tryM_Ret]
      release_writer_run returnM_apply)

lemma acquire_both:
  assumes "semaphore_then_aiorwlock_aqcuire_release lk task fn s = (r, t)"
  obtains (waiting) "r = Pending"
  | (refused) e where "r = Raise e" and "tl_rwlock t = tl_rwlock s" and "is_Exception e \<longrightarrow> same_locks s t"
      and "submitted (trace t) = submitted (trace s)"
  | (inside) u where "entered lk task s u" and "bindM fn (leave lk task) u = (r, t)"
proof (cases "tl_semaphore s")
  case 0
  with assms that(1) show thesis
    by (simp add: semaphore_then_aiorwlock_aqcuire_release_def acquire_semaphore_def M_defs)
next
  case (Suc n)
  let ?s = "s\<lparr>trace := trace s @ [SemaphoreAcquire], tl_semaphore := n\<rparr>"
  have "acquire_semaphore s = (Ret (), ?s)"
    using Suc by (simp add: acquire_semaphore_def M_defs)
  then have run: "thenM (tryM (acquire_writer lk task) (\<lambda>e. thenM release_semaphore (raiseM e)))
      (bindM fn (leave lk task)) ?s = (r, t)"
    using assms unfolding semaphore_then_aiorwlock_aqcuire_release_def leave_def
    by (simp only: thenM_Ret)
  then show thesis
  proof (cases rule: thenM_E)
    case (Ret a u)
    from Ret(1) have "entered lk task s u"
      using Suc
      by (cases rule: tryM_E)
         (auto simp: entered_def acquire_writer_run release_semaphore_run thenM_def bindM_def raiseM_def
               split: option.splits sum.splits)
    with Ret(2) that(3) show thesis by blast
  next
    case (Raise e)
    from Raise(1) have "tl_rwlock t = tl_rwlock s \<and> (is_Exception e \<longrightarrow> same_locks s t) \<and>
        submitted (trace t) = submitted (trace s)"
      using Suc
      by (cases rule: tryM_E)
         (auto simp: same_locks_def no_rwlock_def acquire_writer_run release_semaphore_run thenM_def bindM_def raiseM_def
               split: option.splits sum.splits)
    with Raise(2) that(2) show thesis by blast
  next
    case Pending
    with that(1) show thesis by blast
  qed
qed


text \<open>With a permit and a lock that can be taken, the method is entered.\<close>

lemma enter_run:
  assumes "entered lk task s u"
  shows "semaphore_then_aiorwlock_aqcuire_release lk task fn s = bindM fn (leave lk task) u"
proof -
  from assms obtain l l' n where "tl_semaphore s = Suc n" "tl_rwlock s = Some l"
    "lk_acquire lk task l = Some (Inr l')"
    "u = s\<lparr>trace := trace s @ [SemaphoreAcquire, WriterLockAcquire], tl_semaphore := n, tl_rwlock := Some l'\<rparr>"
    by (auto simp: entered_def gr0_conv_Suc)
  moreover from this(1) have "acquire_semaphore s =
      (Ret (), s\<lparr>trace := trace s @ [SemaphoreAcquire], tl_semaphore := n\<rparr>)"
    by (simp add: acquire_semaphore_def M_defs)
  ultimately show ?thesis
    unfolding semaphore_then_aiorwlock_aqcuire_release_def leave_def[symmetric]
    by (simp add: thenM_Ret thenM_Ret[OF tryM_Ret] acquire_writer_run)
qed

text \<open>The three ends of a guarded method that got the locks.\<close>

lemma inside_E:
  assumes "writer_lock lk depth" and "keepsM same_locks fn" and "entered lk task s u"
    and "bindM fn (leave lk task) u = (r, t)"
  obtains (returned) a v l l' where "r = Ret a" and "fn u = (Ret a, v)"
      and "tl_rwlock s = Some l" and "tl_rwlock t = Some l'" and "depth l' = depth l"
      and "tl_semaphore t = tl_semaphore s"
      and "t = v\<lparr>trace := trace v @ [SemaphoreRelease, WriterLockRelease],
                 tl_semaphore := tl_semaphore v + 1, tl_rwlock := Some l'\<rparr>"
  | (raised) e l l' where "r = Raise e" and "fn u = (Raise e, t)"
      and "tl_rwlock s = Some l" and "tl_rwlock t = Some l'"
      and "depth l' = (depth l)(task := Suc (depth l task))"
      and "Suc (tl_semaphore t) = tl_semaphore s"
  | (running) "r = Pending" and "fn u = (Pending, t)"
proof -
  from assms(3) obtain l l' where l: "tl_rwlock s = Some l" "lk_acquire lk task l = Some (Inr l')"
    and u: "tl_rwlock u = Some l'" "Suc (tl_semaphore u) = tl_semaphore s"
    by (auto simp: entered_def)
  have d: "depth l' = (depth l)(task := Suc (depth l task))"
    by (rule writer_lock_acquire(2)[OF assms(1) l(2)])
  from assms(4) show thesis
  proof (cases rule: bindM_E)
    case (Ret a v)
    from keepsMD[OF assms(2) Ret(1)] u have v: "tl_rwlock v = Some l'" "Suc (tl_semaphore v) = tl_semaphore s"
      by (simp_all add: same_locks_def)
    obtain m where m: "lk_release lk task l' = Inr m" "depth m = (depth l')(task := depth l' task - 1)"
      using writer_lock_release[OF assms(1), of l' task] d by auto
    from leave_held[OF v(1) m(1), of a] Ret(2) have
      rt: "r = Ret a" "t = v\<lparr>trace := trace v @ [SemaphoreRelease, WriterLockRelease],
                 tl_semaphore := tl_semaphore v + 1, tl_rwlock := Some m\<rparr>" by simp_all
    moreover have "depth m = depth l" by (simp add: m(2) d)
    ultimately show thesis using returned[OF rt(1) Ret(1) l(1), of m] v(2) by simp
  next
    case (Raise e)
    from keepsMD[OF assms(2) Raise(1)] u have "tl_rwlock t = Some l'" "Suc (tl_semaphore t) = tl_semaphore s"
      by (simp_all add: same_locks_def)
    with raised[OF Raise(2,1) l(1)] d show thesis by blast
  next
    case Pending
    with running show thesis by blast
  qed
qed

text \<open>
  C21: a method under the decorator that returns leaves the semaphore and the lock as it found
  them. One that raises, after it got the lock, leaves one permit of the semaphore and one hold
  of the lock taken for good: nothing is released on that path.
\<close>

theorem decorator_releases_only_on_success:
  assumes "writer_lock lk depth" and "keepsM same_locks fn" and "tl_rwlock s = Some l"
    and "semaphore_then_aiorwlock_aqcuire_release lk task fn s = (r, t)"
  shows "case r of
      Ret a \<Rightarrow> tl_semaphore t = tl_semaphore s \<and>
               (\<exists>l'. tl_rwlock t = Some l' \<and> depth l' = depth l)
    | Raise e \<Rightarrow>
        (tl_rwlock t = Some l \<and> (is_Exception e \<longrightarrow> tl_semaphore t = tl_semaphore s)) \<or>
        (\<exists>u l'. entered lk task s u \<and> fn u = (Raise e, t) \<and>
           tl_semaphore t = tl_semaphore s - 1 \<and> tl_rwlock t = Some l' \<and>
           depth l' = (depth l)(task := depth l task + 1))
    | Pending \<Rightarrow> True"
  using assms(4)
proof (cases rule: acquire_both)
  case waiting
  then show ?thesis by simp
next
  case (refused e)
  with assms(3) show ?thesis by (simp add: same_locks_def)
next
  case (inside u)
  from assms(1,2) inside show ?thesis
  proof (cases rule: inside_E)
    case (returned a v l l')
    with assms(3) show ?thesis by simp
  next
    case (raised e l l')
    with assms(3) inside(1) show ?thesis by (auto intro!: exI[of _ u] exI[of _ l'])
  qed simp
qed

text \<open>A lock for the examples: the owner and the number of times it holds the lock.\<close>

definition counting_lock :: "(nat \<times> nat) rwlock" where
  "counting_lock =
     \<lparr>lk_new = (0, 0),
      lk_acquire = (\<lambda>t (w, n). if n = 0 \<or> w = t then Some (Inr (t, Suc n)) else None),
      lk_release = (\<lambda>t (w, n). if n = 0 \<or> w \<noteq> t
                     then Inl (Exn (OtherException ''RuntimeError'') ''Cannot release an un-acquired lock'')
                     else Inr (w, n - 1))\<rparr>"

definition counting_depth :: "nat \<times> nat \<Rightarrow> nat \<Rightarrow> nat" where
  "counting_depth l t = (if fst l = t then snd l else 0)"

lemma counting_lock_writer_lock: "writer_lock counting_lock counting_depth"
  by (auto simp: writer_lock_def counting_lock_def counting_depth_def fun_eq_iff split: if_splits)

theorem decorator_releases_only_on_success_witness:
  "\<exists>t. semaphore_then_aiorwlock_aqcuire_release counting_lock 4 (raiseM (Exn ValueError ''no''))
       \<lparr>ext = (), trace = [], rh_archive_mode = False, rh_settings = example_rpc, rh_nodes = [],
        rh_current_node_index = 0, rh_node_count = 0, rh_shas = None, rh_initialized = False,
        rh_sync_nodes_initialized = False, rh_client = False, rh_connector = False,
        tl_semaphore = 20, tl_rwlock = Some (0, 0)\<rparr> = (Raise (Exn ValueError ''no'' :: exn) :: unit res, t) \<and>
     tl_semaphore t = 19 \<and> (\<exists>l'. tl_rwlock t = Some l' \<and> counting_depth l' 4 = 1)"
  (is "\<exists>t. ?run = _ \<and> _")
proof -
  obtain t where t: "?run = (Raise (Exn ValueError ''no''), t)" and e: "tl_rwlock t \<noteq> Some (0, 0)"
    by (simp add: semaphore_then_aiorwlock_aqcuire_release_def acquire_semaphore_def
        acquire_writer_def counting_lock_def M_defs)
  have "keepsM same_locks (raiseM (Exn ValueError ''no'') :: ((unit, nat \<times> nat) tx_locks, unit) M)"
    by (rule same_locks.keeps_raise)
  from decorator_releases_only_on_success[OF counting_lock_writer_lock this _ t] e
  have "tl_semaphore t = 19 \<and> (\<exists>l'. tl_rwlock t = Some l' \<and>
      counting_depth l' = (counting_depth (0, 0))(4 := counting_depth (0, 0) 4 + 1))"
    by auto
  moreover have "counting_depth (0, 0) u = 0" for u by (simp add: counting_depth_def)
  ultimately show ?thesis by (auto simp: t)
qed

end
