(* ===== verification/Redis_Conn.thy ===== *)
theory Redis_Conn
  imports Data_Models
begin

text \<open>
  \<^verbatim>\<open>utils/redis_conn.py\<close>: the URL of the Redis server, the pool object of the services, and the
  decorator that gives a function a connection. The package redis is a parameter.
\<close>

section \<open>The URL\<close>

definition construct_redis_url :: "redis_config \<Rightarrow> string" where
  "construct_redis_url c =
     (case redis_password c of
        Some p \<Rightarrow>
          (if p \<noteq> []
           then ''redis://'' @ p @ ''@'' @ redis_host c @ '':'' @ int_str (redis_port c) @ ''/'' @ int_str (redis_db c)
           else ''redis://'' @ redis_host c @ '':'' @ int_str (redis_port c) @ ''/'' @ int_str (redis_db c))
      | None \<Rightarrow>
          ''redis://'' @ redis_host c @ '':'' @ int_str (redis_port c) @ ''/'' @ int_str (redis_db c))"

section \<open>The pool\<close>

text \<open>A connection pool as \<^verbatim>\<open>aioredis.from_url\<close> makes it.\<close>

record redis_handle =
  rd_url :: string
  rd_size :: int

record redis_pool =
  writer_redis_conf :: redis_config
  reader_redis_conf :: "redis_config option"
  pool_size :: int
  replication_mode :: bool
  writer_redis_pool :: "redis_handle option"
  reader_redis_pool :: "redis_handle option"

definition redis_pool_init ::
  "redis_config \<Rightarrow> redis_config option \<Rightarrow> int \<Rightarrow> bool \<Rightarrow> redis_pool" where
  "redis_pool_init writer reader n replication =
     \<lparr>writer_redis_conf = writer, reader_redis_conf = reader, pool_size = n,
      replication_mode = replication, writer_redis_pool = None, reader_redis_pool = None\<rparr>"

type_synonym 'w from_url = "string \<Rightarrow> int \<Rightarrow> 'w \<Rightarrow> (exn + unit) \<times> 'w"

definition get_redis_pool ::
  "'w from_url \<Rightarrow> redis_config option \<Rightarrow> int \<Rightarrow> (('w, 'z) world_scheme, redis_handle) M" where
  "get_redis_pool from_url conf n =
     (case conf of
        None \<Rightarrow> raiseM (Exn AttributeError ''NoneType object has no attribute password'')
      | Some c \<Rightarrow>
          (let url = construct_redis_url c
           in thenM (extM (from_url url n)) (returnM \<lparr>rd_url = url, rd_size = n\<rparr>)))"

definition populate ::
  "'w from_url \<Rightarrow> redis_pool \<Rightarrow> (('w, 'z) world_scheme, redis_pool) M" where
  "populate from_url p =
     bindM (get_redis_pool from_url (Some (writer_redis_conf p)) (pool_size p)) (\<lambda>writer.
     if replication_mode p
     then returnM (p\<lparr>writer_redis_pool := Some writer, reader_redis_pool := Some writer\<rparr>)
     else bindM (get_redis_pool from_url (reader_redis_conf p) (pool_size p)) (\<lambda>reader.
          returnM (p\<lparr>writer_redis_pool := Some writer, reader_redis_pool := Some reader\<rparr>)))"

lemma logs_populate [logging]: "keepsM (logs P) (populate from_url p)"
  unfolding populate_def get_redis_pool_def Let_def by (intro logging)

section \<open>Connections for decorated functions\<close>

text \<open>
  The module's connection settings are a dictionary that is updated in place. \<open>'p\<close> is the type
  of connection pools, \<open>'v\<close> that of the values passed to functions, connections among them.
\<close>

record 'w redis_module = "'w world" +
  redis_conn_conf :: "(string \<times> json) list"

record ('p, 'v) redis_lib =
  blocking_pool :: "(string \<times> json) list \<Rightarrow> int \<Rightarrow> exn + 'p"
  redis_client :: "'p \<Rightarrow> exn + 'v"

definition redis_conf_dict :: "redis_config \<Rightarrow> (string \<times> json) list" where
  "redis_conf_dict c =
     [(''host'', JStr (redis_host c)), (''port'', JInt (redis_port c)), (''db'', JInt (redis_db c)),
      (''password'', opt_str (redis_password c))]"

definition inject_retry_exception_conf :: "(string \<times> json) list \<Rightarrow> (string \<times> json) list" where
  "inject_retry_exception_conf conf =
     AList.update ''retry_on_error'' (JList [JStr ''ReadOnlyError'']) conf"

definition is_KeyboardInterrupt :: "exn \<Rightarrow> bool" where
  "is_KeyboardInterrupt e \<longleftrightarrow> has_class (OtherBaseException ''KeyboardInterrupt'') e"

text \<open>
  The context manager around a body that uses the connection. An interrupt of the body ends the
  \<^verbatim>\<open>with\<close> statement without a value (\<open>None\<close>); one that comes while the client is made ends the
  generator before it yielded, which contextlib reports.
\<close>

definition get_redis_conn_from_pool ::
  "('p, 'v) redis_lib \<Rightarrow> 'p \<Rightarrow> ('v \<Rightarrow> ('s, 'a) M) \<Rightarrow> ('s, 'a option) M" where
  "get_redis_conn_from_pool lib connection_pool body =
     bindM (try_elseM is_KeyboardInterrupt (liftM (redis_client lib connection_pool))
              (\<lambda>e. raiseM (Exn (OtherException ''RuntimeError'') ''generator didnt yield'')) returnM)
       (\<lambda>redis_conn. try_elseM is_KeyboardInterrupt (body redis_conn)
          (\<lambda>e. returnM None) (\<lambda>a. returnM (Some a)))"

definition conn_given :: "string list \<Rightarrow> 'v list \<Rightarrow> (string \<times> 'v) list \<Rightarrow> bool" where
  "conn_given func_params args kwargs \<longleftrightarrow>
     (''redis_conn'' \<in> set func_params \<and>
        length (takeWhile (\<lambda>p. p \<noteq> ''redis_conn'') func_params) < length args) \<or>
     ''redis_conn'' \<in> fst ` set kwargs"

definition provide_redis_conn ::
  "('p, 'v) redis_lib \<Rightarrow> string list \<Rightarrow>
     ('v list \<Rightarrow> (string \<times> 'v) list \<Rightarrow> (('w, 'z) redis_module_scheme, 'a) M) \<Rightarrow>
     'v list \<Rightarrow> (string \<times> 'v) list \<Rightarrow> (('w, 'z) redis_module_scheme, 'a option) M" where
  "provide_redis_conn lib func_params fn args kwargs =
     (if conn_given func_params args kwargs
      then bindM (fn args kwargs) (\<lambda>a. returnM (Some a))
      else
        thenM (modifyM (\<lambda>s. s\<lparr>redis_conn_conf := inject_retry_exception_conf (redis_conn_conf s)\<rparr>))
        (bindM (getsM redis_conn_conf) (\<lambda>conf.
         bindM (liftM (blocking_pool lib conf 20)) (\<lambda>connection_pool.
         get_redis_conn_from_pool lib connection_pool (\<lambda>redis_obj.
           fn args (AList.update ''redis_conn'' redis_obj kwargs))))))"

section \<open>Reading the URL back\<close>

text \<open>
  How \<^verbatim>\<open>urllib.parse\<close> splits the part between \<^verbatim>\<open>//\<close> and the path, for a host that is not in
  brackets: user information before the last \<^verbatim>\<open>@\<close>, with the password after its first colon, and
  the port after the first colon of the rest.
\<close>

definition url_netloc :: "string \<Rightarrow> string" where
  "url_netloc rest = takeWhile (\<lambda>c. c \<notin> set ''/?#'') rest"

definition url_path :: "string \<Rightarrow> string" where
  "url_path rest = dropWhile (\<lambda>c. c \<notin> set ''/?#'') rest"

definition url_userinfo :: "string \<Rightarrow> string option" where
  "url_userinfo netloc =
     (if CHR ''@'' \<in> set netloc
      then Some (rev (tl (dropWhile (\<lambda>c. c \<noteq> CHR ''@'') (rev netloc)))) else None)"

definition url_hostinfo :: "string \<Rightarrow> string" where
  "url_hostinfo netloc = rev (takeWhile (\<lambda>c. c \<noteq> CHR ''@'') (rev netloc))"

definition url_split_colon :: "string \<Rightarrow> string \<times> string option" where
  "url_split_colon s =
     (takeWhile (\<lambda>c. c \<noteq> CHR '':'') s,
      (case dropWhile (\<lambda>c. c \<noteq> CHR '':'') s of [] \<Rightarrow> None | c # r \<Rightarrow> Some r))"

lemma takeWhile_stop: "(\<forall>c \<in> set xs. P c) \<Longrightarrow> \<not> P y \<Longrightarrow> takeWhile P (xs @ y # ys) = xs"
  by (induction xs) auto

lemma dropWhile_stop: "(\<forall>c \<in> set xs. P c) \<Longrightarrow> \<not> P y \<Longrightarrow> dropWhile P (xs @ y # ys) = y # ys"
  by (induction xs) auto

lemma url_split_colon_stop:
  assumes "CHR '':'' \<notin> set h"
  shows "url_split_colon (h @ '':'' @ r) = (h, Some r)"
proof -
  have no_colon: "\<forall>x \<in> set h. x \<noteq> CHR '':''" using assms by auto
  have "takeWhile (\<lambda>c. c \<noteq> CHR '':'') (h @ CHR '':'' # r) = h"
    by (rule takeWhile_stop[OF no_colon]) simp
  moreover have "dropWhile (\<lambda>c. c \<noteq> CHR '':'') (h @ CHR '':'' # r) = CHR '':'' # r"
    by (rule dropWhile_stop[OF no_colon]) simp
  ultimately show ?thesis by (simp add: url_split_colon_def)
qed

lemma url_no_colon: "CHR '':'' \<notin> set p \<Longrightarrow> url_split_colon p = (p, None)"
  by (induction p) (auto simp: url_split_colon_def split: list.splits)

lemma url_no_at: "CHR ''@'' \<notin> set h \<Longrightarrow> url_hostinfo h = h \<and> url_userinfo h = None"
  by (induction h rule: rev_induct) (auto simp: url_hostinfo_def url_userinfo_def)

lemma url_at:
  assumes "CHR ''@'' \<notin> set h"
  shows "url_hostinfo (p @ ''@'' @ h) = h \<and> url_userinfo (p @ ''@'' @ h) = Some p"
proof -
  have no_at: "\<forall>x \<in> set (rev h). x \<noteq> CHR ''@''" using assms by auto
  have "takeWhile (\<lambda>c. c \<noteq> CHR ''@'') (rev h @ CHR ''@'' # rev p) = rev h"
    by (rule takeWhile_stop[OF no_at]) simp
  moreover have "dropWhile (\<lambda>c. c \<noteq> CHR ''@'') (rev h @ CHR ''@'' # rev p) = CHR ''@'' # rev p"
    by (rule dropWhile_stop[OF no_at]) simp
  ultimately show ?thesis by (simp add: url_hostinfo_def url_userinfo_def)
qed

lemma int_str_chars: "0 \<le> i \<Longrightarrow> c \<in> set (int_str i) \<Longrightarrow> c \<notin> set ''/?#@:''"
proof -
  assume "0 \<le> i" "c \<in> set (int_str i)"
  then obtain d where d: "c = digit_char d" "d \<in> set (nat_digits 10 (nat i))"
    by (auto simp: int_str_def nat_str_def)
  with nat_digits_bound[of 10 d] have "d < 10" by simp
  then have "of_char c = 48 + d" using d by (simp add: of_char_digit_char)
  with \<open>d < 10\<close> show ?thesis by auto
qed

text \<open>
  C34: the URL carries host, port and database back to a reader of URLs, but a configured
  password arrives as the user name: \<^verbatim>\<open>redis://\<close> puts the user before a colon and the password
  after it, and the URL is built without the colon. So the server is asked with a user named
  after the password, and without a password.
\<close>

theorem construct_redis_url_parse:
  assumes "set (redis_host c) \<inter> set ''/?#@:'' = {}" and "0 \<le> redis_port c" and "0 \<le> redis_db c"
    and "\<And>p. redis_password c = Some p \<Longrightarrow> set p \<inter> set ''/?#@:'' = {}"
  shows "\<exists>rest. construct_redis_url c = ''redis://'' @ rest \<and>
     url_split_colon (url_hostinfo (url_netloc rest)) = (redis_host c, Some (int_str (redis_port c))) \<and>
     url_path rest = ''/'' @ int_str (redis_db c) \<and>
     map_option url_split_colon (url_userinfo (url_netloc rest)) =
       (case redis_password c of
          None \<Rightarrow> None
        | Some p \<Rightarrow> (if p = [] then None else Some (p, None)))"
proof -
  let ?host = "redis_host c @ '':'' @ int_str (redis_port c)"
  let ?db = "''/'' @ int_str (redis_db c)"
  have host: "x \<notin> set ''/?#@''" if "x \<in> set ?host" for x
    using that assms(1) int_str_chars[OF assms(2)] by auto
  have at: "CHR ''@'' \<notin> set ?host" using host[of "CHR ''@''"] by auto
  have split: "url_split_colon ?host = (redis_host c, Some (int_str (redis_port c)))"
    by (rule url_split_colon_stop) (use assms(1) in auto)
  have info: "url_hostinfo ?host = ?host" "url_userinfo ?host = None"
    using url_no_at[OF at] by blast+
  have cut: "url_netloc (n @ ?db) = n" "url_path (n @ ?db) = ?db"
    if "\<forall>x \<in> set n. x \<notin> set ''/?#''" for n
    using that by (simp_all add: url_netloc_def url_path_def takeWhile_stop dropWhile_stop)
  show ?thesis
  proof (cases "redis_password c = None \<or> redis_password c = Some []")
    case True
    then have "construct_redis_url c = ''redis://'' @ (?host @ ?db)"
      by (auto simp: construct_redis_url_def)
    moreover have "url_netloc (?host @ ?db) = ?host" "url_path (?host @ ?db) = ?db"
      by (rule cut; use host in auto)+
    moreover have "map_option url_split_colon None =
        (case redis_password c of None \<Rightarrow> None | Some p \<Rightarrow> (if p = [] then None else Some (p, None)))"
      using True by auto
    ultimately show ?thesis
      by (intro exI[of _ "?host @ ?db"] conjI) (simp_all only: split info)
  next
    case False
    then obtain p where p: "redis_password c = Some p" "p \<noteq> []" by auto
    from assms(4)[OF p(1)] have pc: "x \<notin> set ''/?#@:''" if "x \<in> set p" for x using that by auto
    let ?n = "p @ ''@'' @ ?host"
    have "construct_redis_url c = ''redis://'' @ (?n @ ?db)"
      using p by (simp add: construct_redis_url_def)
    moreover have "url_hostinfo ?n = ?host" "url_userinfo ?n = Some p"
      using url_at[OF at, of p] by blast+
    moreover have "url_split_colon p = (p, None)"
      by (rule url_no_colon) (use pc in auto)
    moreover have "url_netloc (?n @ ?db) = ?n" "url_path (?n @ ?db) = ?db"
      by (rule cut; use host pc in auto)+
    moreover have "map_option (\<lambda>x :: string. (x, None :: string option)) (Some p) =
        (case redis_password c of None \<Rightarrow> None | Some p \<Rightarrow> (if p = [] then None else Some (p, None)))"
      using p by auto
    ultimately show ?thesis
      by (intro exI[of _ "?n @ ?db"] conjI) (simp_all only: split option.map)
  qed
qed

theorem construct_redis_url_parse_witness:
  "construct_redis_url \<lparr>redis_host = ''redis'', redis_port = 6379, redis_db = 0, redis_password = Some ''pw''\<rparr> =
     ''redis://pw@redis:6379/0'' \<and>
   (\<exists>rest. ''redis://pw@redis:6379/0'' = ''redis://'' @ rest \<and>
     map_option url_split_colon (url_userinfo (url_netloc rest)) = Some (''pw'', None))"
proof -
  let ?c = "\<lparr>redis_host = ''redis'', redis_port = 6379, redis_db = 0, redis_password = Some ''pw''\<rparr>"
  have url: "construct_redis_url ?c = ''redis://pw@redis:6379/0''"
    by (simp add: construct_redis_url_def int_str_def nat_str_def nat_digits.simps digit_char_def char_of_def bit_Suc bit_0)
  have "set (redis_host ?c) \<inter> set ''/?#@:'' = {}" "0 \<le> redis_port ?c" "0 \<le> redis_db ?c"
    "\<And>p. redis_password ?c = Some p \<Longrightarrow> set p \<inter> set ''/?#@:'' = {}"
    by simp_all
  from construct_redis_url_parse[OF this]
  obtain rest where rest: "construct_redis_url ?c = ''redis://'' @ rest"
    "map_option url_split_colon (url_userinfo (url_netloc rest)) =
        (case redis_password ?c of None \<Rightarrow> None | Some p \<Rightarrow> (if p = [] then None else Some (p, None)))"
    by blast
  from rest(2) have "map_option url_split_colon (url_userinfo (url_netloc rest)) = Some (''pw'', None)"
    by simp
  with url rest(1) show ?thesis by (intro conjI exI[of _ rest]) (simp_all only:)
qed

section \<open>A connection for every call\<close>

text \<open>
  A decorated function is called once, as it would be without the decorator when the caller
  gave a connection, by position or by name; otherwise with a connection of a pool of 20 made
  from the module's settings, to which the retry on \<^verbatim>\<open>ReadOnlyError\<close> is added, however often
  that happened before. An interrupt of the function with a connection of the decorator's is
  swallowed: the call returns \<^verbatim>\<open>None\<close>.
\<close>

theorem provide_redis_conn_call:
  assumes "\<And>conf. blocking_pool lib conf 20 = Inr (pool conf)" and "\<And>p. redis_client lib p = Inr (conn p)"
  shows "provide_redis_conn lib func_params fn args kwargs s =
     (if conn_given func_params args kwargs
      then (case fn args kwargs s of
              (Ret a, t) \<Rightarrow> (Ret (Some a), t) | (Raise e, t) \<Rightarrow> (Raise e, t) | (Pending, t) \<Rightarrow> (Pending, t))
      else
        (let conf = AList.update ''retry_on_error'' (JList [JStr ''ReadOnlyError'']) (redis_conn_conf s)
         in case fn args (AList.update ''redis_conn'' (conn (pool conf)) kwargs) (s\<lparr>redis_conn_conf := conf\<rparr>) of
              (Ret a, t) \<Rightarrow> (Ret (Some a), t)
            | (Raise e, t) \<Rightarrow> (if is_KeyboardInterrupt e then (Ret None, t) else (Raise e, t))
            | (Pending, t) \<Rightarrow> (Pending, t)))"
  by (simp add: provide_redis_conn_def get_redis_conn_from_pool_def inject_retry_exception_conf_def
      assms M_defs Let_def split: prod.split res.split)

theorem provide_redis_conn_call_witness:
  "fst (provide_redis_conn \<lparr>blocking_pool = \<lambda>conf n. Inr (length conf), redis_client = \<lambda>p. Inr p\<rparr>
       [''key'', ''redis_conn''] (\<lambda>args kwargs. returnM (args, kwargs)) [7] []
       \<lparr>ext = (), trace = [], redis_conn_conf = redis_conf_dict (st_redis example_settings)\<rparr>) =
     Ret (Some ([7], [(''redis_conn'', 5)]))"
  using provide_redis_conn_call[of "\<lparr>blocking_pool = \<lambda>conf n. Inr (length conf), redis_client = \<lambda>p. Inr p\<rparr>"
      length "\<lambda>p. p" "[''key'', ''redis_conn'']" "\<lambda>args kwargs. returnM (args, kwargs)" "[7]" "[]"
      "\<lparr>ext = (), trace = [], redis_conn_conf = redis_conf_dict (st_redis example_settings)\<rparr>"]
  by (simp add: conn_given_def returnM_apply redis_conf_dict_def Let_def)

section \<open>Connections without a pool\<close>

text \<open>
  The two functions that make one connection from the module's settings; nothing is changed in
  these dictionaries, so a key is always there. The client object is made by \<open>single_client\<close>.
\<close>

fun conf_items :: "(string \<times> json) list \<Rightarrow> string list \<Rightarrow> exn + (string \<times> json) list" where
  "conf_items conf [] = Inr []"
| "conf_items conf (k # ks) =
     (case map_of conf k of
        None \<Rightarrow> Inl (Exn KeyError k)
      | Some v \<Rightarrow> (case conf_items conf ks of Inl e \<Rightarrow> Inl e | Inr kvs \<Rightarrow> Inr ((k, v) # kvs)))"

definition direct_redis_conn ::
  "((string \<times> json) list \<Rightarrow> 'w \<Rightarrow> (exn + 'v) \<times> 'w) \<Rightarrow> (string \<times> json) list \<Rightarrow> (('w, 'z) world_scheme, 'v) M" where
  "direct_redis_conn single_client conf =
     bindM (liftM (conf_items conf [''host'', ''port'', ''db'', ''password''])) (\<lambda>args.
     extM (single_client (args @ [(''retry_on_error'', JList [JStr ''ReadOnlyError'']),
                                  (''single_connection_client'', JBool True)])))"

definition get_writer_redis_conn ::
  "((string \<times> json) list \<Rightarrow> 'w \<Rightarrow> (exn + 'v) \<times> 'w) \<Rightarrow> settings \<Rightarrow> (('w, 'z) world_scheme, 'v) M" where
  "get_writer_redis_conn single_client cfg = direct_redis_conn single_client (redis_conf_dict (st_redis cfg))"

definition get_reader_redis_conn ::
  "((string \<times> json) list \<Rightarrow> 'w \<Rightarrow> (exn + 'v) \<times> 'w) \<Rightarrow> settings \<Rightarrow> (('w, 'z) world_scheme, 'v) M" where
  "get_reader_redis_conn single_client cfg = direct_redis_conn single_client (redis_conf_dict (st_redis cfg))"

text \<open>Unlike the pool, whose URL has the password as a user name, they pass it as the password.\<close>

lemma get_writer_redis_conn_args:
  "get_writer_redis_conn single_client cfg s =
     extM (single_client (redis_conf_dict (st_redis cfg) @
       [(''retry_on_error'', JList [JStr ''ReadOnlyError'']), (''single_connection_client'', JBool True)])) s"
  by (simp add: get_writer_redis_conn_def direct_redis_conn_def redis_conf_dict_def M_simps)

lemma get_reader_redis_conn_same: "get_reader_redis_conn single_client cfg = get_writer_redis_conn single_client cfg"
  by (simp add: get_reader_redis_conn_def get_writer_redis_conn_def)

end
