(* ===== verification/Force_Consensus.thy ===== *)
theory Force_Consensus
  imports Rpc_Queries Tx_Lock Redis_Conn Transaction_Utils Notification_Utils
begin

text \<open>
  \<^verbatim>\<open>force_consensus.py\<close>: the service that reads the events of the protocol contract on the anchor
  chain and, for each epoch whose submission window is over, asks the contract to complete the
  consensus of the projects that were submitted but not finalized. The operations below are the
  methods of \<^verbatim>\<open>ForceConsensus\<close> in the order of the file. Sets are lists without repetition and
  dictionaries association lists with their keys in insertion order; the order in which Python
  goes through a set is a parameter. Epoch and project ids are the decoded values of the events.
\<close>

section \<open>State\<close>

text \<open>\<open>fc_tasks\<close> numbers the tasks of the event loop; the main task is 0.\<close>

record ('w, 'l) force_consensus = "('w, 'l) tx_locks" +
  fc_tasks :: nat
  fc_shutdown_initiated :: bool
  last_sent_block :: int
  fc_end :: "int option"
  fc_epoch_id :: int
  fc_pending_epochs :: "(real \<times> json) list"
  fc_submission_window :: int
  fc_nonce :: int
  fc_last_processed_block :: int
  fc_client :: bool \<comment> \<open>\<^verbatim>\<open>_async_transport\<close> and \<^verbatim>\<open>_client\<close> are set\<close>
  fc_submitted :: "(json \<times> json list) list" \<comment> \<open>\<^verbatim>\<open>_projects_submitted_for_epoch\<close>\<close>
  fc_finalized :: "(json \<times> json list) list" \<comment> \<open>\<^verbatim>\<open>_finalized_epochs\<close>\<close>
  fc_gas :: real
  fc_event_sig :: "string list"
  fc_event_abi :: "(string \<times> json) list"
  fc_redis_pool :: "redis_pool option"
  fc_reader :: "redis_handle option"
  fc_writer :: "redis_handle option"

record ('w, 'l) fc_env = "('w, ('w, 'l) force_consensus) rpc_env" +
  fc_lock :: "'l rwlock"
  retry_make :: "(unit, ('w, 'l) force_consensus, string) retrying"
  event_abi_of :: "string \<Rightarrow> exn + json"
  redis_from_url :: "'w from_url"
  redis_get :: "redis_handle \<Rightarrow> string \<Rightarrow> 'w \<Rightarrow> (exn + string option) \<times> 'w"
  redis_set :: "redis_handle \<Rightarrow> string \<Rightarrow> string \<Rightarrow> 'w \<Rightarrow> (exn + unit) \<times> 'w"
  random_choice :: "int \<Rightarrow> 'w \<Rightarrow> (exn + int) \<times> 'w" \<comment> \<open>\<^verbatim>\<open>random.choice(range(0, n))\<close>\<close>
  receipt_dumps :: "json \<Rightarrow> exn + string" \<comment> \<open>\<^verbatim>\<open>json.dumps\<close> of a receipt object of web3\<close>
  optional_str :: "json \<Rightarrow> exn + string option" \<comment> \<open>pydantic's value of an \<^verbatim>\<open>Optional[str]\<close> field\<close>
  iter_epochs :: "(real \<times> json) list \<Rightarrow> (real \<times> json) list"
  iter_projects :: "json list \<Rightarrow> json list"

definition fc_event_sigs :: "(string \<times> string) list" where
  "fc_event_sigs =
     [(''EpochReleased'', ''EpochReleased(uint256,uint256,uint256,uint256)''),
      (''SnapshotFinalized'', ''SnapshotFinalized(uint256,uint256,string,string,uint256,uint256,uint256)''),
      (''SnapshotSubmitted'', ''SnapshotSubmitted(address,uint256,string,uint256,string,uint256)'')]"

fun collect_abis :: "(string \<Rightarrow> exn + json) \<Rightarrow> string list \<Rightarrow> exn + (string \<times> json) list" where
  "collect_abis abi_of [] = Inr []"
| "collect_abis abi_of (n # ns) =
     (case abi_of n of
        Inl e \<Rightarrow> Inl e
      | Inr a \<Rightarrow> (case collect_abis abi_of ns of Inl e \<Rightarrow> Inl e | Inr xs \<Rightarrow> Inr ((n, a) # xs)))"

definition force_consensus_init ::
  "settings \<Rightarrow> ('w, 'l) fc_env \<Rightarrow> 'w \<Rightarrow> exn + ('w, 'l) force_consensus" where
  "force_consensus_init cfg env w =
     (case collect_abis (event_abi_of env) [''EpochReleased'', ''SnapshotFinalized'', ''SnapshotSubmitted''] of
        Inl e \<Rightarrow> Inl e
      | Inr abis \<Rightarrow>
          (let (sig, abi) = get_event_sig_and_abi (keccak_hex env) fc_event_sigs abis
           in Inr (tx_locks.extend (rpc_helper.extend (rpc_helper_init (anchor_rpc (st_anchor_chain cfg)) False w)
                     (tx_locks.fields 20 None))
                \<lparr>fc_tasks = 1, fc_shutdown_initiated = False, last_sent_block = 0, fc_end = None,
                 fc_epoch_id = 1, fc_pending_epochs = [], fc_submission_window = 0, fc_nonce = - 1,
                 fc_last_processed_block = 0, fc_client = False, fc_submitted = [], fc_finalized = [],
                 fc_gas = default_gas_in_gwei (st_anchor_chain cfg), fc_event_sig = sig, fc_event_abi = abi,
                 fc_redis_pool = None, fc_reader = None, fc_writer = None\<rparr>)))"

section \<open>Python sets and default dictionaries\<close>

text \<open>Lists and dictionaries cannot be members of a set or keys of a dictionary.\<close>

fun hash_check :: "json \<Rightarrow> exn + unit" where
  "hash_check (JList xs) = Inl (Exn TypeError ''unhashable type: list'')"
| "hash_check (JObj kvs) = Inl (Exn TypeError ''unhashable type: dict'')"
| "hash_check j = Inr ()"

text \<open>\<^verbatim>\<open>d[k]\<close> of a \<^verbatim>\<open>defaultdict(set)\<close>: the set, and the dictionary after the access.\<close>

definition dd_touch :: "json \<Rightarrow> (json \<times> json list) list \<Rightarrow> (json \<times> json list) list" where
  "dd_touch k d = (if k \<in> fst ` set d then d else d @ [(k, [])])"

definition dd_get :: "json \<Rightarrow> (json \<times> json list) list \<Rightarrow> json list" where
  "dd_get k d = (case map_of d k of Some xs \<Rightarrow> xs | None \<Rightarrow> [])"

text \<open>\<^verbatim>\<open>d[k].add(x)\<close>\<close>

definition dd_add :: "json \<Rightarrow> json \<Rightarrow> (json \<times> json list) list \<Rightarrow> (json \<times> json list) list" where
  "dd_add k x d = AList.map_entry k (List.insert x) (dd_touch k d)"

text \<open>\<^verbatim>\<open>if d[k]: del d[k]\<close>\<close>

definition dd_drop :: "json \<Rightarrow> (json \<times> json list) list \<Rightarrow> (json \<times> json list) list" where
  "dd_drop k d = (if dd_get k d \<noteq> [] then AList.delete k d else dd_touch k d)"

section \<open>Events\<close>

definition event_arg :: "string \<Rightarrow> json \<Rightarrow> exn + json" where
  "event_arg key evlog =
     (case json_item ''args'' evlog of
        Inl e \<Rightarrow> Inl e
      | Inr args \<Rightarrow>
          (case json_item key args of
             Inl e \<Rightarrow> Inl e
           | Inr v \<Rightarrow> (case hash_check v of Inl e \<Rightarrow> Inl e | Inr u \<Rightarrow> Inr v)))"

definition handle_log ::
  "('w, 'l) fc_env \<Rightarrow> json \<Rightarrow> (('w, 'l) force_consensus, unit) M" where
  "handle_log env evlog =
     bindM (liftM (json_item ''event'' evlog)) (\<lambda>ev.
     if ev = JStr ''EpochReleased'' then
       bindM (nowM env) (\<lambda>t.
       bindM (liftM (event_arg ''epochId'' evlog)) (\<lambda>epoch.
       modifyM (\<lambda>s. s\<lparr>fc_pending_epochs := List.insert (t, epoch) (fc_pending_epochs s)\<rparr>)))
     else if ev = JStr ''SnapshotFinalized'' then
       bindM (liftM (event_arg ''epochId'' evlog)) (\<lambda>epoch.
       thenM (modifyM (\<lambda>s. s\<lparr>fc_finalized := dd_touch epoch (fc_finalized s)\<rparr>))
       (bindM (liftM (event_arg ''projectId'' evlog)) (\<lambda>project.
        modifyM (\<lambda>s. s\<lparr>fc_finalized := dd_add epoch project (fc_finalized s)\<rparr>))))
     else if ev = JStr ''SnapshotSubmitted'' then
       bindM (liftM (event_arg ''epochId'' evlog)) (\<lambda>epoch.
       thenM (modifyM (\<lambda>s. s\<lparr>fc_submitted := dd_touch epoch (fc_submitted s)\<rparr>))
       (bindM (liftM (event_arg ''projectId'' evlog)) (\<lambda>project.
        modifyM (\<lambda>s. s\<lparr>fc_submitted := dd_add epoch project (fc_submitted s)\<rparr>))))
     else returnM ())"

definition the_pool :: "redis_handle option \<Rightarrow> exn + redis_handle" where
  "the_pool p =
     (case p of
        None \<Rightarrow> Inl (Exn AttributeError ''ForceConsensus object has no attribute redis_pool'')
      | Some h \<Rightarrow> Inr h)"

text \<open>
  At the end the task of \<^verbatim>\<open>_force_complete_consensus\<close> is created; it starts when the main task
  waits next (\<open>fc_round\<close>).
\<close>

definition get_events ::
  "settings \<Rightarrow> ('w, 'l) fc_env \<Rightarrow> int \<Rightarrow> int \<Rightarrow> (('w, 'l) force_consensus, unit) M" where
  "get_events cfg env from_block to_block =
     bindM (getsM (\<lambda>s. (fc_event_sig s, fc_event_abi s))) (\<lambda>(event_sig, event_abi).
     thenM (bindM (getsM fc_writer) (\<lambda>w. liftM (the_pool w)))
     (bindM (get_events_logs cfg env (protocol_state_address cfg) to_block from_block
               (JList [JList (map JStr event_sig)]) event_abi) (\<lambda>events_log.
      thenM (forM events_log (handle_log env)) (emitM SpawnForceConsensus))))"

section \<open>Setup\<close>

definition fc_init_httpx_client :: "(('w, 'l) force_consensus, unit) M" where
  "fc_init_httpx_client =
     bindM (getsM fc_client) (\<lambda>present.
     if present then returnM () else modifyM (\<lambda>s. s\<lparr>fc_client := True\<rparr>))"

definition fc_setup :: "settings \<Rightarrow> ('w, 'l) fc_env \<Rightarrow> (('w, 'l) force_consensus, unit) M" where
  "fc_setup cfg env =
     (let pool = redis_pool_init (st_redis cfg) (Some (st_redis cfg)) 200 True in
     thenM (modifyM (\<lambda>s. s\<lparr>fc_redis_pool := Some pool\<rparr>))
     (bindM (extM (get_transaction_count env (validator_epoch_address cfg))) (\<lambda>n.
      thenM (modifyM (\<lambda>s. s\<lparr>fc_nonce := n\<rparr>))
      (bindM (populate (redis_from_url env) pool) (\<lambda>ready.
       thenM (modifyM (\<lambda>s. s\<lparr>fc_redis_pool := Some ready, fc_reader := reader_redis_pool ready,
                             fc_writer := writer_redis_pool ready\<rparr>))
       (thenM (modifyM (\<lambda>s. if tl_rwlock s = None then s\<lparr>tl_rwlock := Some (lk_new (fc_lock env))\<rparr> else s))
       (bindM (extM (get_transaction_count env (force_consensus_address cfg))) (\<lambda>n.
        thenM (modifyM (\<lambda>s. s\<lparr>fc_nonce := n\<rparr>))
        (thenM fc_init_httpx_client
        (bindM (extM (submission_window_call env)) (\<lambda>window.
         modifyM (\<lambda>s. s\<lparr>fc_submission_window := window\<rparr>))))))))))))"

section \<open>Transactions\<close>

definition make_transaction_body ::
  "settings \<Rightarrow> ('w, 'l) fc_env \<Rightarrow> json \<Rightarrow> json \<Rightarrow> (('w, 'l) force_consensus, string) M" where
  "make_transaction_body cfg env project epochId =
     bindM (getsM (\<lambda>s. (fc_nonce s, fc_gas s))) (\<lambda>(nonce, gas).
     bindM (write_transaction cfg env (force_consensus_address cfg) (force_consensus_private_key cfg)
              ''forceCompleteConsensusSnapshot'' nonce gas [project, epochId]) (\<lambda>tx_hash.
     thenM (modifyM (\<lambda>s. s\<lparr>fc_nonce := fc_nonce s + 1\<rparr>)) (returnM tx_hash)))"

text \<open>The retrying decorator is outside, so the locks are taken anew by every attempt.\<close>

definition make_transaction ::
  "settings \<Rightarrow> ('w, 'l) fc_env \<Rightarrow> nat \<Rightarrow> json \<Rightarrow> json \<Rightarrow> (('w, 'l) force_consensus, string) M" where
  "make_transaction cfg env task project epochId =
     retry_make env is_Exception (rpc_retry (anchor_rpc (st_anchor_chain cfg))) (\<lambda>k e. returnM k)
       (\<lambda>_. semaphore_then_aiorwlock_aqcuire_release (fc_lock env) task
              (make_transaction_body cfg env project epochId)) ()"

definition fc_reset_nonce_body ::
  "settings \<Rightarrow> ('w, 'l) fc_env \<Rightarrow> (('w, 'l) force_consensus, unit) M" where
  "fc_reset_nonce_body cfg env =
     thenM (timeSleepM env 30)
     (bindM (extM (get_transaction_count env (force_consensus_address cfg))) (\<lambda>n.
      modifyM (\<lambda>s. s\<lparr>fc_nonce := n\<rparr>)))"

definition fc_reset_nonce ::
  "settings \<Rightarrow> ('w, 'l) fc_env \<Rightarrow> nat \<Rightarrow> (('w, 'l) force_consensus, unit) M" where
  "fc_reset_nonce cfg env task =
     semaphore_then_aiorwlock_aqcuire_release (fc_lock env) task (fc_reset_nonce_body cfg env)"

definition fc_issue :: "settings \<Rightarrow> ('w, 'l) fc_env \<Rightarrow> json \<Rightarrow> json \<Rightarrow> string \<Rightarrow> exn + json" where
  "fc_issue cfg env project epochId extra =
     (case optional_str env project of
        Inl e \<Rightarrow> Inl e
      | Inr p \<Rightarrow>
          (case optional_str env epochId of
             Inl e \<Rightarrow> Inl e
           | Inr i \<Rightarrow> Inr (generic_txn_issue_dict
               \<lparr>account_address = force_consensus_address cfg, issue_type = ''ForceConsensusTxnFailed'',
                issue_project_id = p, issue_epoch_begin = None, issue_epoch_id = i,
                issue_extra = Some extra\<rparr>)))"

definition fc_report ::
  "settings \<Rightarrow> ('w, 'l) fc_env \<Rightarrow> nat \<Rightarrow> json \<Rightarrow> json \<Rightarrow> string \<Rightarrow>
     (('w, 'l) force_consensus, unit) M" where
  "fc_report cfg env task project epochId extra =
     bindM (liftM (fc_issue cfg env project epochId extra)) (\<lambda>issue.
     thenM (bindM (getsM fc_client) (\<lambda>client. send_failure_notifications cfg client issue))
           (fc_reset_nonce cfg env task))"

definition receipt_failed :: "json \<Rightarrow> exn + bool" where
  "receipt_failed receipt =
     (if \<not> json_truthy receipt then Inr True
      else (case json_item ''status'' receipt of Inl e \<Rightarrow> Inl e | Inr st \<Rightarrow> Inr (\<not> json_is_one st)))"

definition call_force_body ::
  "settings \<Rightarrow> ('w, 'l) fc_env \<Rightarrow> nat \<Rightarrow> json \<Rightarrow> json \<Rightarrow> (('w, 'l) force_consensus, unit) M" where
  "call_force_body cfg env task project epochId =
     bindM (extM (random_choice env 100)) (\<lambda>rand.
     bindM (make_transaction cfg env task project epochId) (\<lambda>tx_hash.
     if rand \<noteq> 1 then returnM ()
     else
       bindM (callM (AwaitReceipt tx_hash) (wait_for_transaction_receipt env tx_hash)) (\<lambda>receipt.
       bindM (liftM (receipt_failed receipt)) (\<lambda>failed.
       if \<not> failed then returnM ()
       else
         bindM (liftM (receipt_dumps env receipt)) (\<lambda>extra.
         thenM (fc_report cfg env task project epochId extra)
               (raiseM (Exn PyException ''Transaction failed!'')))))))"

definition call_force_complete_consensus ::
  "settings \<Rightarrow> ('w, 'l) fc_env \<Rightarrow> nat \<Rightarrow> json \<Rightarrow> json \<Rightarrow> (('w, 'l) force_consensus, unit) M" where
  "call_force_complete_consensus cfg env task project epochId =
     tryM (call_force_body cfg env task project epochId)
          (\<lambda>ex. fc_report cfg env task project epochId (exn_str ex))"

section \<open>Completing the epochs that are due\<close>

definition epoch_due :: "settings \<Rightarrow> int \<Rightarrow> real \<Rightarrow> real \<Rightarrow> bool" where
  "epoch_due cfg window release_time now \<longleftrightarrow>
     release_time + of_int (window * anchor_block_time (st_anchor_chain cfg)) + 30 < now"

text \<open>The loop over the pending epochs; the clock is read for each.\<close>

primrec collect_due ::
  "settings \<Rightarrow> ('w, 'l) fc_env \<Rightarrow> int \<Rightarrow> (real \<times> json) list \<Rightarrow>
     (('w, 'l) force_consensus, (real \<times> json) list) M" where
  "collect_due cfg env window [] = returnM []"
| "collect_due cfg env window (p # ps) =
     bindM (nowM env) (\<lambda>now.
     bindM (collect_due cfg env window ps) (\<lambda>due.
     returnM (if epoch_due cfg window (fst p) now then p # due else due)))"

text \<open>
  The tasks for one epoch: the projects submitted and not finalized, in the order of iteration.
  Reading the dictionaries makes empty entries.
\<close>

definition epoch_tasks ::
  "('w, 'l) fc_env \<Rightarrow> json \<Rightarrow> (('w, 'l) force_consensus, (json \<times> json) list) M" where
  "epoch_tasks env epochId =
     bindM (getsM (\<lambda>s. filter (\<lambda>p. p \<notin> set (dd_get epochId (fc_finalized s)))
                         (dd_get epochId (fc_submitted s)))) (\<lambda>projects.
     thenM (modifyM (\<lambda>s. s\<lparr>fc_submitted := dd_touch epochId (fc_submitted s),
                           fc_finalized := dd_touch epochId (fc_finalized s)\<rparr>))
           (returnM (map (\<lambda>p. (p, epochId)) (iter_projects env projects))))"

text \<open>
  \<^verbatim>\<open>gather(*tasks, return_exceptions=True)\<close>: the outcomes in order. Run one after the other; one
  that never ends keeps the whole from returning, after the others have run.
\<close>

primrec gather_results :: "('s, 'a) M list \<Rightarrow> ('s, (exn + 'a) list) M" where
  "gather_results [] = returnM []"
| "gather_results (m # ms) =
     (\<lambda>s. case m s of
        (Ret a, t) \<Rightarrow> bindM (gather_results ms) (\<lambda>rs. returnM (Inr a # rs)) t
      | (Raise e, t) \<Rightarrow> bindM (gather_results ms) (\<lambda>rs. returnM (Inl e # rs)) t
      | (Pending, t) \<Rightarrow> (Pending, snd (gather_results ms t)))"

text \<open>Each coroutine that is gathered gets a task of its own.\<close>

definition run_tasks ::
  "settings \<Rightarrow> ('w, 'l) fc_env \<Rightarrow> (json \<times> json) list \<Rightarrow>
     (('w, 'l) force_consensus, (exn + unit) list) M" where
  "run_tasks cfg env txn_tasks =
     bindM (getsM fc_tasks) (\<lambda>n.
     thenM (modifyM (\<lambda>s. s\<lparr>fc_tasks := n + length txn_tasks\<rparr>))
           (gather_results
              (map (\<lambda>(task, project, epochId). call_force_complete_consensus cfg env task project epochId)
                   (zip [n..<n + length txn_tasks] txn_tasks))))"

text \<open>After the tasks only the entries of the last epoch of the loop are dropped.\<close>

definition force_complete_consensus ::
  "settings \<Rightarrow> ('w, 'l) fc_env \<Rightarrow> (('w, 'l) force_consensus, unit) M" where
  "force_complete_consensus cfg env =
     bindM (getsM (\<lambda>s. (fc_submission_window s, iter_epochs env (fc_pending_epochs s)))) (\<lambda>(window, pending).
     bindM (collect_due cfg env window pending) (\<lambda>epochs_to_remove.
     (let epochs_to_process = map snd epochs_to_remove in
      thenM (modifyM (\<lambda>s. s\<lparr>fc_pending_epochs :=
               filter (\<lambda>p. p \<notin> set epochs_to_remove) (fc_pending_epochs s)\<rparr>))
      (if epochs_to_process = [] then returnM ()
       else
         bindM (mapM (epoch_tasks env) epochs_to_process) (\<lambda>txn_tasks.
         thenM (run_tasks cfg env (concat txn_tasks))
         (modifyM (\<lambda>s. s\<lparr>fc_finalized := dd_drop (last epochs_to_process) (fc_finalized s),
                         fc_submitted := dd_drop (last epochs_to_process) (fc_submitted s)\<rparr>)))))))"

section \<open>The main loop\<close>

text \<open>A task in the background: neither its exception nor its waiting reaches the main task.\<close>

definition spawnM :: "('s, 'a) M \<Rightarrow> ('s, unit) M" where
  "spawnM m s = (Ret (), snd (m s))"

definition load_last_processed ::
  "('w, 'l) fc_env \<Rightarrow> int \<Rightarrow> (('w, 'l) force_consensus, unit) M" where
  "load_last_processed env current_block =
     bindM (getsM fc_last_processed_block) (\<lambda>lst.
     if lst \<noteq> 0 then returnM ()
     else
       bindM (getsM fc_reader) (\<lambda>r.
       bindM (liftM (the_pool r)) (\<lambda>reader.
       bindM (callM (RedisGet event_detector_last_processed_block) (redis_get env reader event_detector_last_processed_block)) (\<lambda>data.
       if data = None \<or> data = Some []
       then modifyM (\<lambda>s. s\<lparr>fc_last_processed_block := current_block - 1\<rparr>)
       else bindM (liftM (json_loads_int (the data))) (\<lambda>b.
            modifyM (\<lambda>s. s\<lparr>fc_last_processed_block := b\<rparr>))))))"

definition clamp_last_processed :: "settings \<Rightarrow> int \<Rightarrow> int \<Rightarrow> int" where
  "clamp_last_processed cfg current_block lst =
     (if current_block - lst \<ge> max_block_buffer (st_anchor_chain cfg)
      then current_block - max_block_buffer (st_anchor_chain cfg) else lst)"

definition poll_sleep :: "settings \<Rightarrow> ('w, 'l) fc_env \<Rightarrow> (('w, 'l) force_consensus, unit) M" where
  "poll_sleep cfg env = asyncSleepM env (polling_interval (st_anchor_chain cfg))"

definition save_last_processed ::
  "('w, 'l) fc_env \<Rightarrow> int \<Rightarrow> (('w, 'l) force_consensus, unit) M" where
  "save_last_processed env current_block =
     bindM (getsM fc_writer) (\<lambda>w.
     bindM (liftM (the_pool w)) (\<lambda>writer.
     (let data = json_dumps (JInt current_block)
      in callM (RedisSet event_detector_last_processed_block data) (redis_set env writer event_detector_last_processed_block data))))"

text \<open>
  The part of a round after the head is known. The task made by \<open>get_events\<close> runs while the
  block is being saved, the first time the main task waits.
\<close>

definition process_blocks ::
  "settings \<Rightarrow> ('w, 'l) fc_env \<Rightarrow> int \<Rightarrow> (('w, 'l) force_consensus, unit) M" where
  "process_blocks cfg env current_block =
     thenM (load_last_processed env current_block)
     (thenM (modifyM (\<lambda>s. s\<lparr>fc_last_processed_block :=
               clamp_last_processed cfg current_block (fc_last_processed_block s)\<rparr>))
     (bindM (getsM fc_last_processed_block) (\<lambda>lst.
      if lst = current_block then poll_sleep cfg env
      else
        try_elseM is_Exception (get_events cfg env (lst + 1) current_block)
          (\<lambda>e. poll_sleep cfg env)
          (\<lambda>_. thenM (modifyM (\<lambda>s. s\<lparr>fc_last_processed_block := current_block\<rparr>))
               (thenM (save_last_processed env current_block)
               (thenM (spawnM (force_complete_consensus cfg env)) (poll_sleep cfg env)))))))"

definition fc_round ::
  "settings \<Rightarrow> ('w, 'l) fc_env \<Rightarrow> (('w, 'l) force_consensus, unit) M" where
  "fc_round cfg env =
     try_elseM is_Exception
       (thenM (bindM (getsM fc_writer) (\<lambda>w. liftM (the_pool w))) (get_current_block env 0))
       (\<lambda>e. poll_sleep cfg env)
       (process_blocks cfg env)"

definition fc_run ::
  "nat \<Rightarrow> settings \<Rightarrow> ('w, 'l) fc_env \<Rightarrow> (('w, 'l) force_consensus, unit) M" where
  "fc_run rounds cfg env =
     thenM (fc_setup cfg env)
       (loopM rounds (\<lambda>_. bindM (fc_round cfg env) (\<lambda>_. returnM (Inl ()))) ())"

end
