(* ===== verification/Force_Props.thy ===== *)
theory Force_Props
  imports Force_Consensus Rpc_Props
begin

text \<open>
  Properties of the force-consensus service: what it submits, which fields its parts leave
  alone, and which blocks a round asks for.
\<close>

section \<open>Frame rules\<close>

context frame
begin

lemma keeps_spawn: "keepsM R m \<Longrightarrow> keepsM R (spawnM m)"
  by (simp add: keepsM_def spawnM_def)

lemma keeps_gather_results:
  assumes "list_all (keepsM R) ms"
  shows "keepsM R (gather_results ms)"
  using assms
proof (induction ms)
  case Nil
  show ?case by (simp add: keeps_return)
next
  case (Cons m ms)
  then have m: "keepsM R m" and ms: "keepsM R (gather_results ms)" by simp_all
  then have rest: "keepsM R (bindM (gather_results ms) (\<lambda>rs. returnM (x # rs)))" for x
    by (intro keeps_bind keeps_return)
  show ?case
  proof (rule keepsMI)
    fix s r t
    assume run: "gather_results (m # ms) s = (r, t)"
    obtain r1 u where mu: "m s = (r1, u)" by (cases "m s")
    with m have su: "R s u" by (rule keepsMD)
    have "R u t"
      using run mu keepsMD[OF rest] ms by (cases r1) (auto simp: keepsM_def)
    with su show "R s t" by (rule R_trans)
  qed
qed

end

lemmas [growing] = grows.keeps_spawn

section \<open>What the service submits\<close>

definition is_force_tx :: "settings \<Rightarrow> txn \<Rightarrow> bool" where
  "is_force_tx cfg tx \<longleftrightarrow>
     tx_from tx = force_consensus_address cfg \<and> tx_function tx = ''forceCompleteConsensusSnapshot'' \<and>
     tx_gas_limit tx = gas_limit \<and> tx_chain_id tx = anchor_chain_id (st_anchor_chain cfg) \<and>
     (\<exists>project epochId. tx_args tx = [project, epochId])"

abbreviation only_force :: "settings \<Rightarrow> event \<Rightarrow> bool" where
  "only_force cfg ev \<equiv> (\<forall>tx. ev = TxSubmit tx \<longrightarrow> is_force_tx cfg tx)"

lemma grows_decorated:
  "keepsM (grows P) fn \<Longrightarrow> P SemaphoreAcquire \<Longrightarrow> P SemaphoreRelease \<Longrightarrow> P WriterLockAcquire \<Longrightarrow>
     P WriterLockRelease \<Longrightarrow> keepsM (grows P) (semaphore_then_aiorwlock_aqcuire_release lk task fn)"
  unfolding semaphore_then_aiorwlock_aqcuire_release_def acquire_semaphore_def acquire_writer_def
    release_semaphore_def release_writer_def
  by (intro growing; (simp split: option.split sum.split; intro allI impI conjI; intro growing)?; simp)


text \<open>What the queries of the RPC pool log.\<close>

fun pool_event :: "event \<Rightarrow> bool" where
  "pool_event (NodeCall u c) = True"
| "pool_event (RedisZAdd k m t) = True"
| "pool_event (RedisZRemRangeByScore k a b) = True"
| "pool_event (RateHit l k n) = True"
| "pool_event (ScriptLoad n) = True"
| "pool_event ev = False"

lemma pool_load_async: "keepsM (grows pool_event) (load_async_web3_provider env i)"
  unfolding load_async_web3_provider_def by (intro growing) simp_all

lemma pool_load_node: "keepsM (grows pool_event) (load_node env node)"
  unfolding load_node_def by (intro growing) simp_all

lemma pool_load_providers: "keepsM (grows pool_event) (load_web3_providers_and_rate_limits env)"
  unfolding load_web3_providers_and_rate_limits_def Let_def
  by (intro growing pool_load_node; (simp split: if_splits)?)

lemma pool_load_scripts: "keepsM (grows pool_event) (load_rate_limiter_scripts env)"
  by (rule grows_of_logs, rule logs_load_scripts) simp

lemma pool_ensure_init: "keepsM (grows pool_event) (ensure_init env)"
  unfolding ensure_init_def rh_init_def init_sync_nodes_def load_rate_limit_shas_def
    init_http_clients_def load_async_web3_providers_def
  by (intro growing pool_load_providers pool_load_scripts pool_load_async; simp)

lemma pool_check_node_limit: "keepsM (grows pool_event) (check_node_limit env node q msg n)"
  by (rule grows_of_logs) (intro logging; simp)

lemma pool_record_call: "keepsM (grows pool_event) (record_call env key m t)"
  by (rule grows_of_logs) (intro logging; simp)

abbreviation logs_of :: "int \<Rightarrow> int \<Rightarrow> event \<Rightarrow> bool" where
  "logs_of a b ev \<equiv> pool_event ev \<or> (\<exists>u. ev = GetLogs u a b)"

lemma pool_events_mono: "keepsM (grows pool_event) m \<Longrightarrow> keepsM (grows (logs_of a b)) m"
  by (erule keepsM_mono) (auto simp: grows_def elim!: list.pred_mono_strong)

lemma pool_get_events_logs:
  assumes "tenacity (retry_events env)"
  shows "keepsM (grows (logs_of a b)) (get_events_logs cfg env addr b a topics abi)"
  unfolding get_events_logs_def get_events_logs_attempt_def fetch_logs_def on_node_exception_def Let_def
  by (intro growing pool_events_mono[OF pool_ensure_init] grows.keeps_retry[OF assms]
       pool_events_mono[OF pool_check_node_limit] pool_events_mono[OF pool_record_call]; simp)

lemma pool_get_current_block: "keepsM (grows pool_event) (get_current_block env i)"
  unfolding get_current_block_def
  by (intro growing pool_ensure_init pool_check_node_limit pool_record_call
        grows_of_logs[OF logs_nowM]; simp)


text \<open>The methods of the service, from the transaction up to the loop.\<close>

lemma pool_only: "keepsM (grows (\<lambda>ev. \<not> is_submit ev)) m \<Longrightarrow> keepsM (grows (only_force cfg)) m"
  by (erule keepsM_mono) (auto simp: grows_def elim!: list.pred_mono_strong)

lemma pool_quiet: "keepsM (grows pool_event) m \<Longrightarrow> keepsM (grows (\<lambda>ev. \<not> is_submit ev)) m"
  by (erule keepsM_mono) (auto simp: grows_def elim!: list.pred_mono_strong)

lemma force_write: "keepsM (grows (only_force cfg))
    (write_transaction cfg env (force_consensus_address cfg) key ''forceCompleteConsensusSnapshot'' n g [p, e])"
  by (rule wt.write_grows) (simp add: carries_def is_force_tx_def)

lemma force_make_body: "keepsM (grows (only_force cfg)) (make_transaction_body cfg env project epochId)"
  unfolding make_transaction_body_def by (intro growing force_write; simp)

lemma force_reset: "keepsM (grows (only_force cfg)) (fc_reset_nonce cfg env task)"
  unfolding fc_reset_nonce_def fc_reset_nonce_body_def by (intro grows_decorated growing; simp)

lemma force_report: "keepsM (grows (only_force cfg)) (fc_report cfg env task project epochId extra)"
  unfolding fc_report_def
  by (intro growing force_reset grows_of_logs[OF logs_send_failure_notifications]; simp)

lemma force_make:
  assumes "tenacity (retry_make env)"
  shows "keepsM (grows (only_force cfg)) (make_transaction cfg env task project epochId)"
  unfolding make_transaction_def
  by (intro grows.keeps_retry[OF assms] grows_decorated force_make_body growing; simp)

lemma force_call:
  assumes "tenacity (retry_make env)"
  shows "keepsM (grows (only_force cfg)) (call_force_complete_consensus cfg env task project epochId)"
  unfolding call_force_complete_consensus_def call_force_body_def
  by (intro growing force_make[OF assms] force_report; simp)

lemma force_collect_due: "keepsM (grows P) (collect_due cfg env window ps)"
  by (induction ps) (auto intro!: growing)

lemma force_run_tasks:
  assumes "tenacity (retry_make env)"
  shows "keepsM (grows (only_force cfg)) (run_tasks cfg env txs)"
  unfolding run_tasks_def
  by (intro growing grows.keeps_gather_results)
     (auto simp: list_all_iff force_call[OF assms])

lemma force_complete:
  assumes "tenacity (retry_make env)"
  shows "keepsM (grows (only_force cfg)) (force_complete_consensus cfg env)"
  unfolding force_complete_consensus_def epoch_tasks_def Let_def
  by (intro growing force_run_tasks[OF assms] force_collect_due; simp)

lemma pool_handle_log: "keepsM (grows P) (handle_log env evlog)"
  unfolding handle_log_def by (intro growing; simp)

lemma pool_get_events:
  assumes "tenacity (retry_events env)"
  shows "keepsM (grows (\<lambda>ev. logs_of a b ev \<or> ev = SpawnForceConsensus)) (get_events cfg env a b)"
proof -
  have "keepsM (grows (\<lambda>ev. logs_of a b ev \<or> ev = SpawnForceConsensus))
      (get_events_logs cfg env addr b a topics abi)" for addr topics abi
    using pool_get_events_logs[OF assms]
    by (rule keepsM_mono) (auto simp: grows_def elim!: list.pred_mono_strong)
  then show ?thesis
    unfolding get_events_def by (intro growing pool_handle_log; simp)
qed

lemma get_events_quiet:
  assumes "tenacity (retry_events env)"
  shows "keepsM (grows (\<lambda>ev. \<not> is_submit ev)) (get_events cfg env a b)"
  using pool_get_events[OF assms]
  by (rule keepsM_mono) (auto simp: grows_def elim!: list.pred_mono_strong)

lemma force_round:
  assumes "tenacity (retry_make env)" and "tenacity (retry_events env)"
  shows "keepsM (grows (only_force cfg)) (fc_round cfg env)"
  unfolding fc_round_def process_blocks_def load_last_processed_def save_last_processed_def
    poll_sleep_def Let_def
  by (intro growing force_complete[OF assms(1)] pool_only[OF get_events_quiet[OF assms(2)]]
        pool_only[OF pool_quiet[OF pool_get_current_block]]; simp)

lemma force_setup: "keepsM (grows P) (fc_setup cfg env)"
  unfolding fc_setup_def fc_init_httpx_client_def Let_def
  by (intro growing grows_of_logs[OF logs_populate]; simp)

lemma force_run:
  assumes "tenacity (retry_make env)" and "tenacity (retry_events env)"
  shows "keepsM (grows (only_force cfg)) (fc_run rounds cfg env)"
  unfolding fc_run_def by (intro growing force_round[OF assms] force_setup)

section \<open>Fields an operation leaves alone\<close>

definition keeps_eq :: "('s \<Rightarrow> 'f) \<Rightarrow> 's \<Rightarrow> 's \<Rightarrow> bool" where
  "keeps_eq f s t \<longleftrightarrow> f t = f s"

interpretation keeps_eq: frame "keeps_eq f" for f
  by unfold_locales (auto simp: keeps_eq_def)

named_theorems keeping "operations that leave a field alone"

lemmas [keeping] = keeps_eq.keeps_rules keeps_eq.keeps_spawn

lemma keeps_eq_modify [keeping]: "(\<And>s. f (g s) = f s) \<Longrightarrow> keepsM (keeps_eq f) (modifyM g)"
  by (simp add: keepsM_def modifyM_def keeps_eq_def)

lemma keeps_eq_logs:
  assumes "keepsM (logs (\<lambda>_. True)) m" and "\<And>s w tr. f (s\<lparr>ext := w, trace := tr\<rparr>) = f s"
  shows "keepsM (keeps_eq f) m"
  using assms(1) by (rule keepsM_mono) (auto simp: logs_def keeps_eq_def assms(2))

lemma keeps_eq_ext [keeping]: "(\<And>s w. f (s\<lparr>ext := w\<rparr>) = f s) \<Longrightarrow> keepsM (keeps_eq f) (extM g)"
  by (auto simp: keepsM_def extM_def liftM_def keeps_eq_def split: prod.split sum.split)

lemma keeps_eq_emit [keeping]:
  "(\<And>s tr. f (s\<lparr>trace := tr\<rparr>) = f s) \<Longrightarrow> keepsM (keeps_eq f) (emitM ev)"
  by (simp add: keepsM_def emitM_def keeps_eq_def)

lemma keeps_eq_call [keeping]:
  "(\<And>s w. f (s\<lparr>ext := w\<rparr>) = f s) \<Longrightarrow> (\<And>s tr. f (s\<lparr>trace := tr\<rparr>) = f s) \<Longrightarrow>
     keepsM (keeps_eq f) (callM ev g)"
  unfolding callM_def by (intro keeping)

lemma keeps_eq_retry:
  fixes f :: "('w, 'z) world_scheme \<Rightarrow> 'f"
  assumes "tenacity retry" and "\<And>s w. f (s\<lparr>ext := w\<rparr>) = f s"
    and "\<And>k. keepsM (keeps_eq f) (g k)" and "\<And>k e. keepsM (keeps_eq f) (bs k e)"
  shows "keepsM (keeps_eq f) (retry p n bs g k)"
proof -
  have "env_frame (keeps_eq f)"
    by (intro env_frame.intro keeps_eq.frame_axioms env_frame_axioms.intro)
       (unfold keeps_eq_def, rule assms(2))
  from env_frame.keeps_retry[OF this assms(1,3,4)] show ?thesis .
qed

lemma keeps_eqD: "keepsM (keeps_eq f) m \<Longrightarrow> m s = (r, t) \<Longrightarrow> f t = f s"
  by (drule (1) keepsMD) (simp add: keeps_eq_def)

text \<open>The pool changes its own fields only.\<close>

abbreviation pool_keeps :: "(('w, 'z) rpc_helper_scheme, 'a) M \<Rightarrow> bool" where
  "pool_keeps \<equiv> keepsM (keeps_eq rpc_helper.more)"

lemma more_load_scripts: "pool_keeps (load_rate_limiter_scripts env)"
  by (rule keeps_eq_logs[OF logs_load_scripts]) simp_all

lemma more_load_node: "pool_keeps (load_node env node)"
  unfolding load_node_def by (intro keeping) simp_all

lemma more_load_providers: "pool_keeps (load_web3_providers_and_rate_limits env)"
  unfolding load_web3_providers_and_rate_limits_def Let_def
  by (intro keeping more_load_node) simp_all

lemma more_load_async: "pool_keeps (load_async_web3_provider env i)"
  unfolding load_async_web3_provider_def by (intro keeping) simp_all

lemma more_ensure_init: "pool_keeps (ensure_init env)"
  unfolding ensure_init_def rh_init_def init_sync_nodes_def load_rate_limit_shas_def
    init_http_clients_def load_async_web3_providers_def
  by (intro keeping more_load_scripts more_load_providers more_load_async) simp_all

lemma more_logs: "keepsM (logs (\<lambda>_. True)) m \<Longrightarrow> pool_keeps m"
  by (rule keeps_eq_logs) simp_all

lemma more_get_events_logs:
  assumes "tenacity (retry_events env)"
  shows "pool_keeps (get_events_logs cfg env addr b a topics abi)"
  unfolding get_events_logs_def get_events_logs_attempt_def fetch_logs_def on_node_exception_def Let_def nowM_def
  by (intro keeping more_ensure_init keeps_eq_retry[OF assms] more_logs[OF logs_check_node_limit]
       more_logs[OF logs_record_call]; simp)

lemma more_current_block: "pool_keeps (get_current_block env i)"
  unfolding get_current_block_def nowM_def
  by (intro keeping more_ensure_init more_logs[OF logs_check_node_limit] more_logs[OF logs_record_call]; simp)

lemma keeps_beyond:
  assumes "pool_keeps m" and "\<And>s t. rpc_helper.more t = rpc_helper.more s \<Longrightarrow> f t = f s"
  shows "keepsM (keeps_eq f) m"
  using assms(1) by (rule keepsM_mono) (unfold keeps_eq_def, rule assms(2))

lemma beyond_pool:
  fixes s t :: "('w, 'l) force_consensus"
  assumes "rpc_helper.more t = rpc_helper.more s"
  shows "fc_last_processed_block t = fc_last_processed_block s \<and> fc_pending_epochs t = fc_pending_epochs s \<and>
    fc_submitted t = fc_submitted s \<and> fc_finalized t = fc_finalized s \<and> fc_nonce t = fc_nonce s \<and>
    fc_writer t = fc_writer s \<and> fc_reader t = fc_reader s"
  using assms by (cases s, cases t) simp

text \<open>
  What the transactions leave alone: every field but the nonce, the locks and the log. The
  locale states it for a field, its interpretations name the fields it is used for.
\<close>

locale tx_blind =
  fixes f :: "('w, 'l) force_consensus \<Rightarrow> 'f"
  assumes f_ext: "f (s\<lparr>ext := w\<rparr>) = f s" and f_trace: "f (s\<lparr>trace := tr\<rparr>) = f s"
    and f_semaphore: "f (s\<lparr>tl_semaphore := n\<rparr>) = f s" and f_rwlock: "f (s\<lparr>tl_rwlock := l\<rparr>) = f s"
    and f_nonce: "f (s\<lparr>fc_nonce := i\<rparr>) = f s"
begin

lemma blind_logs: "keepsM (logs (\<lambda>_. True)) m \<Longrightarrow> keepsM (keeps_eq f) m"
  by (erule keeps_eq_logs) (metis f_ext f_trace)

lemma blind_decorated:
  "keepsM (keeps_eq f) fn \<Longrightarrow> keepsM (keeps_eq f) (semaphore_then_aiorwlock_aqcuire_release lk task fn)"
  unfolding semaphore_then_aiorwlock_aqcuire_release_def acquire_semaphore_def acquire_writer_def
    release_semaphore_def release_writer_def
  by (intro keeping; (simp add: f_ext f_trace f_semaphore f_rwlock split: option.split sum.split;
        intro allI impI conjI; intro keeping)?; simp add: f_ext f_trace f_semaphore f_rwlock)

lemma blind_reset: "keepsM (keeps_eq f) (fc_reset_nonce cfg env task)"
  unfolding fc_reset_nonce_def fc_reset_nonce_body_def timeSleepM_def
  by (intro blind_decorated keeping; simp add: f_ext f_trace f_nonce)

lemma blind_report: "keepsM (keeps_eq f) (fc_report cfg env task project epochId extra)"
  unfolding fc_report_def
  by (intro keeping blind_reset blind_logs[OF logs_send_failure_notifications]; simp)

lemma blind_make:
  assumes "tenacity (retry_make env)"
  shows "keepsM (keeps_eq f) (make_transaction cfg env task project epochId)"
proof -
  have "keepsM (logs (\<lambda>_. True)) (write_transaction cfg env a k fn n g args)" for a k fn n g args
    by (rule keepsM_mono[OF logs_write_transaction]) (erule logs_mono, simp)
  then show ?thesis
    unfolding make_transaction_def make_transaction_body_def
    by (intro keeps_eq_retry[OF assms] blind_decorated keeping blind_logs; simp add: f_ext f_nonce)
qed

lemma blind_call:
  assumes "tenacity (retry_make env)"
  shows "keepsM (keeps_eq f) (call_force_complete_consensus cfg env task project epochId)"
  unfolding call_force_complete_consensus_def call_force_body_def
  by (intro keeping blind_make[OF assms] blind_report; simp add: f_ext f_trace)

lemma blind_run_tasks:
  assumes "tenacity (retry_make env)" and "\<And>s n. f (s\<lparr>fc_tasks := n\<rparr>) = f s"
  shows "keepsM (keeps_eq f) (run_tasks cfg env txs)"
  unfolding run_tasks_def
  by (intro keeping keeps_eq.keeps_gather_results)
     (auto simp: list_all_iff blind_call[OF assms(1)] assms(2))

lemma blind_collect: "keepsM (keeps_eq f) (collect_due cfg env window ps)"
  by (induction ps) (auto simp: nowM_def f_ext intro!: keeping)

end

interpretation marker: tx_blind "fc_last_processed_block :: ('w, 'l) force_consensus \<Rightarrow> int"
  by unfold_locales simp_all

interpretation books: tx_blind
    "\<lambda>s :: ('w, 'l) force_consensus. (fc_pending_epochs s, fc_submitted s, fc_finalized s)"
  by unfold_locales simp_all

lemma marker_complete:
  assumes "tenacity (retry_make env)"
  shows "keepsM (keeps_eq fc_last_processed_block) (force_complete_consensus cfg env)"
  unfolding force_complete_consensus_def epoch_tasks_def Let_def
  by (intro keeping marker.blind_collect marker.blind_run_tasks[OF assms]; simp)

section \<open>The blocks of a round\<close>

lemma marker_get_events:
  assumes "tenacity (retry_events env)"
  shows "keepsM (keeps_eq fc_last_processed_block) (get_events cfg env a b)"
proof -
  have "keepsM (keeps_eq fc_last_processed_block) (get_events_logs cfg env addr b a topics abi)"
    for addr topics abi
    by (rule keeps_beyond[OF more_get_events_logs[OF assms]]) (drule beyond_pool, simp)
  then show ?thesis
    unfolding get_events_def handle_log_def nowM_def by (intro keeping; simp)
qed


text \<open>What the background task and saving the block log.\<close>

lemma complete_no_logs:
  assumes "tenacity (retry_make env)"
  shows "keepsM (grows (\<lambda>ev. (\<forall>u a b. ev \<noteq> GetLogs u a b) \<and> (\<forall>k v. ev \<noteq> RedisSet k v)))
           (force_complete_consensus cfg env)" (is "keepsM (grows ?P) _")
proof -
  have sends: "keepsM (grows ?P) (write_transaction cfg env a k fn n g args)" for a k fn n g args
    by (rule grows_of_logs, rule keepsM_mono[OF logs_write_transaction], erule logs_mono)
       (auto elim: tx_traffic.elims)
  have reset: "keepsM (grows ?P) (fc_reset_nonce cfg env task)" for task
    unfolding fc_reset_nonce_def fc_reset_nonce_body_def by (intro grows_decorated growing; simp)
  have report: "keepsM (grows ?P) (fc_report cfg env task project epochId extra)" for task project epochId extra
    unfolding fc_report_def
    by (intro growing reset grows_of_logs[OF logs_send_failure_notifications]; simp)
  have "keepsM (grows ?P) (call_force_complete_consensus cfg env task project epochId)" for task project epochId
    unfolding call_force_complete_consensus_def call_force_body_def make_transaction_def make_transaction_body_def
    by (intro growing grows.keeps_retry[OF assms] grows_decorated sends report; simp)
  then show ?thesis
    unfolding force_complete_consensus_def epoch_tasks_def run_tasks_def Let_def
    by (intro growing grows.keeps_gather_results force_collect_due)
       (auto simp: list_all_iff)
qed

lemma sleep_run:
  obtains r w where "poll_sleep cfg env s =
      (r, s\<lparr>ext := w, trace := trace s @ [AsyncSleep (polling_interval (st_anchor_chain cfg))]\<rparr>)"
    and "r \<noteq> Pending"
  by (cases "async_sleep env (polling_interval (st_anchor_chain cfg)) (ext s)"; cases "fst (async_sleep env (polling_interval (st_anchor_chain cfg)) (ext s))")
     (auto simp: poll_sleep_def asyncSleepM_def M_defs)

lemma load_marker:
  "fc_last_processed_block s \<noteq> 0 \<Longrightarrow> load_last_processed env cur s = (Ret (), s)"
  by (simp add: load_last_processed_def M_defs)

text \<open>The round after the head and the marker are known, by what became of the query for events.\<close>

lemma process_blocks_cases:
  assumes "process_blocks cfg env cur s0 = (r, t)" and load: "load_last_processed env cur s0 = (Ret (), s)"
  defines "l \<equiv> clamp_last_processed cfg cur (fc_last_processed_block s)"
  defines "s' \<equiv> s\<lparr>fc_last_processed_block := l\<rparr>"
  obtains (idle) "l = cur" and "poll_sleep cfg env s' = (r, t)"
  | (failed) e u where "l \<noteq> cur" and "get_events cfg env (l + 1) cur s' = (Raise e, u)" and "is_Exception e"
      and "poll_sleep cfg env u = (r, t)"
  | (raised) e where "l \<noteq> cur" and "get_events cfg env (l + 1) cur s' = (Raise e, t)" and "\<not> is_Exception e"
      and "r = Raise e"
  | (hung) "l \<noteq> cur" and "get_events cfg env (l + 1) cur s' = (Pending, t)" and "r = Pending"
  | (saved) u where "l \<noteq> cur" and "get_events cfg env (l + 1) cur s' = (Ret (), u)"
      and "thenM (save_last_processed env cur)
             (thenM (spawnM (force_complete_consensus cfg env)) (poll_sleep cfg env))
             (u\<lparr>fc_last_processed_block := cur\<rparr>) = (r, t)"
proof -
  have run: "(if l = cur then poll_sleep cfg env
      else try_elseM is_Exception (get_events cfg env (l + 1) cur) (\<lambda>e. poll_sleep cfg env)
             (\<lambda>_. thenM (modifyM (\<lambda>s. s\<lparr>fc_last_processed_block := cur\<rparr>))
                 (thenM (save_last_processed env cur)
                 (thenM (spawnM (force_complete_consensus cfg env)) (poll_sleep cfg env))))) s' = (r, t)"
    using assms(1) unfolding process_blocks_def thenM_Ret[where m = "load_last_processed env cur", OF load]
    by (simp add: M_step l_def s'_def split: if_split_asm)
  show thesis
  proof (cases "l = cur")
    case True
    with run that(1) show thesis by simp
  next
    case False
    then have "try_elseM is_Exception (get_events cfg env (l + 1) cur) (\<lambda>e. poll_sleep cfg env)
             (\<lambda>_. thenM (modifyM (\<lambda>s. s\<lparr>fc_last_processed_block := cur\<rparr>))
                 (thenM (save_last_processed env cur)
                 (thenM (spawnM (force_complete_consensus cfg env)) (poll_sleep cfg env)))) s' = (r, t)"
      using run by simp
    then show thesis
    proof (cases rule: try_elseM_E)
      case (Ret a u)
      then show thesis using that(5)[of u] False by (simp add: M_step)
    next
      case (Caught e u)
      then show thesis using that(2)[of e u] False by simp
    next
      case (Raise e)
      then show thesis using that(3)[of e] False by simp
    next
      case Pending
      then show thesis using that(4) False by simp
    qed
  qed
qed


lemma save_run:
  assumes "thenM (save_last_processed env cur)
      (thenM (spawnM (force_complete_consensus cfg env)) (poll_sleep cfg env)) s = (r, t)"
    and "tenacity (retry_make env)"
  shows "fc_last_processed_block t = fc_last_processed_block s"
    and "\<exists>evs. trace t = trace s @ evs \<and> (\<forall>u a b. GetLogs u a b \<notin> set evs) \<and>
           (\<forall>k v. RedisSet k v \<in> set evs \<longrightarrow> k = event_detector_last_processed_block \<and> v = json_dumps (JInt cur))"
proof -
  let ?P = "\<lambda>ev. (\<forall>u a b. ev \<noteq> GetLogs u a b) \<and>
      (\<forall>k v. ev = RedisSet k v \<longrightarrow> k = event_detector_last_processed_block \<and> v = json_dumps (JInt cur))"
  have "keepsM (grows ?P) (force_complete_consensus cfg env)"
    using complete_no_logs[OF assms(2)]
    by (rule keepsM_mono) (auto simp: grows_def elim!: list.pred_mono_strong)
  then have "keepsM (grows ?P) (thenM (save_last_processed env cur)
      (thenM (spawnM (force_complete_consensus cfg env)) (poll_sleep cfg env)))"
    unfolding save_last_processed_def poll_sleep_def Let_def by (intro growing; simp)
  from growsE[OF this assms(1)] obtain evs where "trace t = trace s @ evs" "list_all ?P evs" .
  then show "\<exists>evs. trace t = trace s @ evs \<and> (\<forall>u a b. GetLogs u a b \<notin> set evs) \<and>
           (\<forall>k v. RedisSet k v \<in> set evs \<longrightarrow> k = event_detector_last_processed_block \<and> v = json_dumps (JInt cur))"
    by (auto simp: list_all_iff)
  have "keepsM (keeps_eq fc_last_processed_block) (thenM (save_last_processed env cur)
      (thenM (spawnM (force_complete_consensus cfg env)) (poll_sleep cfg env)))"
    unfolding save_last_processed_def poll_sleep_def asyncSleepM_def Let_def
    by (intro keeping marker_complete[OF assms(2)]; simp)
  from keeps_eqD[OF this assms(1)]
  show "fc_last_processed_block t = fc_last_processed_block s" .
qed

text \<open>Reading the events, up to the creation of the background task.\<close>

definition read_events ::
  "settings \<Rightarrow> ('w, 'l) fc_env \<Rightarrow> int \<Rightarrow> int \<Rightarrow> (('w, 'l) force_consensus, unit) M" where
  "read_events cfg env a b =
     bindM (getsM (\<lambda>s. (fc_event_sig s, fc_event_abi s))) (\<lambda>(event_sig, event_abi).
     thenM (bindM (getsM fc_writer) (\<lambda>w. liftM (the_pool w)))
     (bindM (get_events_logs cfg env (protocol_state_address cfg) b a
               (JList [JList (map JStr event_sig)]) event_abi) (\<lambda>events_log.
      forM events_log (handle_log env))))"

lemma get_events_read: "get_events cfg env a b = thenM (read_events cfg env a b) (emitM SpawnForceConsensus)"
  by (rule ext)
     (simp add: get_events_def read_events_def M_defs split: prod.split res.split sum.split)

lemma read_events_logs:
  assumes "tenacity (retry_events env)"
  shows "keepsM (grows (logs_of a b)) (read_events cfg env a b)"
  unfolding read_events_def by (intro growing pool_handle_log pool_get_events_logs[OF assms])

lemma get_events_trace:
  assumes "tenacity (retry_events env)" and "get_events cfg env a b s = (r, t)"
  obtains evs where "list_all (logs_of a b) evs"
    and "trace t = trace s @ evs @ (if r = Ret () then [SpawnForceConsensus] else [])"
  using assms(2) unfolding get_events_read
proof (cases rule: thenM_E)
  case (Ret x u)
  from growsE[OF read_events_logs[OF assms(1)] Ret(1)] obtain evs where
    "trace u = trace s @ evs" "list_all (logs_of a b) evs" .
  with Ret(2) that[of evs] show thesis by (auto simp: emitM_def)
next
  case (Raise e)
  from growsE[OF read_events_logs[OF assms(1)] Raise(1)] obtain evs where
    "trace t = trace s @ evs" "list_all (logs_of a b) evs" .
  with Raise(2) that[of evs] show thesis by simp
next
  case Pending
  from growsE[OF read_events_logs[OF assms(1)] Pending(1)] obtain evs where
    "trace t = trace s @ evs" "list_all (logs_of a b) evs" .
  with Pending(2) that[of evs] show thesis by simp
qed

text \<open>
  C13: a round that knows the head \<open>cur\<close> and the marker \<open>m\<close> (its own, the one saved in Redis where
  it has none, or the block before the head where there is none) asks the nodes for one range of
  blocks only, which ends at the head: it starts after the marker, unless the marker is behind by
  the configured buffer or more, then with the last \<^verbatim>\<open>max_block_buffer\<close> blocks. The marker ends at the
  head exactly when the events were read; when they were not, it stays where the range started and
  nothing is saved. What is saved in Redis is the head.
\<close>

theorem process_blocks_range:
  assumes "tenacity (retry_make env)" and "tenacity (retry_events env)"
    and "load_last_processed env cur s = (Ret (), s')"
    and "process_blocks cfg env cur s = (r, t)"
  defines "m \<equiv> fc_last_processed_block s'" and "n \<equiv> max_block_buffer (st_anchor_chain cfg)"
  shows "\<exists>evs. trace t = trace s' @ evs \<and>
      (\<forall>u a b. GetLogs u a b \<in> set evs \<longrightarrow> a = (if cur - m < n then m + 1 else cur - n + 1) \<and> b = cur) \<and>
      (\<forall>k v. RedisSet k v \<in> set evs \<longrightarrow> v = json_dumps (JInt cur) \<and> SpawnForceConsensus \<in> set evs) \<and>
      fc_last_processed_block t =
        (if SpawnForceConsensus \<in> set evs then cur else if cur - m < n then m else cur - n)"
proof -
  define l where "l = clamp_last_processed cfg cur m"
  have l: "l = (if cur - m < n then m else cur - n)"
    by (simp add: l_def clamp_last_processed_def n_def)
  let ?s = "s'\<lparr>fc_last_processed_block := l\<rparr>"
  have clean: "\<forall>u x y. GetLogs u x y \<in> set evs \<longrightarrow> x = l + 1 \<and> y = cur"
      "\<forall>k v. RedisSet k v \<notin> set evs" "SpawnForceConsensus \<notin> set evs"
    if "list_all (logs_of (l + 1) cur) evs" for evs
    using that by (auto simp: list_all_iff)
  have marker: "fc_last_processed_block u = l" if "get_events cfg env (l + 1) cur ?s = (x, u)" for x u
    using keeps_eqD[OF marker_get_events[OF assms(2)] that] by simp
  from assms(4,3) have "\<exists>evs. trace t = trace s' @ evs \<and>
      (\<forall>u a b. GetLogs u a b \<in> set evs \<longrightarrow> a = l + 1 \<and> b = cur) \<and>
      (\<forall>k v. RedisSet k v \<in> set evs \<longrightarrow> v = json_dumps (JInt cur) \<and> SpawnForceConsensus \<in> set evs) \<and>
      fc_last_processed_block t = (if SpawnForceConsensus \<in> set evs then cur else l)"
  proof (cases rule: process_blocks_cases)
    case idle
    then show ?thesis
      by (cases rule: sleep_run[of cfg env ?s]) (auto simp: l_def m_def)
  next
    case (failed e u)
    note ev = failed(2)[folded m_def, folded l_def]
    from get_events_trace[OF assms(2) ev] obtain evs where
      "list_all (logs_of (l + 1) cur) evs" "trace u = trace s' @ evs" by auto
    with failed(4) marker[OF ev] clean[of evs] show ?thesis
      by (cases rule: sleep_run[of cfg env u]) auto
  next
    case (raised e)
    note ev = raised(2)[folded m_def, folded l_def]
    from get_events_trace[OF assms(2) ev] obtain evs where
      "list_all (logs_of (l + 1) cur) evs" "trace t = trace s' @ evs" by auto
    with marker[OF ev] clean[of evs] show ?thesis by auto
  next
    case hung
    note ev = hung(2)[folded m_def, folded l_def]
    from get_events_trace[OF assms(2) ev] obtain evs where
      "list_all (logs_of (l + 1) cur) evs" "trace t = trace s' @ evs" by auto
    with marker[OF ev] clean[of evs] show ?thesis by auto
  next
    case (saved u)
    note ev = saved(2)[folded m_def, folded l_def]
    from get_events_trace[OF assms(2) ev] obtain evs where
      "list_all (logs_of (l + 1) cur) evs" "trace u = trace s' @ evs @ [SpawnForceConsensus]" by auto
    with save_run[OF saved(3) assms(1)] clean[of evs] show ?thesis by auto
  qed
  then show ?thesis unfolding l by (auto split: if_splits)
qed

section \<open>An example service\<close>

text \<open>Nodes, chain and Redis answer, receipts are not checked, sets are gone through as listed.\<close>

definition fc_env_of :: "('w, ('w, nat \<times> nat) force_consensus) rpc_env \<Rightarrow> ('w, nat \<times> nat) fc_env" where
  "fc_env_of renv = rpc_env.extend renv (fc_env.fields counting_lock plain_retry
     (\<lambda>n. Inr (JStr n)) (\<lambda>u n w. (Inr (), w)) (\<lambda>h k w. (Inr None, w)) (\<lambda>h k v w. (Inr (), w))
     (\<lambda>n w. (Inr 50, w)) (\<lambda>r. Inl (Exn TypeError ''not serializable''))
     (\<lambda>j. case j of JStr x \<Rightarrow> Inr (Some x) | JInt i \<Rightarrow> Inr (Some (int_str i)) | _ \<Rightarrow> Inr None) (\<lambda>ps. ps) (\<lambda>ps. ps))"

definition example_fc_env :: "(unit, nat \<times> nat) fc_env" where
  "example_fc_env = fc_env_of (pool_env open_limiter)"

lemma fc_env_tenacity [simp]: "tenacity (retry_make (fc_env_of renv))"
  by (simp add: fc_env_of_def fc_env.defs rpc_env.defs plain_retry_tenacity)

lemma fc_env_events [simp]: "tenacity (retry_events (fc_env_of (pool_env lenv)))"
  by (simp add: fc_env_of_def fc_env.defs pool_env_def env.defs limiter_env.defs rpc_env.defs plain_retry_tenacity)

definition example_fc_at :: "'w \<Rightarrow> ('w, nat \<times> nat) force_consensus" where
  "example_fc_at w = tx_locks.extend (rpc_helper.extend (example_pool_at w) (tx_locks.fields 20 (Some (0, 0))))
     \<lparr>fc_tasks = 1, fc_shutdown_initiated = False, last_sent_block = 0, fc_end = None, fc_epoch_id = 1,
      fc_pending_epochs = [(100, JInt 7), (990, JInt 8)], fc_submission_window = 10, fc_nonce = 5,
      fc_last_processed_block = 90, fc_client = True,
      fc_submitted = [(JInt 7, [JStr ''p'', JStr ''q'']), (JInt 8, [JStr ''p''])],
      fc_finalized = [(JInt 7, [JStr ''q''])], fc_gas = 1, fc_event_sig = [''0xaa''],
      fc_event_abi = [(''0xaa'', JNull)], fc_redis_pool = None,
      fc_reader = Some \<lparr>rd_url = ''r'', rd_size = 200\<rparr>, fc_writer = Some \<lparr>rd_url = ''r'', rd_size = 200\<rparr>\<rparr>"

abbreviation example_fc :: "(unit, nat \<times> nat) force_consensus" where
  "example_fc \<equiv> example_fc_at ()"

theorem process_blocks_range_witness:
  "\<exists>evs. trace (snd (process_blocks example_settings example_fc_env 130 example_fc)) = trace example_fc @ evs \<and>
     (\<forall>u a b. GetLogs u a b \<in> set evs \<longrightarrow> a = 111 \<and> b = 130)"
proof -
  have marker: "fc_last_processed_block example_fc = 90"
    by (simp add: example_fc_at_def tx_locks.defs rpc_helper.defs force_consensus.defs)
  then have "load_last_processed example_fc_env 130 example_fc = (Ret (), example_fc)"
    by (simp add: load_marker)
  with marker show ?thesis
    using process_blocks_range[of example_fc_env 130 example_fc example_fc example_settings,
        OF _ _ _ prod.collapse[symmetric]]
    by (auto simp: example_fc_env_def example_settings_def)
qed

end
