(* ===== verification/Force_Epochs.thy ===== *)
theory Force_Epochs
  imports Force_Props
begin

text \<open>
  Properties of the force-consensus service, continued: the marker across a restart, which epochs
  and projects one step completes, what is kept of them, a step on a healthy chain, and a
  transaction that failed. The last section runs them on an example.
\<close>

section \<open>The marker across a restart\<close>

text \<open>
  C24: the marker that a round saved is the one a restarted service begins with, whatever head it
  then sees: the text in Redis reads back to the block that was written.
\<close>

theorem saved_marker_survives_restart:
  assumes "\<And>h h' v w w1. redis_set env h event_detector_last_processed_block v w = (Inr (), w1) \<Longrightarrow>
             \<exists>w2. redis_get env h' event_detector_last_processed_block w1 = (Inr (Some v), w2)"
    and "save_last_processed env b s = (Ret (), t)"
    and "fc_last_processed_block s' = 0" and "fc_reader s' = Some h" and "ext s' = ext t"
  shows "\<exists>u. load_last_processed env cur s' = (Ret (), u) \<and> fc_last_processed_block u = b"
proof -
  let ?v = "json_dumps (JInt b)"
  have v: "?v \<noteq> []" "json_loads_int ?v = Inr b"
    using json_loads_int_str[of b] by (auto simp: int_str_def)
  from assms(2) obtain writer w1 where
    "redis_set env writer event_detector_last_processed_block ?v (ext s) = (Inr (), w1)" "ext t = w1"
    by (auto simp: save_last_processed_def the_pool_def M_defs Let_def
        split: option.splits prod.splits sum.splits)
  with assms(1,5) obtain w2 where get: "redis_get env h event_detector_last_processed_block (ext s') = (Inr (Some ?v), w2)"
    by metis
  then have "load_last_processed env cur s' = (Ret (), s'\<lparr>ext := w2,
      trace := trace s' @ [RedisGet event_detector_last_processed_block], fc_last_processed_block := b\<rparr>)"
    using assms(3,4) v by (simp add: load_last_processed_def the_pool_def M_defs)
  then show ?thesis by simp
qed

section \<open>Which epochs and projects\<close>

lemma dd_get_touch [simp]: "dd_get k (dd_touch j d) = dd_get k d"
  by (auto simp: dd_get_def dd_touch_def map_of_append split: option.split)
     (auto simp: map_add_def split: option.splits if_splits)

lemma dd_get_touches [simp]: "dd_get k (foldl (\<lambda>d j. dd_touch j d) d js) = dd_get k d"
  by (induction js arbitrary: d) simp_all

definition open_projects :: "('w, 'l) force_consensus \<Rightarrow> json \<Rightarrow> json list" where
  "open_projects s e = filter (\<lambda>p. p \<notin> set (dd_get e (fc_finalized s))) (dd_get e (fc_submitted s))"

definition touched :: "json list \<Rightarrow> ('w, 'l) force_consensus \<Rightarrow> ('w, 'l) force_consensus" where
  "touched es s = s\<lparr>fc_submitted := foldl (\<lambda>d j. dd_touch j d) (fc_submitted s) es,
                    fc_finalized := foldl (\<lambda>d j. dd_touch j d) (fc_finalized s) es\<rparr>"

lemma open_projects_touched [simp]: "open_projects (touched es s) e = open_projects s e"
  by (simp add: open_projects_def touched_def)

lemma epoch_tasks_run:
  "epoch_tasks env e s = (Ret (map (\<lambda>p. (p, e)) (iter_projects env (open_projects s e))), touched [e] s)"
  by (simp add: epoch_tasks_def open_projects_def touched_def M_defs)

lemma mapM_epoch_tasks:
  "mapM (epoch_tasks env) es s =
     (Ret (map (\<lambda>e. map (\<lambda>p. (p, e)) (iter_projects env (open_projects s e))) es), touched es s)"
proof (induction es arbitrary: s)
  case Nil
  show ?case by (simp add: returnM_apply touched_def)
next
  case (Cons e es)
  have "touched es (touched [e] s) = touched (e # es) s" by (simp add: touched_def)
  then show ?case
    by (simp add: bindM_Ret[OF epoch_tasks_run] bindM_Ret[OF Cons] returnM_apply)
qed

lemma collect_due_logs: "keepsM (logs (\<lambda>_. False)) (collect_due cfg env window ps)"
  by (induction ps) (auto intro!: logging)

text \<open>Reads of the clock around the selection lie between \<open>lo\<close> and \<open>hi\<close>.\<close>

definition clock_between :: "('w, 'l) fc_env \<Rightarrow> real \<Rightarrow> real \<Rightarrow> bool" where
  "clock_between env lo hi \<longleftrightarrow> (\<forall>w x w'. time_time env w = (Inr x, w') \<longrightarrow> lo \<le> x \<and> x \<le> hi)"

lemma collect_due_between:
  assumes "collect_due cfg env window ps s = (Ret due, t)"
    and "clock_between env lo hi"
  shows "set due \<subseteq> {p \<in> set ps. epoch_due cfg window (fst p) hi}"
    and "{p \<in> set ps. epoch_due cfg window (fst p) lo} \<subseteq> set due"
  using assms(1)
proof (induction ps arbitrary: s due)
  case Nil
  { case 1 then show ?case by (simp add: returnM_apply) }
  { case 2 then show ?case by simp }
next
  case (Cons p ps)
  have split: "\<exists>now w rest u. time_time env (ext s) = (Inr now, w) \<and>
      collect_due cfg env window ps u = (Ret rest, t) \<and>
      due = (if epoch_due cfg window (fst p) now then p # rest else rest)"
    if "collect_due cfg env window (p # ps) s = (Ret due, t)" for s due
    using that
    by (auto elim!: bindM_RetE simp: nowM_def extM_def liftM_def returnM_def split: prod.splits sum.splits) blast
  have between: "epoch_due cfg window (fst p) lo \<Longrightarrow> epoch_due cfg window (fst p) now"
      "epoch_due cfg window (fst p) now \<Longrightarrow> epoch_due cfg window (fst p) hi"
    if "time_time env w = (Inr now, w')" for now w w'
    using assms(2) that unfolding clock_between_def epoch_due_def by fastforce+
  { case 1
    from split[OF this] obtain now w rest u where r: "time_time env (ext s) = (Inr now, w)"
      "collect_due cfg env window ps u = (Ret rest, t)"
      "due = (if epoch_due cfg window (fst p) now then p # rest else rest)" by blast
    with Cons.IH(1)[OF r(2)] between[OF r(1)] show ?case by auto }
  { case 2
    from split[OF this] obtain now w rest u where r: "time_time env (ext s) = (Inr now, w)"
      "collect_due cfg env window ps u = (Ret rest, t)"
      "due = (if epoch_due cfg window (fst p) now then p # rest else rest)" by blast
    with Cons.IH(2)[OF r(2)] between[OF r(1)] show ?case by auto }
qed

text \<open>The state in which the tasks run, and the tasks.\<close>

definition tasks_state ::
  "(real \<times> json) list \<Rightarrow> 'w \<Rightarrow> ('w, 'l) force_consensus \<Rightarrow> ('w, 'l) force_consensus" where
  "tasks_state due w s =
     touched (map snd due)
       (s\<lparr>ext := w, fc_pending_epochs := filter (\<lambda>p. p \<notin> set due) (fc_pending_epochs s)\<rparr>)"

definition due_tasks ::
  "('w, 'l) fc_env \<Rightarrow> (real \<times> json) list \<Rightarrow> ('w, 'l) force_consensus \<Rightarrow> (json \<times> json) list" where
  "due_tasks env due s =
     concat (map (\<lambda>e. map (\<lambda>p. (p, e)) (iter_projects env (open_projects s e))) (map snd due))"

definition drop_entries :: "json \<Rightarrow> ('w, 'l) force_consensus \<Rightarrow> ('w, 'l) force_consensus" where
  "drop_entries e s = s\<lparr>fc_finalized := dd_drop e (fc_finalized s), fc_submitted := dd_drop e (fc_submitted s)\<rparr>"

lemma force_complete_cases:
  assumes "force_complete_consensus cfg env s = (r, t)"
  obtains (clock) w where "t = s\<lparr>ext := w\<rparr>" and "r \<noteq> Ret ()"
      and "\<nexists>due u. collect_due cfg env (fc_submission_window s) (iter_epochs env (fc_pending_epochs s)) s = (Ret due, u)"
  | (collected) due w where
      "collect_due cfg env (fc_submission_window s) (iter_epochs env (fc_pending_epochs s)) s = (Ret due, s\<lparr>ext := w\<rparr>)"
      and "(if due = [] then returnM ()
            else thenM (run_tasks cfg env (due_tasks env due s))
                   (modifyM (drop_entries (snd (last due))))) (tasks_state due w s) = (r, t)"
proof -
  let ?collect = "collect_due cfg env (fc_submission_window s) (iter_epochs env (fc_pending_epochs s))"
  obtain x u where run: "?collect s = (x, u)" by (cases "?collect s")
  from logsE[OF collect_due_logs this] obtain w evs where "u = s\<lparr>ext := w, trace := trace s @ evs\<rparr>" "list_all (\<lambda>_. False) evs" .
  then have u: "u = s\<lparr>ext := w\<rparr>" by (cases evs) simp_all
  show thesis
  proof (cases x)
    case (Ret due)
    let ?s1 = "s\<lparr>ext := w, fc_pending_epochs := filter (\<lambda>p. p \<notin> set due) (fc_pending_epochs s)\<rparr>"
    have "open_projects ?s1 = open_projects s" by (simp add: fun_eq_iff open_projects_def)
    moreover have "touched [] s1 = s1" for s1 :: "('a, 'b) force_consensus" by (simp add: touched_def)
    ultimately have "(if due = [] then returnM ()
            else thenM (run_tasks cfg env (due_tasks env due s))
                   (modifyM (drop_entries (snd (last due))))) (tasks_state due w s) = (r, t)"
      using assms run[unfolded Ret u]
      by (auto simp: force_complete_consensus_def Let_def M_step bindM_Ret[where m = ?collect, OF run[unfolded Ret u]]
          bindM_Ret[OF mapM_epoch_tasks] due_tasks_def tasks_state_def last_map
          drop_entries_def[abs_def] split: if_splits)
    with collected run Ret u show thesis by blast
  next
    case (Raise e)
    then have "r \<noteq> Ret () \<and> t = s\<lparr>ext := w\<rparr>"
      using assms run u
      by (auto simp: force_complete_consensus_def M_step bindM_Raise[where m = ?collect, OF run[unfolded Raise u]])
    with clock run Raise show thesis by simp
  next
    case Pending
    then have "r \<noteq> Ret () \<and> t = s\<lparr>ext := w\<rparr>"
      using assms run u
      by (auto simp: force_complete_consensus_def M_step bindM_Pending[where m = ?collect, OF run[unfolded Pending u]])
    with clock run Pending show thesis by simp
  qed
qed


section \<open>Only what is due is forced, and it is forced once\<close>

interpretation pending: tx_blind "fc_pending_epochs :: ('w, 'l) force_consensus \<Rightarrow> _"
  by unfold_locales simp_all

lemma gather_args:
  assumes "\<forall>m \<in> set ms. keepsM (grows P) m"
  shows "keepsM (grows P) (gather_results ms)"
  using assms by (intro grows.keeps_gather_results) (simp add: list_all_iff)

lemma call_args:
  assumes "tenacity (retry_make env)"
  shows "keepsM (grows (\<lambda>ev. \<forall>tx. ev = TxSubmit tx \<longrightarrow> tx_args tx = [p, e]))
           (call_force_complete_consensus cfg env task p e)" (is "keepsM (grows ?P) _")
proof -
  have sends: "keepsM (grows ?P) (write_transaction cfg env a k fn n g [p, e])" for a k fn n g
    by (rule wt.write_grows) (simp add: carries_def)
  have reset: "keepsM (grows ?P) (fc_reset_nonce cfg env task)"
    unfolding fc_reset_nonce_def fc_reset_nonce_body_def by (intro grows_decorated growing; simp)
  have report: "keepsM (grows ?P) (fc_report cfg env task p e extra)" for extra
    unfolding fc_report_def
    by (intro growing reset grows_of_logs[OF logs_send_failure_notifications]; simp)
  show ?thesis
    unfolding call_force_complete_consensus_def call_force_body_def make_transaction_def make_transaction_body_def
    by (intro growing grows.keeps_retry[OF assms] grows_decorated sends report; simp)
qed

lemma run_tasks_args:
  assumes "tenacity (retry_make env)"
  shows "keepsM (grows (\<lambda>ev. \<forall>tx. ev = TxSubmit tx \<longrightarrow> (\<exists>p e. (p, e) \<in> set txs \<and> tx_args tx = [p, e])))
           (run_tasks cfg env txs)" (is "keepsM (grows ?P) _")
proof -
  have "keepsM (grows ?P) (call_force_complete_consensus cfg env task p e)" if "(p, e) \<in> set txs" for task p e
    using call_args[OF assms] by (rule keepsM_mono) (use that in \<open>auto simp: grows_def elim!: list.pred_mono_strong\<close>)
  then have "\<forall>m \<in> set (map (\<lambda>(task, p, e). call_force_complete_consensus cfg env task p e) (zip ns txs)).
      keepsM (grows ?P) m" for ns
    by (auto dest: set_zip_rightD)
  then show ?thesis
    unfolding run_tasks_def by (intro growing gather_args) simp_all
qed

lemma tasks_state_fields [simp]:
  "trace (tasks_state due w s) = trace s"
  "fc_pending_epochs (tasks_state due w s) = filter (\<lambda>p. p \<notin> set due) (fc_pending_epochs s)"
  "fc_nonce (tasks_state due w s) = fc_nonce s" "fc_gas (tasks_state due w s) = fc_gas s"
  "tl_semaphore (tasks_state due w s) = tl_semaphore s" "tl_rwlock (tasks_state due w s) = tl_rwlock s"
  "ext (tasks_state due w s) = w"
  "dd_get k (fc_submitted (tasks_state due w s)) = dd_get k (fc_submitted s)"
  "dd_get k (fc_finalized (tasks_state due w s)) = dd_get k (fc_finalized s)"
  by (simp_all add: tasks_state_def touched_def)

lemma dd_get_drop: "dd_get k (dd_drop j d) = (if k = j then [] else dd_get k d)"
proof (cases "dd_get j d = []")
  case True
  then show ?thesis by (auto simp: dd_drop_def)
next
  case False
  then show ?thesis by (auto simp: dd_drop_def dd_get_def delete_conv')
qed

text \<open>The tasks of the epochs that are due, and what the step leaves of the records.\<close>

lemma due_run:
  fixes s :: "('w, 'l) force_consensus"
  assumes "tenacity (retry_make env)"
    and "(if due = [] then returnM ()
          else thenM (run_tasks cfg env (due_tasks env due s)) (modifyM (drop_entries (snd (last due))))) (tasks_state due w s) = (r, t)"
  obtains evs where "trace t = trace s @ evs"
    and "\<And>tx. tx \<in> set (submitted evs) \<Longrightarrow> \<exists>p e. (p, e) \<in> set (due_tasks env due s) \<and> tx_args tx = [p, e]"
    and "fc_pending_epochs t = filter (\<lambda>p. p \<notin> set due) (fc_pending_epochs s)"
    and "\<And>k. dd_get k (fc_submitted t) \<in> {dd_get k (fc_submitted s), []} \<and>
           dd_get k (fc_finalized t) \<in> {dd_get k (fc_finalized s), []}"
    and "\<And>k. r = Ret () \<Longrightarrow>
           dd_get k (fc_submitted t) = (if due \<noteq> [] \<and> k = snd (last due) then [] else dd_get k (fc_submitted s)) \<and>
           dd_get k (fc_finalized t) = (if due \<noteq> [] \<and> k = snd (last due) then [] else dd_get k (fc_finalized s))"
proof (cases "due = []")
  case True
  with assms(2) have "t = tasks_state [] w s" by (simp add: returnM_apply)
  with True show thesis by (intro that[of "[]"]) simp_all
next
  case False
  let ?run = "thenM (run_tasks cfg env (due_tasks env due s)) (modifyM (drop_entries (snd (last due))))"
  from assms(2) False have run: "?run (tasks_state due w s) = (r, t)" by simp
  let ?P = "\<lambda>ev. \<forall>tx. ev = TxSubmit tx \<longrightarrow> (\<exists>p e. (p, e) \<in> set (due_tasks env due s) \<and> tx_args tx = [p, e])"
  have "keepsM (grows ?P) ?run"
    by (intro growing run_tasks_args[OF assms(1)]) (simp add: drop_entries_def)
  from growsE[OF this run] obtain evs where "trace t = trace (tasks_state due w s) @ evs" "list_all ?P evs" .
  then have evs: "trace t = trace s @ evs"
    "tx \<in> set (submitted evs) \<Longrightarrow> \<exists>p e. (p, e) \<in> set (due_tasks env due s) \<and> tx_args tx = [p, e]" for tx
    by (auto simp: list_all_iff in_submitted)
  obtain x u where u: "run_tasks cfg env (due_tasks env due s) (tasks_state due w s) = (x, u)"
    by (cases "run_tasks cfg env (due_tasks env due s) (tasks_state due w s)")
  have "keepsM (keeps_eq (\<lambda>s :: ('w, 'l) force_consensus. (fc_pending_epochs s, fc_submitted s, fc_finalized s)))
      (run_tasks cfg env (due_tasks env due s))"
    by (rule books.blind_run_tasks[OF assms(1)]) simp
  note books = keeps_eqD[OF this u]
  have "t = (if \<exists>rs. x = Ret rs then drop_entries (snd (last due)) u else u)" "r = Ret () \<longrightarrow> (\<exists>rs. x = Ret rs)"
    using run u by (auto simp: thenM_def bindM_def modifyM_def split: res.splits)
  with books False show thesis
    by (intro that[OF evs]) (auto simp: drop_entries_def dd_get_drop)
qed

text \<open>
  C7: whatever the chain answers, a transaction of this step is for an epoch that was pending and
  whose release time, the submission window in block times and 30 seconds are over at the last
  reading of the clock, and for a project that was submitted and not finalized for that epoch.
  When the step has read the clock for all, the epochs that were due at the first reading are
  pending no more, and those that are not due at the last are kept.
\<close>

theorem force_complete_only_due:
  assumes "tenacity (retry_make env)" and "clock_between env lo hi"
    and "\<And>ps. set (iter_epochs env ps) = set ps" and "\<And>ps. set (iter_projects env ps) = set ps"
    and "force_complete_consensus cfg env s = (r, t)"
  shows "(\<exists>evs. trace t = trace s @ evs \<and>
      (\<forall>tx \<in> set (submitted evs). \<exists>release_time e p. tx_args tx = [p, e] \<and>
         (release_time, e) \<in> set (fc_pending_epochs s) \<and>
         epoch_due cfg (fc_submission_window s) release_time hi \<and>
         p \<in> set (dd_get e (fc_submitted s)) \<and> p \<notin> set (dd_get e (fc_finalized s)))) \<and>
    (r = Ret () \<longrightarrow>
       set (fc_pending_epochs t) \<subseteq> {q \<in> set (fc_pending_epochs s). \<not> epoch_due cfg (fc_submission_window s) (fst q) lo} \<and>
       {q \<in> set (fc_pending_epochs s). \<not> epoch_due cfg (fc_submission_window s) (fst q) hi} \<subseteq> set (fc_pending_epochs t))"
  using assms(5)
proof (cases rule: force_complete_cases)
  case (clock w)
  then show ?thesis by simp
next
  case (collected due w)
  note between = collect_due_between[OF collected(1) assms(2)]
  have due: "set due \<subseteq> {q \<in> set (fc_pending_epochs s). epoch_due cfg (fc_submission_window s) (fst q) hi}"
      "{q \<in> set (fc_pending_epochs s). epoch_due cfg (fc_submission_window s) (fst q) lo} \<subseteq> set due"
    using between unfolding assms(3) by blast+
  from due_run[OF assms(1) collected(2)] obtain evs where
    evs: "trace t = trace s @ evs"
      "\<And>tx. tx \<in> set (submitted evs) \<Longrightarrow> \<exists>p e. (p, e) \<in> set (due_tasks env due s) \<and> tx_args tx = [p, e]"
    and pending: "fc_pending_epochs t = filter (\<lambda>p. p \<notin> set due) (fc_pending_epochs s)" by metis
  have task: "\<exists>release_time. (release_time, e) \<in> set (fc_pending_epochs s) \<and>
       epoch_due cfg (fc_submission_window s) release_time hi \<and>
       p \<in> set (dd_get e (fc_submitted s)) \<and> p \<notin> set (dd_get e (fc_finalized s))"
    if "(p, e) \<in> set (due_tasks env due s)" for p e
    using that due(1) by (fastforce simp: due_tasks_def assms(3,4) open_projects_def)
  from pending due have "set (fc_pending_epochs t) \<subseteq> {q \<in> set (fc_pending_epochs s). \<not> epoch_due cfg (fc_submission_window s) (fst q) lo} \<and>
     {q \<in> set (fc_pending_epochs s). \<not> epoch_due cfg (fc_submission_window s) (fst q) hi} \<subseteq> set (fc_pending_epochs t)"
    by (auto simp: assms(3))
  moreover have "\<exists>release_time e p. tx_args tx = [p, e] \<and>
       (release_time, e) \<in> set (fc_pending_epochs s) \<and>
       epoch_due cfg (fc_submission_window s) release_time hi \<and>
       p \<in> set (dd_get e (fc_submitted s)) \<and> p \<notin> set (dd_get e (fc_finalized s))"
    if "tx \<in> set (submitted evs)" for tx
    using evs(2)[OF that] task by blast
  ultimately show ?thesis using evs(1) by blast
qed

section \<open>What is kept of the epochs\<close>

lemma force_complete_records:
  assumes "tenacity (retry_make env)" and "force_complete_consensus cfg env s = (Ret (), t)"
  obtains due u where
    "collect_due cfg env (fc_submission_window s) (iter_epochs env (fc_pending_epochs s)) s = (Ret due, u)"
    and "fc_pending_epochs t = filter (\<lambda>p. p \<notin> set due) (fc_pending_epochs s)"
    and "\<forall>e. dd_get e (fc_submitted t) = (if due \<noteq> [] \<and> e = snd (last due) then [] else dd_get e (fc_submitted s)) \<and>
       dd_get e (fc_finalized t) = (if due \<noteq> [] \<and> e = snd (last due) then [] else dd_get e (fc_finalized s))"
  using assms(2)
proof (cases rule: force_complete_cases)
  case (collected due w)
  from assms(1) collected(2) show thesis
    by (rule due_run) (rule that[OF collected(1)]; simp)
qed simp

text \<open>
  C31: when the step ends, the epochs that were found due are pending no more, and of the records
  of submitted and finalized projects only those of the last one gone through are empty. All other
  epochs keep theirs, those that were completed in the same step included, and since they are not
  pending any more no later step comes back to them unless they are announced again.
\<close>

theorem only_last_epoch_dropped:
  assumes "tenacity (retry_make env)" and "force_complete_consensus cfg env s = (Ret (), t)"
  shows "\<exists>due u.
     collect_due cfg env (fc_submission_window s) (iter_epochs env (fc_pending_epochs s)) s = (Ret due, u) \<and>
     fc_pending_epochs t = filter (\<lambda>p. p \<notin> set due) (fc_pending_epochs s) \<and>
     (\<forall>e. dd_get e (fc_submitted t) = (if due \<noteq> [] \<and> e = snd (last due) then [] else dd_get e (fc_submitted s)) \<and>
          dd_get e (fc_finalized t) = (if due \<noteq> [] \<and> e = snd (last due) then [] else dd_get e (fc_finalized s)))"
  by (rule force_complete_records[OF assms], intro exI conjI; assumption)

section \<open>A step on a healthy chain\<close>

text \<open>A lock that nobody holds can be taken.\<close>

definition lock_available :: "'l rwlock \<Rightarrow> ('l \<Rightarrow> nat \<Rightarrow> nat) \<Rightarrow> bool" where
  "lock_available lk depth \<longleftrightarrow>
     (\<forall>t l. (\<forall>u. depth l u = 0) \<longrightarrow> (\<exists>l'. lk_acquire lk t l = Some (Inr l')))"

text \<open>The locks are free.\<close>

definition unlocked :: "('l \<Rightarrow> nat \<Rightarrow> nat) \<Rightarrow> ('w, 'l, 'z) tx_locks_scheme \<Rightarrow> bool" where
  "unlocked depth s \<longleftrightarrow> 0 < tl_semaphore s \<and> (\<exists>l. tl_rwlock s = Some l \<and> (\<forall>u. depth l u = 0))"

lemma unlocked_enters:
  assumes "lock_available lk depth" and "unlocked depth s"
  obtains u where "entered lk task s u"
proof -
  from assms(2) obtain l where "0 < tl_semaphore s" "tl_rwlock s = Some l" "\<forall>u. depth l u = 0"
    by (auto simp: unlocked_def)
  moreover from assms(1) this(3) obtain l' where "lk_acquire lk task l = Some (Inr l')"
    unfolding lock_available_def by blast
  ultimately show thesis using that unfolding entered_def by blast
qed

lemma same_locks_make_body: "keepsM same_locks (make_transaction_body cfg env project epochId)"
proof -
  have "keepsM same_locks (write_transaction cfg env a k fn n g args)" for a k fn n g args
    by (rule same_locks_logs[OF logs_write_transaction])
  then show ?thesis
    unfolding make_transaction_body_def
    by (intro same_locks.keeps_rules same_locks_modify) simp_all
qed

lemma make_accepted:
  assumes "accepts env" and "tenacity (retry_make env)" and "writer_lock (fc_lock env) depth"
    and "lock_available (fc_lock env) depth" and "unlocked depth s"
  shows "\<exists>h t evs tx. make_transaction cfg env task p e s = (Ret h, t) \<and> trace t = trace s @ evs \<and>
     submitted evs = [tx] \<and> tx_args tx = [p, e] \<and> tx_nonce tx = fc_nonce s \<and>
     fc_nonce t = fc_nonce s + 1 \<and> unlocked depth t"
proof -
  obtain u where u: "entered (fc_lock env) task s u"
    by (rule unlocked_enters[OF assms(4,5)])
  obtain h v where v: "write_transaction cfg env (force_consensus_address cfg) (force_consensus_private_key cfg)
      ''forceCompleteConsensusSnapshot'' (fc_nonce u) (fc_gas u) [p, e] u = (Ret h, v)"
    using write_transaction_accepted[OF assms(1)] by blast
  from wt.write_success[OF v] obtain w evs tx where
    s1: "v = u\<lparr>ext := w, trace := trace u @ evs\<rparr>" and tx: "submitted evs = [tx]"
    "carries cfg env (force_consensus_address cfg) ''forceCompleteConsensusSnapshot'' (fc_nonce u) (fc_gas u) [p, e] tx"
    by metis
  let ?v = "v\<lparr>fc_nonce := fc_nonce v + 1\<rparr>"
  have body: "make_transaction_body cfg env p e u = (Ret h, ?v)"
    by (simp add: make_transaction_body_def M_defs v)
  obtain r t where run: "bindM (make_transaction_body cfg env p e) (leave (fc_lock env) task) u = (r, t)"
    by fastforce
  from assms(3) same_locks_make_body u run show ?thesis
  proof (cases rule: inside_E)
    case (returned a v' l l')
    with body have a: "a = h" "v' = ?v" by simp_all
    have "semaphore_then_aiorwlock_aqcuire_release (fc_lock env) task (make_transaction_body cfg env p e) s = (Ret h, t)"
      using enter_run[OF u, of "make_transaction_body cfg env p e"] run returned(1) a by simp
    from tenacity_Ret[OF assms(2), where f = "\<lambda>_. semaphore_then_aiorwlock_aqcuire_release (fc_lock env) task
        (make_transaction_body cfg env p e)" and k = "()", OF this]
    have "make_transaction cfg env task p e s = (Ret h, t)" unfolding make_transaction_def .
    moreover have "trace t = trace s @ [SemaphoreAcquire, WriterLockAcquire] @ evs @ [SemaphoreRelease, WriterLockRelease]"
      "fc_nonce t = fc_nonce s + 1"
      using u returned(7) by (auto simp: a s1 entered_def)
    moreover have "fc_nonce u = fc_nonce s" using u by (auto simp: entered_def)
    moreover from assms(5) returned(3-6) have "unlocked depth t" by (auto simp: unlocked_def)
    ultimately show ?thesis using tx by (auto simp: carries_def)
  qed (use body in \<open>auto simp: bindM_def split: prod.splits res.splits\<close>)
qed


text \<open>One task, then all of them.\<close>

lemma call_healthy:
  assumes "healthy env" and "tenacity (retry_make env)" and "writer_lock (fc_lock env) depth"
    and "lock_available (fc_lock env) depth" and "\<And>w. \<exists>k w'. random_choice env 100 w = (Inr k, w')"
    and "unlocked depth s"
  shows "\<exists>t evs tx. call_force_complete_consensus cfg env task p e s = (Ret (), t) \<and> trace t = trace s @ evs \<and>
     submitted evs = [tx] \<and> tx_args tx = [p, e] \<and> tx_nonce tx = fc_nonce s \<and>
     fc_nonce t = fc_nonce s + 1 \<and> unlocked depth t"
proof -
  from assms(5) obtain k w where rand: "random_choice env 100 (ext s) = (Inr k, w)" by blast
  let ?s = "s\<lparr>ext := w\<rparr>"
  have "unlocked depth ?s" using assms(6) by (simp add: unlocked_def)
  from assms(1) have "accepts env" unfolding healthy_def by blast
  from make_accepted[OF this assms(2-4) \<open>unlocked depth ?s\<close>, of cfg task p e] obtain h u evs tx where
    make: "make_transaction cfg env task p e ?s = (Ret h, u)"
    and u: "trace u = trace s @ evs" "submitted evs = [tx]" "tx_args tx = [p, e]" "tx_nonce tx = fc_nonce s"
      "fc_nonce u = fc_nonce s + 1" "unlocked depth u" by auto
  from assms(1) obtain rc w' where rc: "wait_for_transaction_receipt env h (ext u) = (Inr rc, w')"
    "json_item ''status'' rc = Inr (JInt 1)" unfolding healthy_def by blast
  then have "receipt_failed rc = Inr False"
    by (cases rc) (auto simp: receipt_failed_def split: option.splits)
  then have "call_force_body cfg env task p e s =
      (Ret (), if k = 1 then u\<lparr>ext := w', trace := trace u @ [AwaitReceipt h]\<rparr> else u)"
    by (simp add: call_force_body_def M_defs rand make rc)
  then have "call_force_complete_consensus cfg env task p e s =
      (Ret (), if k = 1 then u\<lparr>ext := w', trace := trace u @ [AwaitReceipt h]\<rparr> else u)"
    by (simp add: call_force_complete_consensus_def tryM_Ret)
  with u show ?thesis by (cases "k = 1") (auto simp: unlocked_def)
qed

lemma gather_healthy:
  assumes "healthy env" and "tenacity (retry_make env)" and "writer_lock (fc_lock env) depth"
    and "lock_available (fc_lock env) depth" and "\<And>w. \<exists>k w'. random_choice env 100 w = (Inr k, w')"
    and "unlocked depth s" and "length ns = length txs"
  shows "\<exists>rs t evs. gather_results
        (map (\<lambda>(task, p, e). call_force_complete_consensus cfg env task p e) (zip ns txs)) s = (Ret rs, t) \<and>
     trace t = trace s @ evs \<and> map tx_args (submitted evs) = map (\<lambda>(p, e). [p, e]) txs \<and>
     map tx_nonce (submitted evs) = [fc_nonce s..fc_nonce s + int (length txs) - 1] \<and>
     fc_nonce t = fc_nonce s + int (length txs) \<and> unlocked depth t"
  using assms(7,6)
proof (induction ns txs arbitrary: s rule: list_induct2)
  case Nil
  then show ?case by (simp add: returnM_apply)
next
  case (Cons n ns tx txs)
  obtain p e where pe: "tx = (p, e)" by (cases tx)
  from call_healthy[OF assms(1-5) Cons.prems, of cfg n p e] obtain u evs x where
    u: "call_force_complete_consensus cfg env n p e s = (Ret (), u)" "trace u = trace s @ evs"
      "submitted evs = [x]" "tx_args x = [p, e]" "tx_nonce x = fc_nonce s" "fc_nonce u = fc_nonce s + 1"
      "unlocked depth u" by blast
  from Cons.IH[OF u(7)] obtain rs t evs' where
    t: "gather_results (map (\<lambda>(task, p, e). call_force_complete_consensus cfg env task p e) (zip ns txs)) u = (Ret rs, t)"
      "trace t = trace u @ evs'" "map tx_args (submitted evs') = map (\<lambda>(p, e). [p, e]) txs"
      "map tx_nonce (submitted evs') = [fc_nonce u..fc_nonce u + int (length txs) - 1]"
      "fc_nonce t = fc_nonce u + int (length txs)" "unlocked depth t" by blast
  have "[fc_nonce s..fc_nonce s + int (length (tx # txs)) - 1] =
      fc_nonce s # [fc_nonce s + 1..fc_nonce s + 1 + int (length txs) - 1]"
    by (subst upto_rec1) simp_all
  with u t show ?case
    by (intro exI[of _ "Inr () # rs"] exI[of _ t] exI[of _ "evs @ evs'"])
       (simp add: pe bindM_def returnM_apply algebra_simps)
qed

text \<open>The clock stands at \<open>now\<close> as long as the world is as \<open>P\<close> says, and reading it keeps it so.\<close>

definition clock_at :: "('w, 'l) fc_env \<Rightarrow> real \<Rightarrow> ('w \<Rightarrow> bool) \<Rightarrow> bool" where
  "clock_at env now P \<longleftrightarrow> (\<forall>w. P w \<longrightarrow> (\<exists>w'. time_time env w = (Inr now, w') \<and> P w'))"

lemma clock_at_UNIV: "(\<And>w. \<exists>w'. time_time env w = (Inr now, w')) \<Longrightarrow> clock_at env now (\<lambda>w. True)"
  by (simp add: clock_at_def)

lemma collect_due_frozen:
  assumes "clock_at env now P" and "P (ext s)"
  shows "\<exists>t. collect_due cfg env window ps s = (Ret (filter (\<lambda>q. epoch_due cfg window (fst q) now) ps), t)"
  using assms(2)
proof (induction ps arbitrary: s)
  case Nil
  show ?case by (simp add: returnM_apply)
next
  case (Cons p ps)
  from assms(1) Cons.prems obtain w' where w': "time_time env (ext s) = (Inr now, w')" "P w'"
    unfolding clock_at_def by blast
  moreover from Cons.IH[of "s\<lparr>ext := w'\<rparr>"] w'(2) obtain t where
    "collect_due cfg env window ps (s\<lparr>ext := w'\<rparr>) = (Ret (filter (\<lambda>q. epoch_due cfg window (fst q) now) ps), t)" by auto
  ultimately show ?case by (simp add: nowM_def M_defs)
qed

lemma force_complete_returns:
  assumes "healthy env" and "tenacity (retry_make env)" and "writer_lock (fc_lock env) depth"
    and "lock_available (fc_lock env) depth" and "\<And>w. \<exists>k w'. random_choice env 100 w = (Inr k, w')"
    and "clock_at env now P" and "unlocked depth s" and "P (ext s)"
  shows "\<exists>t evs. force_complete_consensus cfg env s = (Ret (), t) \<and> trace t = trace s @ evs \<and>
     map tx_args (submitted evs) =
       concat (map (\<lambda>(release_time, e). map (\<lambda>p. [p, e]) (iter_projects env (open_projects s e)))
         (filter (\<lambda>q. epoch_due cfg (fc_submission_window s) (fst q) now) (iter_epochs env (fc_pending_epochs s)))) \<and>
     map tx_nonce (submitted evs) = [fc_nonce s..fc_nonce t - 1] \<and> unlocked depth t"
proof -
  obtain v where col: "collect_due cfg env (fc_submission_window s) (iter_epochs env (fc_pending_epochs s)) s =
      (Ret (filter (\<lambda>q. epoch_due cfg (fc_submission_window s) (fst q) now) (iter_epochs env (fc_pending_epochs s))), v)"
    using collect_due_frozen[where s = s and P = P, OF assms(6,8), of cfg "fc_submission_window s" "iter_epochs env (fc_pending_epochs s)"]
    by blast
  obtain r t where run: "force_complete_consensus cfg env s = (r, t)" by fastforce
  then show ?thesis
  proof (cases rule: force_complete_cases)
    case (clock w)
    with col show ?thesis by blast
  next
    case (collected due w)
    with col have due: "due = filter (\<lambda>q. epoch_due cfg (fc_submission_window s) (fst q) now)
        (iter_epochs env (fc_pending_epochs s))" by simp
    let ?s = "tasks_state due w s" and ?txs = "due_tasks env due s"
    have args: "map (\<lambda>(p, e). [p, e]) ?txs =
        concat (map (\<lambda>(release_time, e). map (\<lambda>p. [p, e]) (iter_projects env (open_projects s e))) due)"
      by (simp add: due_tasks_def map_concat comp_def case_prod_unfold)
    have free: "unlocked depth ?s" using assms(7) by (simp add: unlocked_def)
    show ?thesis
    proof (cases "due = []")
      case True
      with collected(2) have "t = ?s" "r = Ret ()" by (simp_all add: returnM_apply)
      with run free True show ?thesis unfolding due[symmetric] by (intro exI[of _ t] exI[of _ "[]"]) simp
    next
      case False
      let ?n = "fc_tasks ?s"
      have "unlocked depth (?s\<lparr>fc_tasks := ?n + length ?txs\<rparr>)" using free by (simp add: unlocked_def)
      from gather_healthy[OF assms(1-5) this, of "[?n..<?n + length ?txs]" ?txs cfg]
      obtain rs u evs where u: "run_tasks cfg env ?txs ?s = (Ret rs, u)" "trace u = trace s @ evs"
        "map tx_args (submitted evs) = map (\<lambda>(p, e). [p, e]) ?txs"
        "map tx_nonce (submitted evs) = [fc_nonce s..fc_nonce u - 1]" "unlocked depth u"
        by (auto simp: run_tasks_def M_step)
      from collected(2) False have "r = Ret ()" "t = drop_entries (snd (last due)) u"
        by (simp_all add: thenM_Ret[where m = "run_tasks cfg env ?txs", OF u(1)] modifyM_apply)
      with run due u args show ?thesis
        unfolding due[symmetric]
        by (intro exI[of _ t] exI[of _ evs]) (simp add: drop_entries_def unlocked_def)
    qed
  qed
qed

text \<open>
  C6: with a clock, a chain that takes and mines every transaction, and free locks, the step
  ends: every project that is open in an epoch that is due gets one transaction, in the order of
  iteration, with consecutive nonces from the service's own, and the locks are free again.
\<close>

theorem force_complete_healthy:
  assumes "healthy env" and "tenacity (retry_make env)" and "writer_lock (fc_lock env) depth"
    and "lock_available (fc_lock env) depth" and "\<And>w. \<exists>k w'. random_choice env 100 w = (Inr k, w')"
    and "\<And>w. \<exists>w'. time_time env w = (Inr now, w')" and "unlocked depth s"
  shows "\<exists>t evs. force_complete_consensus cfg env s = (Ret (), t) \<and> trace t = trace s @ evs \<and>
     map tx_args (submitted evs) =
       concat (map (\<lambda>(release_time, e). map (\<lambda>p. [p, e]) (iter_projects env (open_projects s e)))
         (filter (\<lambda>q. epoch_due cfg (fc_submission_window s) (fst q) now) (iter_epochs env (fc_pending_epochs s)))) \<and>
     map tx_nonce (submitted evs) = [fc_nonce s..fc_nonce t - 1] \<and> unlocked depth t"
  using assms(1-5) clock_at_UNIV[OF assms(6)] assms(7) by (rule force_complete_returns) simp

section \<open>A transaction that failed on chain\<close>

text \<open>The reports and the blocking pauses of a log.\<close>

fun attention :: "event \<Rightarrow> bool" where
  "attention (Notify u m) = True"
| "attention (BlockingSleep n) = True"
| "attention ev = False"

definition resets_work :: "('w, 'e) env_scheme \<Rightarrow> bool" where
  "resets_work env \<longleftrightarrow>
     (\<forall>n w. \<exists>w'. time_sleep env n w = (Inr (), w')) \<and>
     (\<forall>a w. \<exists>n w'. get_transaction_count env a w = (Inr n, w'))"

text \<open>After a pause of 30 seconds the chain tells the nonce \<open>n\<close> of the service's account.\<close>

definition nonce_read :: "settings \<Rightarrow> ('w, 'l) fc_env \<Rightarrow> 'w \<Rightarrow> int \<Rightarrow> 'w \<Rightarrow> bool" where
  "nonce_read cfg env w n w' \<longleftrightarrow>
     (\<exists>w1. time_sleep env 30 w = (Inr (), w1) \<and>
        get_transaction_count env (force_consensus_address cfg) w1 = (Inr n, w'))"

lemma reset_body_run:
  assumes "resets_work env"
  shows "\<exists>w n. nonce_read cfg env (ext s) n w \<and> fc_reset_nonce_body cfg env s =
     (Ret (), s\<lparr>ext := w, trace := trace s @ [BlockingSleep 30], fc_nonce := n\<rparr>)"
proof -
  from assms obtain w where 1: "time_sleep env 30 (ext s) = (Inr (), w)" unfolding resets_work_def by blast
  from assms obtain n w' where 2: "get_transaction_count env (force_consensus_address cfg) w = (Inr n, w')"
    unfolding resets_work_def by blast
  show ?thesis
    by (intro exI[of _ w'] exI[of _ n]) (simp add: nonce_read_def fc_reset_nonce_body_def timeSleepM_def M_defs 1 2)
qed

lemma same_locks_reset_body: "keepsM same_locks (fc_reset_nonce_body cfg env)"
  unfolding fc_reset_nonce_body_def
  by (intro same_locks.keeps_rules same_locks_modify same_locks.keeps_ext same_locks_logs[OF logs_timeSleepM]) simp_all

lemma reset_run:
  assumes "resets_work env" and "writer_lock (fc_lock env) depth" and "lock_available (fc_lock env) depth"
    and "unlocked depth s"
  shows "\<exists>t evs. fc_reset_nonce cfg env task s = (Ret (), t) \<and> trace t = trace s @ evs \<and>
     filter attention evs = [BlockingSleep 30] \<and> unlocked depth t \<and> fc_client t = fc_client s \<and>
     nonce_read cfg env (ext s) (fc_nonce t) (ext t)"
proof -
  obtain u where u: "entered (fc_lock env) task s u"
    by (rule unlocked_enters[OF assms(3,4)])
  from reset_body_run[OF assms(1)] obtain w n where nonce: "nonce_read cfg env (ext u) n w" and body: "fc_reset_nonce_body cfg env u =
     (Ret (), u\<lparr>ext := w, trace := trace u @ [BlockingSleep 30], fc_nonce := n\<rparr>)" by blast
  obtain r t where run: "bindM (fc_reset_nonce_body cfg env) (leave (fc_lock env) task) u = (r, t)"
    by fastforce
  from assms(2) same_locks_reset_body u run show ?thesis
  proof (cases rule: inside_E)
    case (returned a v l l')
    have "fc_reset_nonce cfg env task s = (Ret (), t)"
      using enter_run[OF u, of "fc_reset_nonce_body cfg env"] run returned(1)
      by (simp add: fc_reset_nonce_def)
    moreover from body returned(2) have "v = u\<lparr>ext := w, trace := trace u @ [BlockingSleep 30], fc_nonce := n\<rparr>"
      by simp
    ultimately show ?thesis
      using u returned(3-7) assms(4) nonce by (auto simp: entered_def unlocked_def)
  qed (use body in simp_all)
qed

lemma report_run:
  assumes "resets_work env" and "writer_lock (fc_lock env) depth" and "lock_available (fc_lock env) depth"
    and "unlocked depth s" and "fc_client s" and "fc_issue cfg env p e extra = Inr iss"
  shows "\<exists>t evs. fc_report cfg env task p e extra s = (Ret (), t) \<and> trace t = trace s @ evs \<and>
     filter attention evs = map (\<lambda>u. Notify u iss) (report_urls cfg) @ [BlockingSleep 30] \<and>
     unlocked depth t \<and> fc_client t \<and> nonce_read cfg env (ext s) (fc_nonce t) (ext t)"
proof -
  let ?s = "s\<lparr>trace := trace s @ map (\<lambda>u. Notify u iss) (report_urls cfg)\<rparr>"
  have "unlocked depth ?s" using assms(4) by (simp add: unlocked_def)
  from reset_run[OF assms(1-3) this, of cfg task] obtain t evs where
    "fc_reset_nonce cfg env task ?s = (Ret (), t)" "trace t = trace ?s @ evs"
    "filter attention evs = [BlockingSleep 30]" "unlocked depth t" "fc_client t = fc_client s"
    "nonce_read cfg env (ext s) (fc_nonce t) (ext t)" by auto
  moreover have "filter attention (map (\<lambda>u. Notify u iss) us) = map (\<lambda>u. Notify u iss) us" for us
    by (induction us) simp_all
  ultimately show ?thesis
    using assms(5,6)
    by (intro exI[of _ t] exI[of _ "map (\<lambda>u. Notify u iss) (report_urls cfg) @ evs"])
       (simp add: fc_report_def M_step M_defs send_failure_notifications_client)
qed

text \<open>
  C32: when a receipt that is checked shows a failed transaction, the failure is reported and the
  nonce is read anew from the chain after a blocking pause of 30 seconds, twice: once for the
  receipt, and once more by the handler of the exception that this raises, and the service goes on
  with the nonce that was read last. Where \<^verbatim>\<open>json.dumps\<close> does not take the receipt object, only the
  handler's report is made, and it has the serialisation error in place of the receipt. Either way
  the failure stays inside the task, which ends normally.
\<close>

theorem failed_receipt_reported_twice:
  assumes "resets_work env" and "writer_lock (fc_lock env) depth" and "lock_available (fc_lock env) depth"
    and "random_choice env 100 (ext s) = (Inr 1, w)"
    and "make_transaction cfg env task p e (s\<lparr>ext := w\<rparr>) = (Ret h, u)" and "unlocked depth u" and "fc_client u"
    and "wait_for_transaction_receipt env h (ext u) = (Inr receipt, w')" and "receipt_failed receipt = Inr True"
    and "\<And>extra. fc_issue cfg env p e extra = Inr (issue extra)"
    and "\<And>ex. receipt_dumps env receipt = Inl ex \<Longrightarrow> is_Exception ex"
  shows "\<exists>t evs. call_force_complete_consensus cfg env task p e s = (Ret (), t) \<and> trace t = trace u @ evs \<and>
     filter attention evs =
       (case receipt_dumps env receipt of
          Inr dumped \<Rightarrow>
            map (\<lambda>u. Notify u (issue dumped)) (report_urls cfg) @ [BlockingSleep 30] @
            map (\<lambda>u. Notify u (issue ''Transaction failed!'')) (report_urls cfg) @ [BlockingSleep 30]
        | Inl ex \<Rightarrow>
            map (\<lambda>u. Notify u (issue (exn_str ex))) (report_urls cfg) @ [BlockingSleep 30]) \<and>
     (case receipt_dumps env receipt of
          Inr dumped \<Rightarrow>
            \<exists>n w1. nonce_read cfg env w' n w1 \<and> nonce_read cfg env w1 (fc_nonce t) (ext t)
        | Inl ex \<Rightarrow> nonce_read cfg env w' (fc_nonce t) (ext t))"
proof -
  let ?u = "u\<lparr>ext := w', trace := trace u @ [AwaitReceipt h]\<rparr>"
  have body: "call_force_body cfg env task p e s =
      bindM (liftM (receipt_dumps env receipt)) (\<lambda>extra.
         thenM (fc_report cfg env task p e extra) (raiseM (Exn PyException ''Transaction failed!''))) ?u"
    by (simp add: call_force_body_def M_defs assms(4,5,8,9))
  have u: "unlocked depth ?u" "fc_client ?u" using assms(6,7) by (simp_all add: unlocked_def)
  show ?thesis
  proof (cases "receipt_dumps env receipt")
    case (Inl ex)
    with body have "call_force_body cfg env task p e s = (Raise ex, ?u)" by (simp add: M_defs)
    moreover from report_run[where extra = "exn_str ex" and task = task, OF assms(1-3) u assms(10)] obtain t evs where
      "fc_report cfg env task p e (exn_str ex) ?u = (Ret (), t)" "trace t = trace ?u @ evs"
      "filter attention evs = map (\<lambda>u. Notify u (issue (exn_str ex))) (report_urls cfg) @ [BlockingSleep 30]"
      "nonce_read cfg env w' (fc_nonce t) (ext t)" by auto
    ultimately show ?thesis
      using Inl assms(11)
      by (intro exI[of _ t] exI[of _ "AwaitReceipt h # evs"])
         (simp add: call_force_complete_consensus_def tryM_Raise)
  next
    case (Inr dumped)
    from report_run[where extra = dumped and task = task, OF assms(1-3) u assms(10)] obtain v evs1 where v:
      "fc_report cfg env task p e dumped ?u = (Ret (), v)" "trace v = trace ?u @ evs1"
      "filter attention evs1 = map (\<lambda>u. Notify u (issue dumped)) (report_urls cfg) @ [BlockingSleep 30]"
      "unlocked depth v" "fc_client v" "nonce_read cfg env w' (fc_nonce v) (ext v)" by auto
    with body Inr have "call_force_body cfg env task p e s = (Raise (Exn PyException ''Transaction failed!''), v)"
      by (simp add: M_step) (simp add: M_defs)
    moreover from report_run[where extra = "''Transaction failed!''" and task = task, OF assms(1-3) v(4,5) assms(10)] obtain t evs2 where
      "fc_report cfg env task p e ''Transaction failed!'' v = (Ret (), t)" "trace t = trace v @ evs2"
      "filter attention evs2 = map (\<lambda>u. Notify u (issue ''Transaction failed!'')) (report_urls cfg) @ [BlockingSleep 30]"
      "nonce_read cfg env (ext v) (fc_nonce t) (ext t)" by blast
    ultimately show ?thesis
      using Inr v(1-5) exI[of "\<lambda>n. \<exists>w1. nonce_read cfg env w' n w1 \<and> nonce_read cfg env w1 (fc_nonce t) (ext t)" "fc_nonce v"] v(6)
      by (intro exI[of _ t] exI[of _ "AwaitReceipt h # evs1 @ evs2"])
         (auto simp: call_force_complete_consensus_def tryM_Raise)
  qed
qed

section \<open>The properties at an example\<close>

lemmas fc_env_simps = fc_env_of_def example_fc_env_def fc_env.defs pool_env_simps

lemma example_fc_env_simps [simp]:
  "fc_lock (fc_env_of renv) = counting_lock" "iter_epochs (fc_env_of renv) ps = ps"
  "iter_projects (fc_env_of renv) xs = xs" "random_choice (fc_env_of renv) n w = (Inr 50, w)"
  "receipt_dumps (fc_env_of renv) rc = Inl (Exn TypeError ''not serializable'')"
  "time_time (fc_env_of (pool_env open_limiter)) w = (Inr 1000, w)"
  by (simp_all add: fc_env_simps)

lemma example_fc_simps [simp]:
  "fc_pending_epochs (example_fc_at w) = [(100, JInt 7), (990, JInt 8)]"
  "fc_submission_window (example_fc_at w) = 10" "fc_nonce (example_fc_at w) = 5"
  "fc_submitted (example_fc_at w) = [(JInt 7, [JStr ''p'', JStr ''q'']), (JInt 8, [JStr ''p''])]"
  "fc_finalized (example_fc_at w) = [(JInt 7, [JStr ''q''])]" "fc_client (example_fc_at w)"
  "tl_semaphore (example_fc_at w) = 20" "tl_rwlock (example_fc_at w) = Some (0, 0)"
  "ext (example_fc_at w) = w" "trace (example_fc_at w) = []"
  "fc_reader (example_fc_at w) = Some \<lparr>rd_url = ''r'', rd_size = 200\<rparr>"
  by (simp_all add: example_fc_at_def example_pool_at_def rpc_helper_init_def tx_locks.defs rpc_helper.defs force_consensus.defs)

lemma example_window: "anchor_block_time (st_anchor_chain example_settings) = 1"
  by (simp add: example_settings_def)

lemma counting_lock_available: "lock_available counting_lock counting_depth"
  unfolding lock_available_def
proof (intro allI impI)
  fix t :: nat and l :: "nat \<times> nat"
  assume "\<forall>u. counting_depth l u = 0"
  then have "counting_depth l (fst l) = 0" ..
  then show "\<exists>l'. lk_acquire counting_lock t l = Some (Inr l')"
    by (cases l) (simp add: counting_depth_def counting_lock_def)
qed

lemma example_unlocked: "unlocked counting_depth (example_fc_at w)"
  by (simp add: unlocked_def counting_depth_def)

lemma example_healthy: "healthy (fc_env_of (pool_env open_limiter))"
  by (simp add: healthy_def accepts_def fc_env_simps)

theorem saved_marker_survives_restart_witness:
  "\<exists>t u. save_last_processed
      ((fc_env_of (pool_env open_limiter))\<lparr>redis_set := (\<lambda>h k v w. (Inr (), Some v)), redis_get := (\<lambda>h k w. (Inr w, w))\<rparr>)
      130 (example_fc_at None) = (Ret (), t) \<and>
    load_last_processed
      ((fc_env_of (pool_env open_limiter))\<lparr>redis_set := (\<lambda>h k v w. (Inr (), Some v)), redis_get := (\<lambda>h k w. (Inr w, w))\<rparr>)
      999 ((example_fc_at (ext t))\<lparr>fc_last_processed_block := 0\<rparr>) = (Ret (), u) \<and> fc_last_processed_block u = 130"
proof -
  let ?env = "(fc_env_of (pool_env open_limiter))\<lparr>redis_set := (\<lambda>h k v w. (Inr (), Some v)), redis_get := (\<lambda>h k w. (Inr w, w))\<rparr>"
  obtain t where t: "save_last_processed ?env 130 (example_fc_at None) = (Ret (), t)"
    by (simp add: save_last_processed_def the_pool_def M_defs Let_def example_fc_at_def force_consensus.defs tx_locks.defs rpc_helper.defs)
  from saved_marker_survives_restart[OF _ t, of "(example_fc_at (ext t))\<lparr>fc_last_processed_block := 0\<rparr>" "\<lparr>rd_url = ''r'', rd_size = 200\<rparr>" 999]
  show ?thesis by (auto simp: t)
qed

theorem force_complete_only_due_witness:
  "\<exists>evs. trace (snd (force_complete_consensus example_settings example_fc_env example_fc)) = [] @ evs \<and>
     (\<forall>tx \<in> set (submitted evs). tx_args tx = [JStr ''p'', JInt 7])"
proof -
  have "clock_between example_fc_env 1000 1000"
    by (simp add: clock_between_def example_fc_env_def)
  from force_complete_only_due[OF _ this _ _ prod.collapse[symmetric], of example_settings example_fc]
  obtain evs where evs: "trace (snd (force_complete_consensus example_settings example_fc_env example_fc)) = [] @ evs"
    "\<forall>tx \<in> set (submitted evs). \<exists>release_time e p. tx_args tx = [p, e] \<and>
         (release_time, e) \<in> set (fc_pending_epochs example_fc) \<and>
         epoch_due example_settings (fc_submission_window example_fc) release_time 1000 \<and>
         p \<in> set (dd_get e (fc_submitted example_fc)) \<and> p \<notin> set (dd_get e (fc_finalized example_fc))"
    by (auto simp: example_fc_env_def)
  have "tx_args tx = [JStr ''p'', JInt 7]" if "tx \<in> set (submitted evs)" for tx
    using evs(2) that by (auto simp: epoch_due_def example_window dd_get_def)
  with evs(1) show ?thesis by blast
qed

theorem force_complete_healthy_witness:
  "\<exists>t evs. force_complete_consensus example_settings example_fc_env example_fc = (Ret (), t) \<and>
     trace t = [] @ evs \<and> map tx_args (submitted evs) = [[JStr ''p'', JInt 7]] \<and>
     map tx_nonce (submitted evs) = [5]"
proof -
  have "healthy example_fc_env" "tenacity (retry_make example_fc_env)"
    "writer_lock (fc_lock example_fc_env) counting_depth" "lock_available (fc_lock example_fc_env) counting_depth"
    "\<exists>k w'. random_choice example_fc_env 100 w = (Inr k, w')"
    "\<exists>w'. time_time example_fc_env w = (Inr 1000, w')" "unlocked counting_depth example_fc" for w
    by (simp_all add: example_fc_env_def example_healthy counting_lock_writer_lock counting_lock_available
        example_unlocked)
  from force_complete_healthy[OF this, of example_settings] obtain t evs where
    run: "force_complete_consensus example_settings example_fc_env example_fc = (Ret (), t)" "trace t = [] @ evs"
    and args: "map tx_args (submitted evs) = [[JStr ''p'', JInt 7]]"
    and nonces: "map tx_nonce (submitted evs) = [5..fc_nonce t - 1]"
    by (auto simp: example_fc_env_def epoch_due_def example_window open_projects_def dd_get_def)
  have "length (submitted evs) = 1" using arg_cong[OF args, of length] by simp
  with arg_cong[OF nonces, of length] have "fc_nonce t = 6" by simp
  with nonces have "map tx_nonce (submitted evs) = [5]" by simp
  with run args show ?thesis by (intro exI[of _ t] exI[of _ evs] conjI) simp_all
qed


theorem only_last_epoch_dropped_witness:
  "\<exists>t. force_complete_consensus example_settings example_fc_env
       (example_fc\<lparr>fc_pending_epochs := [(100, JInt 7), (101, JInt 8)]\<rparr>) = (Ret (), t) \<and>
     fc_pending_epochs t = [] \<and>
     dd_get (JInt 7) (fc_submitted t) = [JStr ''p'', JStr ''q''] \<and> dd_get (JInt 8) (fc_submitted t) = []"
proof -
  let ?s = "example_fc\<lparr>fc_pending_epochs := [(100, JInt 7), (101, JInt 8)]\<rparr>"
  have clock: "clock_at example_fc_env 1000 (\<lambda>w. True)"
    by (simp add: clock_at_def example_fc_env_def)
  have "healthy example_fc_env" "tenacity (retry_make example_fc_env)"
    "writer_lock (fc_lock example_fc_env) counting_depth" "lock_available (fc_lock example_fc_env) counting_depth"
    "\<exists>k w'. random_choice example_fc_env 100 w = (Inr k, w')"
    "clock_at example_fc_env 1000 (\<lambda>w. True)" "unlocked counting_depth ?s" for w
    by (simp_all add: clock_at_def example_fc_env_def example_healthy counting_lock_writer_lock counting_lock_available
        unlocked_def counting_depth_def)
  from force_complete_returns[OF this TrueI, of example_settings] obtain t where
    run: "force_complete_consensus example_settings example_fc_env ?s = (Ret (), t)" by blast
  have "tenacity (retry_make example_fc_env)" by (simp add: example_fc_env_def)
  from only_last_epoch_dropped[OF this run] obtain due u where
    due: "collect_due example_settings example_fc_env 10 [(100, JInt 7), (101, JInt 8)] ?s = (Ret due, u)"
    and t: "fc_pending_epochs t = filter (\<lambda>p. p \<notin> set due) (fc_pending_epochs ?s)"
      "\<forall>e. dd_get e (fc_submitted t) = (if due \<noteq> [] \<and> e = snd (last due) then [] else dd_get e (fc_submitted ?s))"
    by (auto simp: example_fc_env_def)
  from collect_due_frozen[OF clock TrueI, of example_settings 10 "[(100, JInt 7), (101, JInt 8)]" ?s] due
  have "due = [(100, JInt 7), (101, JInt 8)]" by (auto simp: epoch_due_def example_window)
  with t run show ?thesis by (intro exI[of _ t]) (simp add: dd_get_def)
qed

interpretation client: tx_blind "fc_client :: ('w, 'l) force_consensus \<Rightarrow> bool"
  by unfold_locales simp_all

theorem failed_receipt_reported_twice_witness:
  "\<exists>t. call_force_complete_consensus example_settings
       (example_fc_env\<lparr>random_choice := (\<lambda>n w. (Inr 1, w)),
          wait_for_transaction_receipt := (\<lambda>h w. (Inr (JObj [(''status'', JInt 0)]), w)),
          receipt_dumps := (\<lambda>r. Inr ''receipt'')\<rparr>) 3 (JStr ''p'') (JInt 7) example_fc = (Ret (), t) \<and>
     length (filter (\<lambda>ev. ev = BlockingSleep 30) (trace t)) \<ge> 2 \<and> fc_nonce t = 7"
proof -
  let ?env = "example_fc_env\<lparr>random_choice := (\<lambda>n w. (Inr 1, w)),
          wait_for_transaction_receipt := (\<lambda>h w. (Inr (JObj [(''status'', JInt 0)]), w)),
          receipt_dumps := (\<lambda>r. Inr ''receipt'')\<rparr>"
  have healthy: "accepts ?env" "tenacity (retry_make ?env)" "writer_lock (fc_lock ?env) counting_depth"
    "lock_available (fc_lock ?env) counting_depth" "resets_work ?env"
    by (simp_all add: accepts_def resets_work_def fc_env_simps counting_lock_writer_lock
        counting_lock_available plain_retry_tenacity)
  let ?s = "example_fc\<lparr>ext := ()\<rparr>"
  have "unlocked counting_depth ?s" by (simp add: unlocked_def counting_depth_def)
  from make_accepted[OF healthy(1-4) this, of example_settings 3 "JStr ''p''" "JInt 7"] obtain h u where
    make: "make_transaction example_settings ?env 3 (JStr ''p'') (JInt 7) ?s = (Ret h, u)"
    and u: "unlocked counting_depth u" by blast
  have "keepsM (keeps_eq fc_client) (make_transaction example_settings ?env 3 (JStr ''p'') (JInt 7))"
    by (rule client.blind_make[OF healthy(2)])
  from keeps_eqD[OF this make] have client: "fc_client u" by simp
  define issue where "issue extra = (case fc_issue example_settings ?env (JStr ''p'') (JInt 7) extra of Inr j \<Rightarrow> j | Inl e \<Rightarrow> JNull)" for extra
  have issue: "fc_issue example_settings ?env (JStr ''p'') (JInt 7) extra = Inr (issue extra)" for extra
    by (simp add: issue_def fc_issue_def fc_env_simps)
  from failed_receipt_reported_twice[where env = ?env and w = "()" and w' = "()" and receipt = "JObj [(''status'', JInt 0)]"
      and s = example_fc and issue = issue and depth = counting_depth, OF healthy(5,3,4) _ make u client _ _ issue]
  obtain t evs where t: "call_force_complete_consensus example_settings ?env 3 (JStr ''p'') (JInt 7) example_fc = (Ret (), t)"
    "trace t = trace u @ evs" and evs: "filter attention evs = map (\<lambda>u. Notify u (issue ''receipt'')) (report_urls example_settings) @
      [BlockingSleep 30] @ map (\<lambda>u. Notify u (issue ''Transaction failed!'')) (report_urls example_settings) @ [BlockingSleep 30]"
    and "\<exists>w1. nonce_read example_settings ?env w1 (fc_nonce t) (ext t)"
    by (auto simp: receipt_failed_def)
  then have "fc_nonce t = 7" by (auto simp: nonce_read_def fc_env_simps)
  have "filter (\<lambda>ev. ev = BlockingSleep 30) evs = filter (\<lambda>ev. ev = BlockingSleep 30) (filter attention evs)"
    by (induction evs) auto
  also have "length \<dots> \<ge> 2" unfolding evs by simp
  finally have "length (filter (\<lambda>ev. ev = BlockingSleep 30) evs) \<ge> 2" .
  with t \<open>fc_nonce t = 7\<close> show ?thesis by (intro exI[of _ t]) simp
qed

end
