(* ===== verification/Force_Tasks.thy ===== *)
theory Force_Tasks
  imports Force_Epochs
begin

text \<open>
  The transaction tasks of the force-consensus service running at the same time. A step takes one
  task from one of its suspension points to the next; between them any other code of the service
  may run. The properties are about all interleavings: one task at a time between reading the
  nonce and moving it on, the sequence of nonces, no deadlock while nothing fails, and what one
  failure does to all other tasks.
\<close>

section \<open>Steps\<close>

text \<open>
  Where a task is in \<^verbatim>\<open>_make_transaction\<close> or \<^verbatim>\<open>_reset_nonce\<close>, decorated. A retry by tenacity and
  the next call of the task both start again from \<open>TxIdle\<close>.
\<close>

datatype tx_job = MakeTx json json | ResetNonce

datatype tx_pc =
    TxIdle
  | WantSemaphore tx_job
  | WantLock tx_job
  | Entered tx_job
  | Writing json json int \<comment> \<open>\<^verbatim>\<open>write_transaction\<close> is under way with this nonce\<close>
  | Written \<comment> \<open>it returned, the nonce is still to be moved on\<close>
  | GotNonce int \<comment> \<open>the nonce was read from the chain\<close>

datatype tx_label =
    Silent
  | SentTx nat int
  | NonceReset nat int
  | Failed nat \<comment> \<open>the task left the decorated method with an exception, inside\<close>
  | Cancelled nat \<comment> \<open>it was cancelled while it waited for the lock\<close>

type_synonym ('w, 'l) tasks = "('w, 'l) force_consensus \<times> (nat \<Rightarrow> tx_pc)"

text \<open>What all other code of the service may do meanwhile.\<close>

definition elsewhere :: "('w, 'l) force_consensus \<Rightarrow> ('w, 'l) force_consensus \<Rightarrow> bool" where
  "elsewhere s t \<longleftrightarrow>
     same_locks s t \<and> fc_nonce t = fc_nonce s \<and> submitted (trace t) = submitted (trace s)"

definition read_chain_nonce ::
  "settings \<Rightarrow> ('w, 'l) fc_env \<Rightarrow> (('w, 'l) force_consensus, int) M" where
  "read_chain_nonce cfg env =
     thenM (timeSleepM env 30) (extM (get_transaction_count env (force_consensus_address cfg)))"

abbreviation send_force ::
  "settings \<Rightarrow> ('w, 'l) fc_env \<Rightarrow> int \<Rightarrow> real \<Rightarrow> json list \<Rightarrow> (('w, 'l) force_consensus, string) M" where
  "send_force cfg env \<equiv> write_transaction cfg env (force_consensus_address cfg)
     (force_consensus_private_key cfg) ''forceCompleteConsensusSnapshot''"

inductive tx_step ::
  "settings \<Rightarrow> ('w, 'l) fc_env \<Rightarrow> ('w, 'l) tasks \<Rightarrow> tx_label \<Rightarrow> ('w, 'l) tasks \<Rightarrow> bool"
  for cfg :: settings and env :: "('w, 'l) fc_env" where
  start: "pcs t = TxIdle \<Longrightarrow> tx_step cfg env (s, pcs) Silent (s, pcs(t := WantSemaphore j))"
| permit: "pcs t = WantSemaphore j \<Longrightarrow> acquire_semaphore s = (Ret (), s') \<Longrightarrow>
    tx_step cfg env (s, pcs) Silent (s', pcs(t := WantLock j))"
| lock: "pcs t = WantLock j \<Longrightarrow> acquire_writer (fc_lock env) t s = (Ret (), s') \<Longrightarrow>
    tx_step cfg env (s, pcs) Silent (s', pcs(t := Entered j))"
| lock_error: "pcs t = WantLock j \<Longrightarrow> acquire_writer (fc_lock env) t s = (Raise e, s') \<Longrightarrow>
    is_Exception e \<Longrightarrow> release_semaphore s' = (Ret (), s'') \<Longrightarrow>
    tx_step cfg env (s, pcs) Silent (s'', pcs(t := TxIdle))"
| lock_cancel: "pcs t = WantLock j \<Longrightarrow> acquire_writer (fc_lock env) t s = (Raise e, s') \<Longrightarrow>
    \<not> is_Exception e \<Longrightarrow> tx_step cfg env (s, pcs) (Cancelled t) (s', pcs(t := TxIdle))"
| read_nonce: "pcs t = Entered (MakeTx p e) \<Longrightarrow>
    tx_step cfg env (s, pcs) Silent (s, pcs(t := Writing p e (fc_nonce s)))"
| send: "pcs t = Writing p e n \<Longrightarrow> send_force cfg env n (fc_gas s) [p, e] s = (Ret h, s') \<Longrightarrow>
    tx_step cfg env (s, pcs) (SentTx t n) (s', pcs(t := Written))"
| send_error: "pcs t = Writing p e n \<Longrightarrow> send_force cfg env n (fc_gas s) [p, e] s = (Raise ex, s') \<Longrightarrow>
    tx_step cfg env (s, pcs) (Failed t) (s', pcs(t := TxIdle))"
| sent: "pcs t = Written \<Longrightarrow> leave (fc_lock env) t () (s\<lparr>fc_nonce := fc_nonce s + 1\<rparr>) = (Ret (), s') \<Longrightarrow>
    tx_step cfg env (s, pcs) Silent (s', pcs(t := TxIdle))"
| reset_read: "pcs t = Entered ResetNonce \<Longrightarrow> read_chain_nonce cfg env s = (Ret n, s') \<Longrightarrow>
    tx_step cfg env (s, pcs) Silent (s', pcs(t := GotNonce n))"
| reset_error: "pcs t = Entered ResetNonce \<Longrightarrow> read_chain_nonce cfg env s = (Raise ex, s') \<Longrightarrow>
    tx_step cfg env (s, pcs) (Failed t) (s', pcs(t := TxIdle))"
| reset_done: "pcs t = GotNonce n \<Longrightarrow> leave (fc_lock env) t () (s\<lparr>fc_nonce := n\<rparr>) = (Ret (), s') \<Longrightarrow>
    tx_step cfg env (s, pcs) (NonceReset t n) (s', pcs(t := TxIdle))"
| other: "elsewhere s s' \<Longrightarrow> tx_step cfg env (s, pcs) Silent (s', pcs)"

inductive tx_path ::
  "settings \<Rightarrow> ('w, 'l) fc_env \<Rightarrow> ('w, 'l) tasks \<Rightarrow> tx_label list \<Rightarrow> ('w, 'l) tasks \<Rightarrow> bool"
  for cfg :: settings and env :: "('w, 'l) fc_env" where
  here: "tx_path cfg env c [] c"
| onward: "tx_step cfg env c lab d \<Longrightarrow> tx_path cfg env d labs e \<Longrightarrow> tx_path cfg env c (lab # labs) e"

inductive_cases tx_path_NilE: "tx_path cfg env c [] d"
inductive_cases tx_path_ConsE: "tx_path cfg env c (lab # labs) d"
inductive_simps tx_path_Nil: "tx_path cfg env c [] d"

text \<open>The service after its setup: all permits there, the lock new, no task started.\<close>

definition tasks_start :: "('w, 'l) fc_env \<Rightarrow> ('w, 'l) tasks \<Rightarrow> bool" where
  "tasks_start env c \<longleftrightarrow>
     tl_semaphore (fst c) = 20 \<and> tl_rwlock (fst c) = Some (lk_new (fc_lock env)) \<and> (\<forall>t. snd c t = TxIdle)"

section \<open>The effect of the parts of a step\<close>

lemma acquire_semaphore_Ret:
  "acquire_semaphore s = (Ret (), s') \<Longrightarrow>
     tl_semaphore s = Suc (tl_semaphore s') \<and> tl_rwlock s' = tl_rwlock s"
  by (cases "tl_semaphore s") (auto simp: acquire_semaphore_def M_defs)

lemma acquire_semaphore_nonce: "acquire_semaphore s = (r, s') \<Longrightarrow> fc_nonce s' = fc_nonce s"
  by (cases "tl_semaphore s") (auto simp: acquire_semaphore_def M_defs)

lemma acquire_writer_Ret:
  assumes "acquire_writer lk t s = (Ret (), s')"
  obtains l l' where "tl_rwlock s = Some l" and "lk_acquire lk t l = Some (Inr l')"
    and "s' = s\<lparr>trace := trace s @ [WriterLockAcquire], tl_rwlock := Some l'\<rparr>"
  using assms by (auto simp: acquire_writer_run split: option.splits sum.splits)

lemma acquire_writer_Raise: "acquire_writer lk t s = (Raise e, s') \<Longrightarrow> s' = s"
  by (auto simp: acquire_writer_run split: option.splits sum.splits)

text \<open>An operation that only logs leaves locks and nonce alone.\<close>

definition calm :: "('w, 'l) force_consensus \<Rightarrow> ('w, 'l) force_consensus \<Rightarrow> bool" where
  "calm s t \<longleftrightarrow> same_locks s t \<and> fc_nonce t = fc_nonce s"

lemma calm_logs: "keepsM (logs P) m \<Longrightarrow> m s = (r, t) \<Longrightarrow> calm s t"
  by (drule (1) keepsMD) (auto simp: logs_def calm_def same_locks_def)

lemma calm_send: "send_force cfg env n g args s = (r, t) \<Longrightarrow> calm s t"
  by (rule calm_logs[OF logs_write_transaction])

lemma logs_read: "keepsM (logs (\<lambda>_. True)) (read_chain_nonce cfg env)"
  unfolding read_chain_nonce_def by (intro logging) simp

lemma calm_read: "read_chain_nonce cfg env s = (r, t) \<Longrightarrow> calm s t"
  by (rule calm_logs[OF logs_read])

lemma leave_Ret:
  assumes "writer_lock lk depth" and "tl_rwlock v = Some l" and "0 < depth l t"
    and "leave lk t () v = (r, s')"
  obtains l' where "tl_rwlock s' = Some l'" and "depth l' = (depth l)(t := depth l t - 1)"
    and "tl_semaphore s' = Suc (tl_semaphore v)" and "fc_nonce s' = fc_nonce v"
proof -
  obtain l' where l': "lk_release lk t l = Inr l'" "depth l' = (depth l)(t := depth l t - 1)"
    by (rule writer_lock_release[where lk = lk and depth = depth and l = l and t = t, OF assms(1,3)])
  with leave_held[OF assms(2) l'(1), of "()"] assms(4) that[of l'] show thesis by auto
qed

section \<open>The invariant\<close>

fun inside :: "tx_pc \<Rightarrow> bool" where
  "inside TxIdle = False"
| "inside (WantSemaphore j) = False"
| "inside (WantLock j) = False"
| "inside pc = True"

fun holds_permit :: "tx_pc \<Rightarrow> bool" where
  "holds_permit (WantLock j) = True"
| "holds_permit pc = inside pc"

lemma inside_holds: "inside pc \<Longrightarrow> holds_permit pc"
  by (cases pc) simp_all

definition lock_inv :: "('l \<Rightarrow> nat \<Rightarrow> nat) \<Rightarrow> ('w, 'l) tasks \<Rightarrow> bool" where
  "lock_inv depth c \<longleftrightarrow>
     (\<exists>l. tl_rwlock (fst c) = Some l \<and> (\<forall>t u. 0 < depth l t \<and> 0 < depth l u \<longrightarrow> t = u) \<and>
        (\<forall>t. inside (snd c t) \<longrightarrow> 0 < depth l t))"

definition nonce_inv :: "('w, 'l) tasks \<Rightarrow> bool" where
  "nonce_inv c \<longleftrightarrow> (\<forall>t p e n. snd c t = Writing p e n \<longrightarrow> n = fc_nonce (fst c))"

definition permit_inv :: "('w, 'l) tasks \<Rightarrow> bool" where
  "permit_inv c \<longleftrightarrow>
     finite {t. holds_permit (snd c t)} \<and> card {t. holds_permit (snd c t)} + tl_semaphore (fst c) \<le> 20"

lemma lock_inv_alone:
  assumes "lock_inv depth c" and "inside (snd c t)" and "inside (snd c u)"
  shows "t = u"
  using assms unfolding lock_inv_def by blast

lemma lock_invE:
  assumes "lock_inv depth c"
  obtains l where "tl_rwlock (fst c) = Some l" and "\<And>t u. 0 < depth l t \<Longrightarrow> 0 < depth l u \<Longrightarrow> t = u"
    and "\<And>t. inside (snd c t) \<Longrightarrow> 0 < depth l t"
  using assms unfolding lock_inv_def by blast

lemma lock_invI:
  assumes "tl_rwlock (fst c) = Some l" and "\<And>t u. 0 < depth l t \<Longrightarrow> 0 < depth l u \<Longrightarrow> t = u"
    and "\<And>t. inside (snd c t) \<Longrightarrow> 0 < depth l t"
  shows "lock_inv depth c"
  using assms unfolding lock_inv_def by blast

lemma lock_inv_update:
  assumes "lock_inv depth (s, pcs)" and "tl_rwlock s' = tl_rwlock s" and "inside pc \<longrightarrow> inside (pcs t)"
  shows "lock_inv depth (s', pcs(t := pc))"
proof -
  obtain l where l: "tl_rwlock s = Some l" "\<And>t u. 0 < depth l t \<Longrightarrow> 0 < depth l u \<Longrightarrow> t = u"
    "\<And>t. inside (pcs t) \<Longrightarrow> 0 < depth l t" by (rule lock_invE[OF assms(1)]) simp
  have "0 < depth l u" if "inside ((pcs(t := pc)) u)" for u
    by (rule l(3)) (use that assms(3) in \<open>simp split: if_splits\<close>)
  then have ins: "inside (snd (s', pcs(t := pc)) u) \<Longrightarrow> 0 < depth l u" for u by simp
  have "tl_rwlock (fst (s', pcs(t := pc))) = Some l" using l(1) assms(2) by simp
  from this l(2) ins show ?thesis by (rule lock_invI)
qed

lemma lock_inv_leave:
  assumes "lock_inv depth (s, pcs)" and "inside (pcs t)" and "writer_lock lk depth"
    and "leave lk t () v = (r, s')" and "tl_rwlock v = tl_rwlock s"
  shows "lock_inv depth (s', pcs(t := TxIdle))"
proof -
  obtain l where l: "tl_rwlock s = Some l" "\<And>t u. 0 < depth l t \<Longrightarrow> 0 < depth l u \<Longrightarrow> t = u"
    "\<And>t. inside (pcs t) \<Longrightarrow> 0 < depth l t" by (rule lock_invE[OF assms(1)]) simp
  from leave_Ret[OF assms(3) _ l(3)[OF assms(2)] assms(4)] l(1) assms(5) obtain l' where
    l': "tl_rwlock s' = Some l'" "depth l' = (depth l)(t := depth l t - 1)" by metis
  have "\<not> inside (pcs a)" if "a \<noteq> t" for a using l(2)[OF l(3)[OF assms(2)] l(3)] that by blast
  then have "\<not> inside ((pcs(t := TxIdle)) a)" for a by simp
  then have ins: "inside (snd (s', pcs(t := TxIdle)) u) \<Longrightarrow> 0 < depth l' u" for u by simp
  have "0 < depth l a" if "0 < depth l' a" for a
    using that l(3)[OF assms(2)] by (simp add: l'(2) split: if_splits)
  then have one: "0 < depth l' a \<Longrightarrow> 0 < depth l' b \<Longrightarrow> a = b" for a b
    using l(2) by blast
  have "tl_rwlock (fst (s', pcs(t := TxIdle))) = Some l'" using l'(1) by simp
  from this one ins show ?thesis by (rule lock_invI)
qed

lemma step_lock_inv:
  assumes "writer_lock (fc_lock env) depth" and "tx_step cfg env c lab d" and "lock_inv depth c"
  shows "lock_inv depth d"
  using assms(2,3)
proof (cases rule: tx_step.cases)
  case (start pcs t s j)
  with assms(3) show ?thesis by (auto intro: lock_inv_update)
next
  case (permit pcs t j s s')
  with assms(3) acquire_semaphore_Ret[OF permit(5)] show ?thesis by (auto intro: lock_inv_update)
next
  case (lock pcs t j s s')
  from acquire_writer_Ret[OF lock(5)] obtain l l' where
    l: "tl_rwlock s = Some l" "lk_acquire (fc_lock env) t l = Some (Inr l')"
    "s' = s\<lparr>trace := trace s @ [WriterLockAcquire], tl_rwlock := Some l'\<rparr>" by blast
  note d = writer_lock_acquire[OF assms(1) l(2)]
  from assms(3) lock(1) l(1) have "\<forall>a. inside (pcs a) \<longrightarrow> 0 < depth l a" unfolding lock_inv_def by auto
  with d l(3) lock(3) show ?thesis unfolding lock_inv_def by auto
next
  case (lock_error pcs t j s e s' s'')
  then have "tl_rwlock s'' = tl_rwlock s"
    using acquire_writer_Raise[OF lock_error(5)] by (auto simp: release_semaphore_run)
  with lock_error assms(3) show ?thesis by (auto intro: lock_inv_update)
next
  case (lock_cancel pcs t j s e s')
  with assms(3) acquire_writer_Raise[OF lock_cancel(5)] show ?thesis by (auto intro: lock_inv_update)
next
  case (read_nonce pcs t p e s)
  with assms(3) show ?thesis by (auto intro: lock_inv_update)
next
  case (send pcs t p e n s h s')
  with assms(3) calm_send[OF send(5)] show ?thesis
    by (auto intro: lock_inv_update simp: calm_def same_locks_def)
next
  case (send_error pcs t p e n s ex s')
  with assms(3) calm_send[OF send_error(5)] show ?thesis
    by (auto intro: lock_inv_update simp: calm_def same_locks_def)
next
  case (sent pcs t s s')
  with assms(3) show ?thesis by (auto intro: lock_inv_leave[OF _ _ assms(1) sent(5)])
next
  case (reset_read pcs t s n s')
  with assms(3) calm_read[OF reset_read(5)] show ?thesis
    by (auto intro: lock_inv_update simp: calm_def same_locks_def)
next
  case (reset_error pcs t s ex s')
  with assms(3) calm_read[OF reset_error(5)] show ?thesis
    by (auto intro: lock_inv_update simp: calm_def same_locks_def)
next
  case (reset_done pcs t n s s')
  with assms(3) show ?thesis by (auto intro: lock_inv_leave[OF _ _ assms(1) reset_done(5)])
next
  case (other s s' pcs)
  with assms(3) show ?thesis unfolding lock_inv_def elsewhere_def same_locks_def by auto
qed

section \<open>The sequence of nonces\<close>

text \<open>The nonce of the next transaction: the field, or one more while it is to be moved on.\<close>

definition next_nonce :: "('w, 'l) tasks \<Rightarrow> int" where
  "next_nonce c = fc_nonce (fst c) + (if \<exists>t. snd c t = Written then 1 else 0)"

lemma next_update:
  assumes "pc \<noteq> Written" and "pcs t \<noteq> Written" and "fc_nonce s' = fc_nonce s"
  shows "next_nonce (s', pcs(t := pc)) = next_nonce (s, pcs)"
proof -
  have "(\<exists>u. (pcs(t := pc)) u = Written) \<longleftrightarrow> (\<exists>u. pcs u = Written)"
    using assms(1,2) by (metis fun_upd_def)
  with assms(3) show ?thesis by (simp add: next_nonce_def)
qed

lemma no_other_written:
  assumes "lock_inv depth c" and "inside (snd c t)" and "u \<noteq> t"
  shows "snd c u \<noteq> Written" and "snd c u \<noteq> Writing p e n"
  using lock_inv_alone[OF assms(1,2), of u] assms(3) by auto

lemma nonce_inv_update:
  assumes "nonce_inv (s, pcs)" and "fc_nonce s' = fc_nonce s" and "\<And>p e n. pc \<noteq> Writing p e n"
  shows "nonce_inv (s', pcs(t := pc))"
  using assms by (auto simp: nonce_inv_def)

lemma nonce_inv_alone:
  assumes "\<And>u p e n. u \<noteq> t \<Longrightarrow> pcs u \<noteq> Writing p e n" and "\<And>p e n. pc \<noteq> Writing p e n"
  shows "nonce_inv (s', pcs(t := pc))"
  using assms by (auto simp: nonce_inv_def split: if_splits)

text \<open>What a step does to it, by its label.\<close>

fun nonce_label :: "int \<Rightarrow> tx_label \<Rightarrow> int \<Rightarrow> bool" where
  "nonce_label n Silent m = (m = n)"
| "nonce_label n (SentTx t k) m = (k = n \<and> m = n + 1)"
| "nonce_label n (NonceReset t k) m = (m = k)"
| "nonce_label n (Failed t) m = (m = n)"
| "nonce_label n (Cancelled t) m = (m = n)"

lemma step_nonce:
  assumes "writer_lock (fc_lock env) depth" and "tx_step cfg env c lab d"
    and "lock_inv depth c" and "nonce_inv c"
  shows "nonce_inv d \<and> nonce_label (next_nonce c) lab (next_nonce d)"
  using assms(2)
proof (cases rule: tx_step.cases)
  case (start pcs t s j)
  then show ?thesis using assms(4) by (auto intro!: nonce_inv_update simp: next_update)
next
  case (permit pcs t j s s')
  then show ?thesis
    using assms(4) acquire_semaphore_nonce[OF permit(5)] by (auto intro!: nonce_inv_update simp: next_update)
next
  case (lock pcs t j s s')
  then have "fc_nonce s' = fc_nonce s" by (auto elim: acquire_writer_Ret)
  then show ?thesis using lock assms(4) by (auto intro!: nonce_inv_update simp: next_update)
next
  case (lock_error pcs t j s e s' s'')
  then have "fc_nonce s'' = fc_nonce s"
    using acquire_writer_Raise[OF lock_error(5)] by (auto simp: release_semaphore_run)
  then show ?thesis using lock_error assms(4) by (auto intro!: nonce_inv_update simp: next_update)
next
  case (lock_cancel pcs t j s e s')
  then show ?thesis
    using assms(4) acquire_writer_Raise[OF lock_cancel(5)] by (auto intro!: nonce_inv_update simp: next_update)
next
  case (read_nonce pcs t p e s)
  have "nonce_inv (s, pcs(t := Writing p e (fc_nonce s)))"
    using assms(4) read_nonce by (auto simp: nonce_inv_def)
  then show ?thesis using read_nonce by (simp add: next_update)
next
  case (send pcs t p e n s h s')
  have s': "fc_nonce s' = fc_nonce s" using calm_send[OF send(5)] by (simp add: calm_def)
  have n: "n = fc_nonce s" using assms(4) send(1,4) by (auto simp: nonce_inv_def)
  have "inside (snd c t)" using send(1,4) by simp
  from no_other_written(1)[OF assms(3) this] send(1,4) have "pcs u \<noteq> Written" for u
    by (cases "u = t") auto
  then show ?thesis
    using send s' n assms(4) by (auto intro!: nonce_inv_update simp: next_nonce_def)
next
  case (send_error pcs t p e n s ex s')
  have "fc_nonce s' = fc_nonce s" using calm_send[OF send_error(5)] by (simp add: calm_def)
  then show ?thesis using send_error assms(4) by (auto intro!: nonce_inv_update simp: next_update)
next
  case (sent pcs t s s')
  have ins: "inside (snd c t)" using sent(1,4) by simp
  then obtain l where l: "tl_rwlock s = Some l" "0 < depth l t"
    using assms(3) sent(1) unfolding lock_inv_def by auto
  have "fc_nonce s' = fc_nonce s + 1"
    by (rule leave_Ret[where v = "s\<lparr>fc_nonce := fc_nonce s + 1\<rparr>", OF assms(1) _ l(2) sent(5)]) (simp_all add: l(1))
  then show ?thesis
    using sent no_other_written[OF assms(3) ins] nonce_inv_alone[of t pcs TxIdle s']
    by (auto simp: next_nonce_def)
next
  case (reset_read pcs t s n s')
  have "fc_nonce s' = fc_nonce s" using calm_read[OF reset_read(5)] by (simp add: calm_def)
  then show ?thesis using reset_read assms(4) by (auto intro!: nonce_inv_update simp: next_update)
next
  case (reset_error pcs t s ex s')
  have "fc_nonce s' = fc_nonce s" using calm_read[OF reset_error(5)] by (simp add: calm_def)
  then show ?thesis using reset_error assms(4) by (auto intro!: nonce_inv_update simp: next_update)
next
  case (reset_done pcs t n s s')
  have ins: "inside (snd c t)" using reset_done(1,4) by simp
  then obtain l where l: "tl_rwlock s = Some l" "0 < depth l t"
    using assms(3) reset_done(1) unfolding lock_inv_def by auto
  have "fc_nonce s' = n"
    by (rule leave_Ret[where v = "s\<lparr>fc_nonce := n\<rparr>", OF assms(1) _ l(2) reset_done(5)]) (simp_all add: l(1))
  then show ?thesis
    using reset_done no_other_written[OF assms(3) ins] nonce_inv_alone[of t pcs TxIdle s']
    by (auto simp: next_nonce_def)
next
  case (other s s' pcs)
  then show ?thesis using assms(4) by (auto simp: elsewhere_def nonce_inv_def next_nonce_def)
qed

section \<open>All interleavings\<close>

lemma tasks_start_inv:
  assumes "writer_lock (fc_lock env) depth" and "tasks_start env c"
  shows "lock_inv depth c" and "nonce_inv c" and "next_nonce c = fc_nonce (fst c)"
  using assms by (auto simp: tasks_start_def lock_inv_def nonce_inv_def next_nonce_def writer_lock_new)

fun nonce_run :: "int \<Rightarrow> tx_label list \<Rightarrow> bool" where
  "nonce_run n [] = True"
| "nonce_run n (SentTx t k # labs) = (k = n \<and> nonce_run (n + 1) labs)"
| "nonce_run n (NonceReset t k # labs) = nonce_run k labs"
| "nonce_run n (Silent # labs) = nonce_run n labs"
| "nonce_run n (Failed t # labs) = nonce_run n labs"
| "nonce_run n (Cancelled t # labs) = nonce_run n labs"

lemma nonce_run_step: "nonce_label n lab m \<Longrightarrow> nonce_run m labs \<Longrightarrow> nonce_run n (lab # labs)"
  by (cases lab) auto

lemma path_inv:
  assumes "writer_lock (fc_lock env) depth" and "tx_path cfg env c labs d"
    and "lock_inv depth c" and "nonce_inv c"
  shows "lock_inv depth d \<and> nonce_inv d \<and> nonce_run (next_nonce c) labs"
  using assms(2,3,4)
proof (induction rule: tx_path.induct)
  case (here c)
  then show ?case by simp
next
  case (onward c lab d labs e)
  from step_lock_inv[OF assms(1) onward(1,4)] step_nonce[OF assms(1) onward(1,4,5)] onward(3)
  show ?case by (auto intro: nonce_run_step)
qed

text \<open>
  C9: however the transaction tasks and the rest of the service interleave, and whatever fails,
  no two tasks are ever both between taking the lock and giving it back, and the nonces of the
  transactions that are sent follow one another: each is the one after the last that was sent,
  or the one last read from the chain.
\<close>

theorem tasks_nonces_in_sequence:
  assumes "writer_lock (fc_lock env) depth" and "tasks_start env c" and "tx_path cfg env c labs d"
  shows "(\<forall>t u. inside (snd d t) \<and> inside (snd d u) \<longrightarrow> t = u) \<and> nonce_run (fc_nonce (fst c)) labs"
proof -
  note start = tasks_start_inv[OF assms(1,2)]
  from path_inv[OF assms(1,3) start(1,2)] start(3)
  have "lock_inv depth d" "nonce_run (fc_nonce (fst c)) labs" by auto
  with lock_inv_alone[of depth d] show ?thesis by blast
qed

section \<open>What one failure does\<close>

text \<open>A hold of the lock that its task will never give back.\<close>

definition stuck :: "('l \<Rightarrow> nat \<Rightarrow> nat) \<Rightarrow> nat \<Rightarrow> ('w, 'l) tasks \<Rightarrow> bool" where
  "stuck depth t c \<longleftrightarrow>
     (\<exists>l. tl_rwlock (fst c) = Some l \<and> (if inside (snd c t) then 1 else 0) < depth l t)"

fun actor :: "tx_label \<Rightarrow> nat option" where
  "actor (SentTx t n) = Some t"
| "actor (NonceReset t n) = Some t"
| "actor (Failed t) = Some t"
| "actor lab = None"

lemma actor_inside: "tx_step cfg env c lab d \<Longrightarrow> actor lab = Some t \<Longrightarrow> inside (snd c t)"
  by (cases rule: tx_step.cases) auto

lemma stuckE:
  assumes "stuck depth t c"
  obtains l where "tl_rwlock (fst c) = Some l" and "(if inside (snd c t) then 1 else 0) < depth l t"
  using assms unfolding stuck_def by blast

lemma stuck_excludes:
  assumes "stuck depth t c" and "lock_inv depth c" and "inside (snd c u)"
  shows "u = t"
proof -
  obtain l where l: "tl_rwlock (fst c) = Some l" "0 < depth l t"
    by (rule stuckE[OF assms(1)]) (auto split: if_splits)
  obtain l' where "tl_rwlock (fst c) = Some l'" "\<And>t u. 0 < depth l' t \<Longrightarrow> 0 < depth l' u \<Longrightarrow> t = u"
    "0 < depth l' u"
    by (rule lock_invE[OF assms(2)]) (use assms(3) in blast)
  with l show ?thesis by simp
qed

lemma stuck_update:
  assumes "stuck depth t (s, pcs)" and "tl_rwlock s' = tl_rwlock s" and "inside pc \<longrightarrow> inside (pcs u)"
  shows "stuck depth t (s', pcs(u := pc))"
proof -
  obtain l where l: "tl_rwlock s = Some l" "(if inside (pcs t) then 1 else 0) < depth l t"
    by (rule stuckE[OF assms(1)]) simp
  with assms(2,3) show ?thesis by (auto simp: stuck_def split: if_splits)
qed

lemma stuck_leave:
  assumes "stuck depth t (s, pcs)" and "inside (pcs t)" and "writer_lock lk depth"
    and "leave lk t () v = (r, s')" and "tl_rwlock v = tl_rwlock s"
  shows "stuck depth t (s', pcs(t := TxIdle))"
proof -
  obtain l where l: "tl_rwlock s = Some l" "1 < depth l t"
    by (rule stuckE[OF assms(1)]) (use assms(2) in simp)
  have "tl_rwlock v = Some l" "0 < depth l t" using l assms(5) by simp_all
  from leave_Ret[OF assms(3) this assms(4)] obtain l' where
    "tl_rwlock s' = Some l'" "depth l' = (depth l)(t := depth l t - 1)" .
  with l(2) show ?thesis by (simp add: stuck_def)
qed

lemma step_stuck:
  assumes "writer_lock (fc_lock env) depth" and "tx_step cfg env c lab d"
    and "lock_inv depth c" and "stuck depth t c"
  shows "stuck depth t d"
  using assms(2)
proof (cases rule: tx_step.cases)
  case (permit pcs u j s s')
  with assms(4) acquire_semaphore_Ret[OF permit(5)] show ?thesis by (auto intro: stuck_update)
next
  case (lock pcs u j s s')
  obtain l l' where
    l: "tl_rwlock s = Some l" "lk_acquire (fc_lock env) u l = Some (Inr l')"
    "s' = s\<lparr>trace := trace s @ [WriterLockAcquire], tl_rwlock := Some l'\<rparr>"
    using acquire_writer_Ret[OF lock(5)] by metis
  note d = writer_lock_acquire[OF assms(1) l(2)]
  have "(if inside (pcs t) then 1 else 0) < depth l t"
    by (rule stuckE[OF assms(4)]) (use lock(1) l(1) in simp)
  then have "u = t" using d(1)[of t] by (cases "u = t") auto
  with lock l d(2) \<open>_ < depth l t\<close> show ?thesis by (simp add: stuck_def)
next
  case (lock_error pcs u j s e s' s'')
  then have "tl_rwlock s'' = tl_rwlock s"
    using acquire_writer_Raise[OF lock_error(5)] by (auto simp: release_semaphore_run)
  with lock_error assms(4) show ?thesis by (auto intro: stuck_update)
next
  case (lock_cancel pcs u j s e s')
  with assms(4) acquire_writer_Raise[OF lock_cancel(5)] show ?thesis by (auto intro: stuck_update)
next
  case (send pcs u p e n s h s')
  with assms(4) calm_send[OF send(5)] show ?thesis by (auto intro: stuck_update simp: calm_def same_locks_def)
next
  case (send_error pcs u p e n s ex s')
  with assms(4) calm_send[OF send_error(5)] show ?thesis by (auto intro: stuck_update simp: calm_def same_locks_def)
next
  case (sent pcs u s s')
  then have "u = t" using stuck_excludes[OF assms(4,3)] by simp
  with sent assms(4) show ?thesis by (auto intro: stuck_leave[OF _ _ assms(1) sent(5)[unfolded \<open>u = t\<close>]])
next
  case (reset_read pcs u s n s')
  with assms(4) calm_read[OF reset_read(5)] show ?thesis by (auto intro: stuck_update simp: calm_def same_locks_def)
next
  case (reset_error pcs u s ex s')
  with assms(4) calm_read[OF reset_error(5)] show ?thesis by (auto intro: stuck_update simp: calm_def same_locks_def)
next
  case (reset_done pcs u n s s')
  then have "u = t" using stuck_excludes[OF assms(4,3)] by simp
  with reset_done assms(4) show ?thesis
    by (auto intro: stuck_leave[OF _ _ assms(1) reset_done(5)[unfolded \<open>u = t\<close>]])
next
  case (other s s' pcs)
  with assms(4) show ?thesis by (auto simp: stuck_def elsewhere_def same_locks_def)
qed (use assms(4) in \<open>auto intro: stuck_update\<close>)

lemma failed_stuck:
  assumes "tx_step cfg env c (Failed t) d" and "lock_inv depth c"
  shows "stuck depth t d"
proof -
  have ins: "inside (snd c t)" by (rule actor_inside[OF assms(1)]) simp
  obtain l where l: "tl_rwlock (fst c) = Some l" "0 < depth l t"
    by (rule lock_invE[OF assms(2)]) (use ins in blast)
  have "tl_rwlock (fst d) = tl_rwlock (fst c) \<and> \<not> inside (snd d t)"
    using assms(1)
    by (cases rule: tx_step.cases) (auto dest!: calm_send calm_read simp: calm_def same_locks_def)
  with l show ?thesis by (auto simp: stuck_def)
qed

lemma path_append:
  assumes "tx_path cfg env c (labs @ labs') e"
  obtains d where "tx_path cfg env c labs d" and "tx_path cfg env d labs' e"
  using assms
proof (induction labs arbitrary: c thesis)
  case Nil
  from Nil(1)[OF tx_path.here] Nil(2) show ?case by simp
next
  case (Cons lab labs)
  from Cons.prems(2) show ?case
    by (auto elim!: tx_path_ConsE intro: Cons.prems(1) tx_path.onward Cons.IH)
qed

lemma path_stuck:
  assumes "writer_lock (fc_lock env) depth" and "tx_path cfg env c labs d"
    and "lock_inv depth c" and "stuck depth t c" and "lab \<in> set labs" and "actor lab = Some u"
  shows "u = t"
  using assms(2-5)
proof (induction rule: tx_path.induct)
  case (here c)
  then show ?case by simp
next
  case (onward c lab' d labs e)
  show ?case
  proof (cases "lab = lab'")
    case True
    with stuck_excludes[OF onward(5,4) actor_inside[OF onward(1)]] assms(6) show ?thesis by blast
  next
    case False
    with onward(6) have "lab \<in> set labs" by simp
    with onward(3)[OF step_lock_inv[OF assms(1) onward(1,4)] step_stuck[OF assms(1) onward(1,4,5)]]
    show ?thesis by blast
  qed
qed

text \<open>
  C10: once a task has failed inside the decorated method, whether sending or reading the nonce,
  no other task ever again sends a transaction, resets the nonce or gets as far as failing
  itself, in any interleaving: the lock it leaves behind is never given back.
\<close>

theorem one_failure_stops_all_other_tasks:
  assumes "writer_lock (fc_lock env) depth" and "tasks_start env c"
    and "tx_path cfg env c (labs @ Failed t # labs') d"
    and "lab \<in> set labs'" and "actor lab = Some u"
  shows "u = t"
proof -
  from assms(3) obtain c' where c': "tx_path cfg env c labs c'" "tx_path cfg env c' (Failed t # labs') d"
    by (rule path_append)
  from c'(2) obtain d' where d': "tx_step cfg env c' (Failed t) d'" "tx_path cfg env d' labs' d"
    by (rule tx_path_ConsE)
  from path_inv[OF assms(1) c'(1) tasks_start_inv(1,2)[OF assms(1,2)]] have inv: "lock_inv depth c'" by blast
  show ?thesis
    by (rule path_stuck[OF assms(1) d'(2) step_lock_inv[OF assms(1) d'(1) inv] failed_stuck[OF d'(1) inv] assms(4,5)])
qed


section \<open>No deadlock while nothing fails\<close>

text \<open>How far a task is from the end of the decorated method.\<close>

fun rank :: "tx_pc \<Rightarrow> nat" where
  "rank TxIdle = 0"
| "rank (WantSemaphore j) = 5"
| "rank (WantLock j) = 4"
| "rank (Entered j) = 3"
| "rank (Writing p e n) = 2"
| "rank Written = 1"
| "rank (GotNonce n) = 1"

definition holders :: "('w, 'l) tasks \<Rightarrow> nat set" where
  "holders c = {t. holds_permit (snd c t)}"

text \<open>Without a failure every hold belongs to a task inside, and no permit is lost.\<close>

definition balanced :: "('l \<Rightarrow> nat \<Rightarrow> nat) \<Rightarrow> ('w, 'l) tasks \<Rightarrow> bool" where
  "balanced depth c \<longleftrightarrow>
     (\<exists>l. tl_rwlock (fst c) = Some l \<and> (\<forall>t. depth l t = (if inside (snd c t) then 1 else 0))) \<and>
     finite (holders c) \<and> card (holders c) + tl_semaphore (fst c) = 20"

lemma holders_update:
  "holders (s', pcs(t := pc)) =
     (if holds_permit pc then insert t (holders (s, pcs)) else holders (s, pcs) - {t})"
  by (auto simp: holders_def)

lemma balancedE:
  assumes "balanced depth (s, pcs)"
  obtains l where "tl_rwlock s = Some l" and "\<And>t. depth l t = (if inside (pcs t) then 1 else 0)"
    and "finite (holders (s, pcs))" and "card (holders (s, pcs)) + tl_semaphore s = 20"
  using assms unfolding balanced_def by auto

lemma balanced_update:
  assumes "balanced depth (s, pcs)" and "tl_rwlock s' = tl_rwlock s" and "inside pc = inside (pcs t)"
    and "tl_semaphore s' + (if holds_permit pc then 1 else 0) =
         tl_semaphore s + (if holds_permit (pcs t) then 1 else 0)"
  shows "balanced depth (s', pcs(t := pc))"
proof -
  obtain l where l: "tl_rwlock s = Some l" "\<And>t. depth l t = (if inside (pcs t) then 1 else 0)"
    "finite (holders (s, pcs))" "card (holders (s, pcs)) + tl_semaphore s = 20"
    using balancedE[OF assms(1)] by blast
  have t: "t \<in> holders (s, pcs) \<longleftrightarrow> holds_permit (pcs t)" by (simp add: holders_def)
  have pos: "0 < card (holders (s, pcs))" if "t \<in> holders (s, pcs)"
    using that l(3) by (auto simp: card_gt_0_iff)
  have "card (holders (s', pcs(t := pc))) + tl_semaphore s' = 20"
    using l(3,4) assms(4) t pos by (auto simp: holders_update[of s' pcs t pc s] card_insert_if
        card_Diff_singleton_if split: if_splits)
  moreover have "finite (holders (s', pcs(t := pc)))"
    using l(3) by (simp add: holders_update[of s' pcs t pc s])
  ultimately show ?thesis
    using l(1,2) assms(2,3) by (auto simp: balanced_def)
qed


lemma balanced_leave:
  assumes "balanced depth (s, pcs)" and "inside (pcs t)" and "writer_lock lk depth"
    and "leave lk t () v = (r, s')" and "tl_rwlock v = tl_rwlock s" and "tl_semaphore v = tl_semaphore s"
  shows "balanced depth (s', pcs(t := TxIdle))"
proof -
  obtain l where l: "tl_rwlock s = Some l" "\<And>t. depth l t = (if inside (pcs t) then 1 else 0)"
    "finite (holders (s, pcs))" "card (holders (s, pcs)) + tl_semaphore s = 20"
    using balancedE[OF assms(1)] by blast
  have v: "tl_rwlock v = Some l" "0 < depth l t" using l(1,2) assms(2,5) by simp_all
  from leave_Ret[OF assms(3) v assms(4)] obtain l' where
    l': "tl_rwlock s' = Some l'" "depth l' = (depth l)(t := depth l t - 1)"
    "tl_semaphore s' = Suc (tl_semaphore s)" using assms(6) by metis
  have t: "t \<in> holders (s, pcs)" using assms(2) by (simp add: holders_def inside_holds)
  then have "0 < card (holders (s, pcs))" using l(3) by (auto simp: card_gt_0_iff)
  with t l(3,4) l'(3) have "card (holders (s', pcs(t := TxIdle))) + tl_semaphore s' = 20"
    by (simp add: holders_update[of s' pcs t TxIdle s] card_Diff_singleton_if)
  moreover have "finite (holders (s', pcs(t := TxIdle)))"
    using l(3) by (simp add: holders_update[of s' pcs t TxIdle s])
  moreover have "depth l' u = (if inside ((pcs(t := TxIdle)) u) then 1 else 0)" for u
    using l(2) assms(2) by (simp add: l'(2))
  ultimately show ?thesis using l'(1) by (simp add: balanced_def)
qed

lemma step_balanced:
  assumes "writer_lock (fc_lock env) depth" and "tx_step cfg env c lab d" and "balanced depth c"
    and "\<And>t. lab \<noteq> Failed t \<and> lab \<noteq> Cancelled t"
  shows "balanced depth d"
  using assms(2)
proof (cases rule: tx_step.cases)
  case (permit pcs t j s s')
  with assms(3) acquire_semaphore_Ret[OF permit(5)] show ?thesis by (auto intro: balanced_update)
next
  case (lock pcs t j s s')
  obtain l l' where
    l: "tl_rwlock s = Some l" "lk_acquire (fc_lock env) t l = Some (Inr l')"
    "s' = s\<lparr>trace := trace s @ [WriterLockAcquire], tl_rwlock := Some l'\<rparr>"
    using acquire_writer_Ret[OF lock(5)] by metis
  note d = writer_lock_acquire[OF assms(1) l(2)]
  obtain l0 where b: "tl_rwlock s = Some l0" "\<And>t. depth l0 t = (if inside (pcs t) then 1 else 0)"
    "finite (holders (s, pcs))" "card (holders (s, pcs)) + tl_semaphore s = 20"
    using balancedE[OF assms(3)[unfolded lock(1)]] by blast
  have h: "holders (s', pcs(t := Entered j)) = holders (s, pcs)"
    using lock(4) by (auto simp: holders_def)
  have "depth l' u = (if inside ((pcs(t := Entered j)) u) then 1 else 0)" for u
    using d(2) b(1,2) l(1) lock(4) by simp
  then show ?thesis
    using b(3,4) h lock(3) l(3) by (simp add: balanced_def)
next
  case (lock_error pcs t j s e s' s'')
  then have "tl_rwlock s'' = tl_rwlock s \<and> tl_semaphore s'' = Suc (tl_semaphore s)"
    using acquire_writer_Raise[OF lock_error(5)] by (auto simp: release_semaphore_run)
  with lock_error assms(3) show ?thesis by (auto intro: balanced_update)
next
  case (send pcs t p e n s h s')
  with assms(3) calm_send[OF send(5)] show ?thesis
    by (auto intro: balanced_update simp: calm_def same_locks_def)
next
  case (sent pcs t s s')
  with assms(3) show ?thesis by (auto intro: balanced_leave[OF _ _ assms(1) sent(5)])
next
  case (reset_read pcs t s n s')
  with assms(3) calm_read[OF reset_read(5)] show ?thesis
    by (auto intro: balanced_update simp: calm_def same_locks_def)
next
  case (reset_done pcs t n s s')
  with assms(3) show ?thesis by (auto intro: balanced_leave[OF _ _ assms(1) reset_done(5)])
next
  case (other s s' pcs)
  with assms(3) show ?thesis by (auto simp: balanced_def elsewhere_def same_locks_def holders_def)
qed (use assms(3,4) in \<open>auto intro: balanced_update\<close>)

lemma path_balanced:
  assumes "writer_lock (fc_lock env) depth" and "tx_path cfg env c labs d" and "balanced depth c"
    and "\<And>t. Failed t \<notin> set labs \<and> Cancelled t \<notin> set labs"
  shows "balanced depth d"
  using assms(2-4)
proof (induction rule: tx_path.induct)
  case (onward c lab d labs e)
  have "\<And>t. lab \<noteq> Failed t \<and> lab \<noteq> Cancelled t" using onward(5) by auto
  with step_balanced[OF assms(1) onward(1,4)] onward(3,5) show ?case by auto
qed

lemma read_chain_ends: "fst (read_chain_nonce cfg env s) \<noteq> Pending"
  by (simp add: read_chain_nonce_def timeSleepM_def M_defs split: prod.split sum.split)

lemma start_balanced:
  assumes "writer_lock (fc_lock env) depth" and "tasks_start env c"
  shows "balanced depth c"
  using assms by (simp add: tasks_start_def balanced_def holders_def writer_lock_new)

text \<open>A task inside can always take its next step.\<close>

lemma inside_moves:
  assumes "writer_lock (fc_lock env) depth" and "balanced depth (s, pcs)" and "inside (pcs t)"
  obtains lab s' pc where "tx_step cfg env (s, pcs) lab (s', pcs(t := pc))" and "rank pc < rank (pcs t)"
proof -
  obtain l where l: "tl_rwlock s = Some l" "0 < depth l t"
    using balancedE[OF assms(2)] assms(3) by (metis zero_less_one)
  have gives: "\<exists>s'. leave (fc_lock env) t () v = (Ret (), s')" if "tl_rwlock v = Some l" for v
  proof -
    obtain l' where "lk_release (fc_lock env) t l = Inr l'"
      by (rule writer_lock_release[where lk = "fc_lock env" and depth = depth and l = l and t = t, OF assms(1) l(2)])
    from leave_held[OF that this, of "()"] show ?thesis by (rule exI)
  qed
  show thesis
  proof (cases "pcs t")
    case (Entered j)
    show thesis
    proof (cases j)
      case (MakeTx p e)
      with Entered that[OF tx_step.read_nonce[where pcs = pcs and t = t]] show thesis by simp
    next
      case ResetNonce
      obtain r s' where r: "read_chain_nonce cfg env s = (r, s')" by fastforce
      with read_chain_ends[of cfg env s] show thesis
        using Entered ResetNonce that[OF tx_step.reset_read[where pcs = pcs and t = t]] that[OF tx_step.reset_error[where pcs = pcs and t = t]] by (cases r) auto
    qed
  next
    case (Writing p e n)
    obtain r s' where r: "send_force cfg env n (fc_gas s) [p, e] s = (r, s')" by fastforce
    have "r \<noteq> Pending"
      using write_transaction_never_pending[where s = s] r by (metis fst_conv)
    with r show thesis
      using Writing that[OF tx_step.send[where pcs = pcs and t = t]] that[OF tx_step.send_error[where pcs = pcs and t = t]] by (cases r) auto
  next
    case Written
    with that[OF tx_step.sent[where pcs = pcs and t = t]] gives[of "s\<lparr>fc_nonce := fc_nonce s + 1\<rparr>"] l(1) show thesis by auto
  next
    case (GotNonce n)
    with that[OF tx_step.reset_done[where pcs = pcs and t = t]] gives[of "s\<lparr>fc_nonce := n\<rparr>"] l(1) show thesis by auto
  qed (use assms(3) in simp_all)
qed

text \<open>
  C20: while no task has failed or been cancelled, the tasks never deadlock: whenever one has
  started and not ended, some task can take a step that brings it nearer to its end. The rank
  bounds the steps of a task, so each of them ends once it is let run.
\<close>

theorem tasks_never_deadlock:
  assumes "writer_lock (fc_lock env) depth" and "lock_available (fc_lock env) depth"
    and "tasks_start env c" and "tx_path cfg env c labs d"
    and "\<And>t. Failed t \<notin> set labs \<and> Cancelled t \<notin> set labs" and "snd d t \<noteq> TxIdle"
  shows "\<exists>u lab s' pc. tx_step cfg env d lab (s', (snd d)(u := pc)) \<and> rank pc < rank (snd d u)"
proof -
  obtain s pcs where d: "d = (s, pcs)" by (cases d)
  have bal: "balanced depth (s, pcs)"
    using path_balanced[OF assms(1,4) start_balanced[OF assms(1,3)] assms(5)] by (simp add: d)
  obtain l where l: "tl_rwlock s = Some l" "\<And>t. depth l t = (if inside (pcs t) then 1 else 0)"
    "card (holders (s, pcs)) + tl_semaphore s = 20" using balancedE[OF bal] by blast
  show ?thesis
  proof (cases "\<exists>u. inside (pcs u)")
    case True
    then obtain u where "inside (pcs u)" ..
    from inside_moves[OF assms(1) bal this] show ?thesis by (metis d snd_conv)
  next
    case none: False
    show ?thesis
    proof (cases "\<exists>u j. pcs u = WantLock j")
      case True
      then obtain u j where u: "pcs u = WantLock j" by blast
      from none l(2) have "\<forall>t. depth l t = 0" by simp
      with assms(2) obtain l' where "lk_acquire (fc_lock env) u l = Some (Inr l')"
        unfolding lock_available_def by blast
      with l(1) have "\<exists>s'. acquire_writer (fc_lock env) u s = (Ret (), s')" by (simp add: acquire_writer_run)
      then obtain s' where "acquire_writer (fc_lock env) u s = (Ret (), s')" ..
      from tx_step.lock[where pcs = pcs and t = u, OF u this] u show ?thesis unfolding d
        by (intro exI[of _ u] exI[of _ Silent] exI[of _ s'] exI[of _ "Entered j"]) simp
    next
      case False
      from none False have idle: "\<not> inside (pcs u)" "pcs u \<noteq> WantLock j" for u j by blast+
      then have "\<not> holds_permit (pcs u)" for u by (metis holds_permit.elims(2))
      then have "tl_semaphore s = Suc 19" using l(3) by (simp add: holders_def)
      then have "\<exists>s'. acquire_semaphore s = (Ret (), s')" by (simp add: acquire_semaphore_def M_defs)
      then obtain s' where s': "acquire_semaphore s = (Ret (), s')" ..
      from idle[of t] assms(6) d obtain j where t: "pcs t = WantSemaphore j" by (cases "pcs t") auto
      from tx_step.permit[where pcs = pcs and t = t, OF t s'] t show ?thesis unfolding d
        by (intro exI[of _ t] exI[of _ Silent] exI[of _ s'] exI[of _ "WantLock j"]) simp
    qed
  qed
qed

section \<open>The methods of the service are runs of steps\<close>

lemma leave_same_state: "leave lk t a v = (r, s') \<Longrightarrow> leave lk t () v = (case r of Ret b \<Rightarrow> Ret () | Raise e \<Rightarrow> Raise e | Pending \<Rightarrow> Pending, s')"
  by (auto simp: leave_def release_semaphore_run thenM_def bindM_def returnM_def split: prod.splits res.splits)

lemma path_snoc:
  assumes "tx_path cfg env c labs d" and "tx_step cfg env d lab e"
  shows "tx_path cfg env c (labs @ [lab]) e"
  using assms
proof (induction rule: tx_path.induct)
  case (here c)
  then show ?case by (auto intro: tx_path.intros)
next
  case (onward c lab' d labs e')
  then show ?case by (auto intro: tx_path.onward)
qed

lemma decorated_path:
  assumes "semaphore_then_aiorwlock_aqcuire_release (fc_lock env) t fn s = (r, s')" and "r \<noteq> Pending"
    and "pcs t = TxIdle" and "writer_lock (fc_lock env) depth"
  obtains (out) labs e where "tx_path cfg env (s, pcs) labs (s', pcs)" and "r = Raise e"
      and "\<forall>lab \<in> set labs. actor lab = None"
  | (inside) u l where "tl_rwlock u = Some l" and "0 < depth l t" and "tx_path cfg env (s, pcs) [Silent, Silent, Silent] (u, pcs(t := Entered j))"
      and "bindM fn (leave (fc_lock env) t) u = (r, s')" and "fc_nonce u = fc_nonce s"
proof -
  let ?p1 = "pcs(t := WantSemaphore j)" and ?p2 = "pcs(t := WantLock j)"
  have first: "tx_path cfg env (s, pcs) [Silent] (s, ?p1)"
    by (rule tx_path.onward[OF tx_step.start[where pcs = pcs and t = t, OF assms(3)] tx_path.here])
  have idle: "pcs(t := TxIdle) = pcs" using assms(3) by (metis fun_upd_triv)
  from assms(1)[unfolded semaphore_then_aiorwlock_aqcuire_release_def leave_def[symmetric]] show thesis
  proof (cases rule: thenM_E)
    case (Ret a s1)
    have step2: "tx_step cfg env (s, ?p1) Silent (s1, ?p2)"
      using tx_step.permit[where pcs = ?p1 and t = t and s = s and s' = s1 and j = j] Ret(1) by simp
    have second: "tx_path cfg env (s, pcs) [Silent, Silent] (s1, ?p2)"
      using path_snoc[OF first step2] by simp
    have n1: "fc_nonce s1 = fc_nonce s" by (rule acquire_semaphore_nonce[OF Ret(1)])
    from Ret(2) show thesis
    proof (cases rule: thenM_E)
      case lock: (Ret b u)
      have acq: "acquire_writer (fc_lock env) t s1 = (Ret (), u)"
        using lock(1) by (cases rule: tryM_E) (auto simp: thenM_def bindM_def release_semaphore_run raiseM_def)
      have "tx_step cfg env (s1, ?p2) Silent (u, pcs(t := Entered j))"
        using tx_step.lock[where pcs = ?p2 and t = t and s = s1 and s' = u and j = j] acq by simp
      note path = path_snoc[OF second this]
      obtain l l' where l: "lk_acquire (fc_lock env) t l = Some (Inr l')"
        "u = s1\<lparr>trace := trace s1 @ [WriterLockAcquire], tl_rwlock := Some l'\<rparr>"
        using acquire_writer_Ret[OF acq] by metis
      then have "tl_rwlock u = Some l'" "0 < depth l' t" "fc_nonce u = fc_nonce s"
        using writer_lock_acquire(2)[OF assms(4) l(1)] n1 by simp_all
      with path lock(2) inside[of u l'] show thesis by simp
    next
      case (Raise e)
      from Raise(1) show thesis
      proof (cases rule: tryM_E)
        case (Caught e' v)
        have rel: "release_semaphore v = (Ret (), s')"
          using Caught(3) by (auto simp: thenM_def bindM_def release_semaphore_run raiseM_def)
        have "tx_step cfg env (s1, ?p2) Silent (s', pcs(t := TxIdle))"
          using tx_step.lock_error[where pcs = ?p2 and t = t and s = s1 and s' = v and j = j, OF _ Caught(1,2) rel]
          by simp
        from path_snoc[OF second this] out Raise(2) show thesis unfolding idle by fastforce
      next
        case (Raise e')
        have "tx_step cfg env (s1, ?p2) (Cancelled t) (s', pcs(t := TxIdle))"
          using tx_step.lock_cancel[where pcs = ?p2 and t = t and s = s1 and s' = s' and j = j, OF _ Raise(1,2)]
          by simp
        from path_snoc[OF second this] out \<open>r = Raise e\<close> show thesis unfolding idle by fastforce
      qed auto
    qed (use assms(2) in simp)
  next
    case (Raise e)
    then show thesis by (cases "tl_semaphore s") (auto simp: acquire_semaphore_def M_defs)
  qed (use assms(2) in simp)
qed

lemma make_transaction_steps:
  assumes "semaphore_then_aiorwlock_aqcuire_release (fc_lock env) t (make_transaction_body cfg env p e) s = (r, s')"
    and "writer_lock (fc_lock env) depth" and "r \<noteq> Pending" and "pcs t = TxIdle"
  shows "\<exists>labs. tx_path cfg env (s, pcs) labs (s', pcs) \<and>
     (case r of
        Ret h \<Rightarrow> labs = [Silent, Silent, Silent, Silent, SentTx t (fc_nonce s), Silent]
      | Raise ex \<Rightarrow> (\<forall>lab \<in> set labs. actor lab = None) \<or> labs = [Silent, Silent, Silent, Silent, Failed t]
      | Pending \<Rightarrow> False)"
proof -
  have idle: "pcs(t := TxIdle) = pcs" using assms(4) by (metis fun_upd_triv)
  from assms(1,3,4,2) show ?thesis
  proof (cases rule: decorated_path[where cfg = cfg and j = "MakeTx p e"])
    case (out labs ex)
    then show ?thesis by (intro exI[of _ labs]) simp
  next
    case (inside u l)
    let ?w = "pcs(t := Writing p e (fc_nonce u))"
    have "tx_step cfg env (u, pcs(t := Entered (MakeTx p e))) Silent (u, ?w)"
      using tx_step.read_nonce[where pcs = "pcs(t := Entered (MakeTx p e))" and t = t and s = u and p = p and e = e] by simp
    note third = path_snoc[OF inside(3) this]
    obtain x v where x: "send_force cfg env (fc_nonce u) (fc_gas u) [p, e] u = (x, v)" by fastforce
    have "x \<noteq> Pending" using write_transaction_never_pending[where s = u] x by (metis fst_conv)
    show ?thesis
    proof (cases x)
      case (Ret h)
      have body: "make_transaction_body cfg env p e u = (Ret h, v\<lparr>fc_nonce := fc_nonce v + 1\<rparr>)"
        by (simp add: make_transaction_body_def M_defs x Ret)
      have lv: "leave (fc_lock env) t h (v\<lparr>fc_nonce := fc_nonce v + 1\<rparr>) = (r, s')"
        using inside(4) by (simp add: bindM_def body)
      have "tl_rwlock (v\<lparr>fc_nonce := fc_nonce v + 1\<rparr>) = Some l"
        using calm_send[OF x] inside(1) by (simp add: calm_def same_locks_def)
      moreover obtain l' where "lk_release (fc_lock env) t l = Inr l'"
        by (rule writer_lock_release[where lk = "fc_lock env" and depth = depth and l = l and t = t, OF assms(2) inside(2)])
      ultimately have "leave (fc_lock env) t h (v\<lparr>fc_nonce := fc_nonce v + 1\<rparr>) =
          (Ret h, v\<lparr>fc_nonce := fc_nonce v + 1, trace := trace v @ [SemaphoreRelease, WriterLockRelease],
             tl_semaphore := tl_semaphore v + 1, tl_rwlock := Some l'\<rparr>)"
        by (simp add: leave_held)
      with lv have "r = Ret h" by simp
      with leave_same_state[OF lv] have lv': "leave (fc_lock env) t () (v\<lparr>fc_nonce := fc_nonce v + 1\<rparr>) = (Ret (), s')"
        by simp
      have step: "tx_step cfg env (u, ?w) (SentTx t (fc_nonce u)) (v, pcs(t := Written))"
        using tx_step.send[where pcs = ?w and t = t and s = u and p = p and e = e and n = "fc_nonce u"] x Ret by simp
      have "tx_step cfg env (v, pcs(t := Written)) Silent (s', pcs)"
        using tx_step.sent[where pcs = "pcs(t := Written)" and t = t and s = v and s' = s'] lv' idle by simp
      from path_snoc[OF path_snoc[OF third step] this] inside(5) \<open>r = Ret h\<close> show ?thesis
        by (intro exI) (auto)
    next
      case (Raise ex)
      have "make_transaction_body cfg env p e u = (Raise ex, v)"
        by (simp add: make_transaction_body_def M_defs x Raise)
      with inside(4) have rs: "r = Raise ex" "s' = v" by (simp_all add: bindM_def)
      have "tx_step cfg env (u, ?w) (Failed t) (s', pcs)"
        using tx_step.send_error[where pcs = ?w and t = t and s = u and p = p and e = e and n = "fc_nonce u"] x Raise idle rs by simp
      from path_snoc[OF third this] rs show ?thesis by (intro exI) auto
    qed (use \<open>x \<noteq> Pending\<close> in simp)
  qed
qed

text \<open>
  C19: one attempt of \<^verbatim>\<open>_make_transaction\<close>, as the sequential model runs it, is a run of the steps
  above by its task while the others stand still: it ends in the same state, and the transaction
  it sends is labelled with the nonce the object had; an attempt that raises after it got the
  locks ends with the label of a failure.
\<close>

theorem make_transaction_refines_steps:
  assumes "semaphore_then_aiorwlock_aqcuire_release (fc_lock env) t (make_transaction_body cfg env p e) s = (r, s')"
    and "writer_lock (fc_lock env) depth" and "r \<noteq> Pending" and "pcs t = TxIdle"
  shows "\<exists>labs. tx_path cfg env (s, pcs) labs (s', pcs) \<and>
     (case r of
        Ret h \<Rightarrow> labs = [Silent, Silent, Silent, Silent, SentTx t (fc_nonce s), Silent]
      | Raise ex \<Rightarrow> (\<forall>lab \<in> set labs. actor lab = None) \<or> labs = [Silent, Silent, Silent, Silent, Failed t]
      | Pending \<Rightarrow> False)"
  using assms by (rule make_transaction_steps)

section \<open>The properties at an example\<close>

definition idle_tasks :: "nat \<Rightarrow> tx_pc" where
  "idle_tasks t = TxIdle"

lemma example_tasks_start: "tasks_start example_fc_env (example_fc, idle_tasks)"
  by (simp add: tasks_start_def idle_tasks_def example_fc_env_def counting_lock_def)

lemma example_lock [simp]: "writer_lock (fc_lock example_fc_env) counting_depth"
  "lock_available (fc_lock example_fc_env) counting_depth"
  by (simp_all add: example_fc_env_def counting_lock_writer_lock counting_lock_available)

lemma example_attempt:
  "\<exists>s'. semaphore_then_aiorwlock_aqcuire_release (fc_lock example_fc_env) 3
     (make_transaction_body example_settings example_fc_env (JStr ''p'') (JInt 7)) example_fc = (Ret ''hash'', s')"
  by (simp add: semaphore_then_aiorwlock_aqcuire_release_def acquire_semaphore_def acquire_writer_def
      release_semaphore_def release_writer_def make_transaction_body_def write_transaction_def M_defs Let_def
      fc_env_simps counting_lock_def)

lemma example_path:
  "\<exists>s'. tx_path example_settings example_fc_env (example_fc, idle_tasks)
     [Silent, Silent, Silent, Silent, SentTx 3 5, Silent] (s', idle_tasks)"
proof -
  obtain s' where "semaphore_then_aiorwlock_aqcuire_release (fc_lock example_fc_env) 3
     (make_transaction_body example_settings example_fc_env (JStr ''p'') (JInt 7)) example_fc = (Ret ''hash'', s')"
    using example_attempt by blast
  from make_transaction_steps[OF this example_lock(1), of idle_tasks]
  show ?thesis by (auto simp: idle_tasks_def)
qed

theorem make_transaction_refines_steps_witness:
  "\<exists>s'. semaphore_then_aiorwlock_aqcuire_release (fc_lock example_fc_env) 3
     (make_transaction_body example_settings example_fc_env (JStr ''p'') (JInt 7)) example_fc = (Ret ''hash'', s') \<and>
     tx_path example_settings example_fc_env (example_fc, idle_tasks)
       [Silent, Silent, Silent, Silent, SentTx 3 5, Silent] (s', idle_tasks)"
proof -
  obtain s' where s': "semaphore_then_aiorwlock_aqcuire_release (fc_lock example_fc_env) 3
     (make_transaction_body example_settings example_fc_env (JStr ''p'') (JInt 7)) example_fc = (Ret ''hash'', s')"
    using example_attempt by blast
  from make_transaction_refines_steps[OF s' example_lock(1), of idle_tasks] s'
  show ?thesis by (auto simp: idle_tasks_def)
qed

theorem tasks_nonces_in_sequence_witness:
  "\<exists>d. tx_path example_settings example_fc_env (example_fc, idle_tasks)
      [Silent, Silent, Silent, Silent, SentTx 3 5, Silent] d \<and>
     nonce_run 5 [Silent, Silent, Silent, Silent, SentTx 3 5, Silent]"
proof -
  obtain d where d: "tx_path example_settings example_fc_env (example_fc, idle_tasks)
      [Silent, Silent, Silent, Silent, SentTx 3 5, Silent] d" using example_path by blast
  from tasks_nonces_in_sequence[OF example_lock(1) example_tasks_start d] d show ?thesis by (intro exI[of _ d]) simp
qed

theorem tasks_never_deadlock_witness:
  "\<exists>u lab s' pc. tx_step example_settings example_fc_env (example_fc, idle_tasks(4 := WantSemaphore ResetNonce)) lab
      (s', (idle_tasks(4 := WantSemaphore ResetNonce))(u := pc)) \<and>
     rank pc < rank ((idle_tasks(4 := WantSemaphore ResetNonce)) u)"
proof -
  have "tx_step example_settings example_fc_env (example_fc, idle_tasks) Silent
      (example_fc, idle_tasks(4 := WantSemaphore ResetNonce))"
    by (rule tx_step.start) (simp add: idle_tasks_def)
  then have "tx_path example_settings example_fc_env (example_fc, idle_tasks) [Silent]
      (example_fc, idle_tasks(4 := WantSemaphore ResetNonce))"
    by (rule tx_path.onward[OF _ tx_path.here])
  from tasks_never_deadlock[OF example_lock example_tasks_start this, of 4] show ?thesis by simp
qed

text \<open>A chain that refuses; task 3 fails, and fails again when it is retried.\<close>

definition refusing_fc_env :: "(unit, nat \<times> nat) fc_env" where
  "refusing_fc_env = example_fc_env\<lparr>send_raw_transaction := (\<lambda>r w. (Inl (Exn ValueError ''refused''), w))\<rparr>"

lemma refusing_path:
  assumes "tl_semaphore s = Suc k" and "tl_rwlock s = Some (w, n)" and "n = 0 \<or> w = 3"
  obtains s' where "tx_path example_settings refusing_fc_env (s, idle_tasks)
      [Silent, Silent, Silent, Silent, Failed 3] (s', idle_tasks)"
    and "tl_semaphore s' = k" and "tl_rwlock s' = Some (3, Suc n)"
proof -
  let ?j = "MakeTx (JStr ''p'') (JInt 7)" and ?step = "tx_step example_settings refusing_fc_env"
  let ?at = "\<lambda>pc. idle_tasks(3 := pc)"
  let ?s1 = "s\<lparr>trace := trace s @ [SemaphoreAcquire], tl_semaphore := k\<rparr>"
  let ?s2 = "?s1\<lparr>trace := trace ?s1 @ [WriterLockAcquire], tl_rwlock := Some (3, Suc n)\<rparr>"
  have idle: "idle_tasks(3 := TxIdle) = idle_tasks" by (auto simp: idle_tasks_def)
  have 1: "?step (s, idle_tasks) Silent (s, ?at (WantSemaphore ?j))"
    by (rule tx_step.start) (simp add: idle_tasks_def)
  have 2: "?step (s, ?at (WantSemaphore ?j)) Silent (?s1, ?at (WantLock ?j))"
    using tx_step.permit[where pcs = "?at (WantSemaphore ?j)" and t = 3 and s = s and s' = ?s1 and j = ?j] assms(1)
    by (simp add: acquire_semaphore_def M_defs)
  have "acquire_writer (fc_lock refusing_fc_env) 3 ?s1 = (Ret (), ?s2)"
    using assms(2,3) by (auto simp: acquire_writer_run refusing_fc_env_def example_fc_env_def counting_lock_def)
  then have 3: "?step (?s1, ?at (WantLock ?j)) Silent (?s2, ?at (Entered ?j))"
    using tx_step.lock[where pcs = "?at (WantLock ?j)" and t = 3 and s = ?s1 and s' = ?s2 and j = ?j] by simp
  have 4: "?step (?s2, ?at (Entered ?j)) Silent (?s2, ?at (Writing (JStr ''p'') (JInt 7) (fc_nonce ?s2)))"
    using tx_step.read_nonce[where pcs = "?at (Entered ?j)" and t = 3 and s = ?s2 and p = "JStr ''p''" and e = "JInt 7"]
    by simp
  obtain s' where s': "send_force example_settings refusing_fc_env (fc_nonce ?s2) (fc_gas ?s2) [JStr ''p'', JInt 7] ?s2 =
      (Raise (Exn ValueError ''refused''), s')"
    by (simp add: write_transaction_def M_defs Let_def refusing_fc_env_def fc_env_simps)
  then have 5: "?step (?s2, ?at (Writing (JStr ''p'') (JInt 7) (fc_nonce ?s2))) (Failed 3) (s', idle_tasks)"
    using tx_step.send_error[where pcs = "?at (Writing (JStr ''p'') (JInt 7) (fc_nonce ?s2))" and t = 3
        and s = ?s2 and p = "JStr ''p''" and e = "JInt 7" and n = "fc_nonce ?s2"] idle by simp
  have "tl_semaphore s' = k" "tl_rwlock s' = Some (3, Suc n)"
    using calm_send[OF s'] by (simp_all add: calm_def same_locks_def)
  then show thesis
    by (rule that[OF tx_path.onward[OF 1 tx_path.onward[OF 2 tx_path.onward[OF 3
          tx_path.onward[OF 4 tx_path.onward[OF 5 tx_path.here]]]]]])
qed

lemma path_join:
  "tx_path cfg env c labs d \<Longrightarrow> tx_path cfg env d labs' e \<Longrightarrow> tx_path cfg env c (labs @ labs') e"
  by (induction rule: tx_path.induct) (auto intro: tx_path.onward)

theorem one_failure_stops_all_other_tasks_witness:
  "\<exists>d. tx_path example_settings refusing_fc_env (example_fc, idle_tasks)
      ([Silent, Silent, Silent, Silent] @ Failed 3 # [Silent, Silent, Silent, Silent, Failed 3]) d \<and>
     (\<forall>u. actor (Failed 3) = Some u \<longrightarrow> u = 3)"
proof -
  obtain s1 where s1: "tx_path example_settings refusing_fc_env (example_fc, idle_tasks)
      [Silent, Silent, Silent, Silent, Failed 3] (s1, idle_tasks)" "tl_semaphore s1 = Suc 18" "tl_rwlock s1 = Some (3, 1)"
    by (rule refusing_path[where s = example_fc and k = 19 and w = 0 and n = 0]) simp_all
  obtain s2 where s2: "tx_path example_settings refusing_fc_env (s1, idle_tasks)
      [Silent, Silent, Silent, Silent, Failed 3] (s2, idle_tasks)"
    by (rule refusing_path[OF s1(2,3)]) simp_all
  have path: "tx_path example_settings refusing_fc_env (example_fc, idle_tasks)
      ([Silent, Silent, Silent, Silent] @ Failed 3 # [Silent, Silent, Silent, Silent, Failed 3]) (s2, idle_tasks)"
    using path_join[OF s1(1) s2] by simp
  have lk: "writer_lock (fc_lock refusing_fc_env) counting_depth"
    by (simp add: refusing_fc_env_def example_fc_env_def counting_lock_writer_lock)
  have "tasks_start refusing_fc_env (example_fc, idle_tasks)"
    using example_tasks_start by (simp add: tasks_start_def refusing_fc_env_def)
  from one_failure_stops_all_other_tasks[OF lk this path, of "Failed 3"] path show ?thesis by auto
qed

end
