(* ===== verification/Force_Spec.thy ===== *)
theory Force_Spec
  imports Force_Epochs "HOL-Library.Multiset"
begin

text \<open>
  The records of the force-consensus service as sets: which epochs are pending, and which projects
  were submitted and finalized for which epoch. Reading the events of a range of blocks refines
  the obvious operations on these sets.
\<close>

section \<open>The abstract state\<close>

record fc_abs =
  a_pending :: "json set"
  a_submitted :: "(json \<times> json) set"
  a_finalized :: "(json \<times> json) set"

definition pairs :: "(json \<times> json list) list \<Rightarrow> (json \<times> json) set" where
  "pairs d = {(e, p). p \<in> set (dd_get e d)}"

definition fc_abs_of :: "('w, 'l) force_consensus \<Rightarrow> fc_abs" where
  "fc_abs_of s = \<lparr>a_pending = snd ` set (fc_pending_epochs s), a_submitted = pairs (fc_submitted s),
     a_finalized = pairs (fc_finalized s)\<rparr>"

text \<open>What an event says; an event of another name says nothing.\<close>

datatype fc_event = Released json | Finalized json json | Submitted json json

definition event_of :: "json \<Rightarrow> fc_event option" where
  "event_of evlog =
     (case (json_item ''event'' evlog, event_arg ''epochId'' evlog, event_arg ''projectId'' evlog) of
        (Inr (JStr n), Inr e, pr) \<Rightarrow>
          (if n = ''EpochReleased'' then Some (Released e)
           else (case pr of
                   Inl x \<Rightarrow> None
                 | Inr p \<Rightarrow> (if n = ''SnapshotFinalized'' then Some (Finalized e p)
                            else if n = ''SnapshotSubmitted'' then Some (Submitted e p) else None)))
      | _ \<Rightarrow> None)"

fun abs_event :: "fc_event \<Rightarrow> fc_abs \<Rightarrow> fc_abs" where
  "abs_event (Released e) a = a\<lparr>a_pending := insert e (a_pending a)\<rparr>"
| "abs_event (Finalized e p) a = a\<lparr>a_finalized := insert (e, p) (a_finalized a)\<rparr>"
| "abs_event (Submitted e p) a = a\<lparr>a_submitted := insert (e, p) (a_submitted a)\<rparr>"

definition abs_log :: "json \<Rightarrow> fc_abs \<Rightarrow> fc_abs" where
  "abs_log evlog a = (case event_of evlog of None \<Rightarrow> a | Some ev \<Rightarrow> abs_event ev a)"

lemma abs_event_commute: "abs_event x (abs_event y a) = abs_event y (abs_event x a)"
  by (cases x; cases y) (simp_all add: insert_commute)

lemma abs_log_commute: "abs_log x \<circ> abs_log y = abs_log y \<circ> abs_log x"
  by (auto simp: fun_eq_iff abs_log_def abs_event_commute split: option.split)

lemma abs_event_idem: "abs_event x (abs_event x a) = abs_event x a"
  by (cases x) simp_all

section \<open>Refinement\<close>

lemma dd_get_add: "dd_get e (dd_add k x d) = (if e = k then List.insert x (dd_get e d) else dd_get e d)"
proof -
  have "map_of (dd_touch k d) k \<noteq> None"
    by (auto simp: dd_touch_def map_of_eq_None_iff)
  then obtain xs where "map_of (dd_touch k d) k = Some xs" by blast
  then have "dd_get e (AList.map_entry k (List.insert x) (dd_touch k d)) =
      (if e = k then List.insert x (dd_get e (dd_touch k d)) else dd_get e (dd_touch k d))"
    by (simp add: dd_get_def map_of_map_entry)
  then show ?thesis by (simp add: dd_add_def)
qed

lemma pairs_touch [simp]: "pairs (dd_touch k d) = pairs d"
  by (simp add: pairs_def)

lemma pairs_add [simp]: "pairs (dd_add k x d) = insert (k, x) (pairs d)"
  by (auto simp: pairs_def dd_get_add split: if_splits)

lemma fc_abs_of_released:
  "fc_abs_of (s\<lparr>ext := w, fc_pending_epochs := List.insert (x, e) (fc_pending_epochs s)\<rparr>) =
     abs_event (Released e) (fc_abs_of s)"
  by (simp add: fc_abs_of_def insert_image)

lemma fc_abs_of_finalized:
  "fc_abs_of (s\<lparr>fc_finalized := dd_add e p (dd_touch e (fc_finalized s))\<rparr>) = abs_event (Finalized e p) (fc_abs_of s)"
  by (simp add: fc_abs_of_def)

lemma fc_abs_of_submitted:
  "fc_abs_of (s\<lparr>fc_submitted := dd_add e p (dd_touch e (fc_submitted s))\<rparr>) = abs_event (Submitted e p) (fc_abs_of s)"
  by (simp add: fc_abs_of_def)

lemmas fc_abs_of_event = fc_abs_of_released fc_abs_of_finalized fc_abs_of_submitted

lemma handle_log_refines:
  assumes "handle_log env evlog s = (Ret (), t)"
  shows "fc_abs_of t = abs_log evlog (fc_abs_of s)"
proof -
  from assms obtain n where ev: "json_item ''event'' evlog = Inr n"
    by (cases "json_item ''event'' evlog") (simp_all add: handle_log_def M_defs)
  show ?thesis
  proof (cases "n \<in> {JStr ''EpochReleased'', JStr ''SnapshotFinalized'', JStr ''SnapshotSubmitted''}")
    case False
    with assms ev have "t = s" by (simp add: handle_log_def M_defs)
    moreover have "event_of evlog = None"
      using False ev by (auto simp: event_of_def split: sum.split json.split)
    ultimately show ?thesis by (simp add: abs_log_def)
  next
    case True
    then have "n = JStr ''EpochReleased'' \<or> n = JStr ''SnapshotFinalized'' \<or> n = JStr ''SnapshotSubmitted''"
      by simp
    then show ?thesis
      using assms ev
      by (elim disjE)
         (auto simp: handle_log_def M_defs nowM_def event_of_def abs_log_def fc_abs_of_event
           split: prod.splits sum.splits)
  qed
qed

lemma handle_logs_refine:
  "forM evs (handle_log env) s = (Ret (), t) \<Longrightarrow> fc_abs_of t = fold abs_log evs (fc_abs_of s)"
proof (induction evs arbitrary: s)
  case Nil
  then show ?case by (simp add: returnM_apply)
next
  case (Cons l evs)
  from Cons.prems obtain u where "handle_log env l s = (Ret (), u)" "forM evs (handle_log env) u = (Ret (), t)"
    by (auto elim!: thenM_RetE)
  with handle_log_refines[of env l s u] Cons.IH[of u] show ?case by simp
qed

lemma fold_log_perm: "mset evs = mset evs' \<Longrightarrow> fold abs_log evs = fold abs_log evs'"
  by (rule fold_multiset_equiv) (rule abs_log_commute)

text \<open>
  C14: the handling of a batch of events refines adding what each event says to the sets of pending
  epochs and of submitted and finalized projects. So the order in which the node lists the events
  of a range does not matter, and events that are read twice, as after a failed round, add
  nothing to these sets the second time (the list of pending epochs then holds the epoch under
  both times).
\<close>

theorem events_refine_sets:
  assumes "forM evs (handle_log env) s = (Ret (), t)"
  shows "fc_abs_of t = fold abs_log evs (fc_abs_of s) \<and>
     (\<forall>evs'. mset evs' = mset evs \<longrightarrow> fc_abs_of t = fold abs_log evs' (fc_abs_of s)) \<and>
     fold abs_log evs (fc_abs_of t) = fc_abs_of t"
proof -
  note refine = handle_logs_refine[OF assms]
  have again: "fold abs_log (l # l # ls) a = fold abs_log (l # ls) a" for l ls a
    by (auto simp: abs_log_def abs_event_idem split: option.split)
  have "fold abs_log ls (fold abs_log ls a) = fold abs_log ls a" for ls a
  proof (induction ls arbitrary: a)
    case (Cons l ls)
    have "fold abs_log (l # ls) (fold abs_log (l # ls) a) = fold abs_log ((l # ls) @ (l # ls)) a" by simp
    also have "\<dots> = fold abs_log (l # l # ls @ ls) a"
      using fold_log_perm[of "(l # ls) @ (l # ls)" "l # l # ls @ ls"] by simp
    also have "\<dots> = fold abs_log (l # ls @ ls) a" by (rule again)
    also have "\<dots> = fold abs_log ls (fold abs_log ls (abs_log l a))" by simp
    also have "\<dots> = fold abs_log (l # ls) a" using Cons by simp
    finally show ?case .
  qed simp
  then show ?thesis using refine fold_log_perm[of _ evs] by metis
qed

section \<open>Witness\<close>

definition example_event :: "string \<Rightarrow> json" where
  "example_event n = JObj [(''event'', JStr n), (''args'', JObj [(''epochId'', JInt 9), (''projectId'', JStr ''p'')])]"

lemma events_refine_sets_witness:
  "\<exists>t. let evs = [example_event ''EpochReleased'', example_event ''SnapshotSubmitted'', example_event ''Other'']
   in (fc_abs_of t = fold abs_log evs (fc_abs_of example_fc) \<and>
       (\<forall>evs'. mset evs' = mset evs \<longrightarrow> fc_abs_of t = fold abs_log evs' (fc_abs_of example_fc)) \<and>
       fold abs_log evs (fc_abs_of t) = fc_abs_of t) \<and>
      forM evs (handle_log example_fc_env) example_fc = (Ret (), t) \<and>
      a_pending (fc_abs_of t) = {JInt 7, JInt 8, JInt 9}"
proof -
  let ?evs = "[example_event ''EpochReleased'', example_event ''SnapshotSubmitted'', example_event ''Other'']"
  have "time_time example_fc_env w = (Inr 1000, w)" for w by (simp add: example_fc_env_def)
  then obtain t where t: "forM ?evs (handle_log example_fc_env) example_fc = (Ret (), t)"
    by (simp add: handle_log_def example_event_def event_arg_def M_defs nowM_def)
  note refines = events_refine_sets[OF t]
  note refines
  moreover have "a_pending (fold abs_log ?evs (fc_abs_of example_fc)) = {JInt 7, JInt 8, JInt 9}"
    by (auto simp: fc_abs_of_def abs_log_def example_event_def event_of_def event_arg_def)
  then have "a_pending (fc_abs_of t) = {JInt 7, JInt 8, JInt 9}"
    by (metis refines)
  ultimately show ?thesis
    unfolding Let_def using t by blast
qed

end
