(* ===== verification/Force_Books.thy ===== *)
theory Force_Books
  imports Force_Props
begin

text \<open>
  The records of the force-consensus service are lists where Python has sets and dictionaries. They
  represent such at all times: no key, member or pending epoch is listed twice, and each of them is
  a value that Python can hash.
\<close>

section \<open>Well-formed records\<close>

definition hashable :: "json \<Rightarrow> bool" where
  "hashable j \<longleftrightarrow> hash_check j = Inr ()"

definition py_set :: "json list \<Rightarrow> bool" where
  "py_set xs \<longleftrightarrow> distinct xs \<and> list_all hashable xs"

definition py_dict :: "(json \<times> json list) list \<Rightarrow> bool" where
  "py_dict d \<longleftrightarrow> py_set (map fst d) \<and> list_all (\<lambda>(k, xs). py_set xs) d"

definition books_wf :: "('w, 'l) force_consensus \<Rightarrow> bool" where
  "books_wf s \<longleftrightarrow> distinct (fc_pending_epochs s) \<and> list_all (\<lambda>(t, e). hashable e) (fc_pending_epochs s) \<and>
     py_dict (fc_submitted s) \<and> py_dict (fc_finalized s)"

lemma py_dict_touch: "py_dict d \<Longrightarrow> hashable k \<Longrightarrow> py_dict (dd_touch k d)"
  by (simp add: py_dict_def py_set_def dd_touch_def list_all_iff)

lemma py_set_insert: "py_set xs \<Longrightarrow> hashable x \<Longrightarrow> py_set (List.insert x xs)"
  by (simp add: py_set_def list_all_iff)

lemma keys_map_entry: "map fst (AList.map_entry k f d) = map fst d"
  by (induction d) auto

lemma py_dict_map_entry: "py_dict d \<Longrightarrow> (\<And>xs. py_set xs \<Longrightarrow> py_set (f xs)) \<Longrightarrow> py_dict (AList.map_entry k f d)"
proof -
  assume "py_dict d" and f: "\<And>xs. py_set xs \<Longrightarrow> py_set (f xs)"
  moreover have "list_all (\<lambda>(k, xs). py_set xs) d \<Longrightarrow> list_all (\<lambda>(k, xs). py_set xs) (AList.map_entry k f d)"
    by (induction d) (auto simp: f)
  ultimately show ?thesis by (simp add: py_dict_def keys_map_entry)
qed

lemma py_dict_add: "py_dict d \<Longrightarrow> hashable k \<Longrightarrow> hashable x \<Longrightarrow> py_dict (dd_add k x d)"
  unfolding dd_add_def by (intro py_dict_map_entry py_dict_touch py_set_insert)

lemma py_dict_drop: "py_dict d \<Longrightarrow> hashable k \<Longrightarrow> py_dict (dd_drop k d)"
proof -
  assume d: "py_dict d" "hashable k"
  have "py_dict (AList.delete k d)"
    using d(1) unfolding py_dict_def py_set_def AList.delete_eq by (auto simp: list_all_iff distinct_map_filter)
  with d show "py_dict (dd_drop k d)" by (simp add: dd_drop_def py_dict_touch)
qed

lemma py_dict_touches: "py_dict d \<Longrightarrow> list_all hashable ks \<Longrightarrow> py_dict (foldl (\<lambda>d k. dd_touch k d) d ks)"
  by (induction ks arbitrary: d) (simp_all add: py_dict_touch)

lemma event_arg_hashable: "event_arg key evlog = Inr v \<Longrightarrow> hashable v"
  by (auto simp: event_arg_def hashable_def split: sum.splits)

section \<open>Every operation keeps them well-formed\<close>

abbreviation keeps_books :: "(('w, 'l) force_consensus, 'a) M \<Rightarrow> bool" where
  "keeps_books \<equiv> keepsM (preserves books_wf)"

named_theorems booking "operations that keep the records well-formed"

lemmas [booking] = preserves.keeps_rules preserves.keeps_spawn

lemma books_blind:
  "keepsM (keeps_eq (\<lambda>s :: ('w, 'l) force_consensus. (fc_pending_epochs s, fc_submitted s, fc_finalized s))) m \<Longrightarrow>
     keeps_books m"
  by (erule keepsM_mono) (simp add: keeps_eq_def preserves_def books_wf_def)

lemma books_modify: "(\<And>s. books_wf s \<Longrightarrow> books_wf (f s)) \<Longrightarrow> keeps_books (modifyM f)"
  by (rule preserves_modify)

lemma books_lift:
  "(\<And>a. r = Inr a \<Longrightarrow> keeps_books (f a)) \<Longrightarrow> keeps_books (bindM (liftM r) f)"
  by (cases r) (simp_all add: keepsM_def liftM_def bindM_def preserves_def)

lemma books_now: "keeps_books (nowM env)"
  unfolding nowM_def by (intro books_blind keeping) simp

lemma books_handle_log: "keeps_books (handle_log env evlog)"
  unfolding handle_log_def
  by (intro preserves.keeps_if preserves.keeps_then books_lift preserves.keeps_bind books_now
        books_modify preserves.keeps_return;
      simp add: books_wf_def py_dict_touch py_dict_add event_arg_hashable list_all_iff)

lemma books_get_events:
  assumes "tenacity (retry_events env)"
  shows "keeps_books (get_events cfg env a b)"
proof -
  have "keepsM (keeps_eq (\<lambda>s :: ('a, 'b) force_consensus. (fc_pending_epochs s, fc_submitted s, fc_finalized s)))
      (get_events_logs cfg env addr b a topics abi)" for addr topics abi
    by (rule keeps_beyond[OF more_get_events_logs[OF assms]]) (drule beyond_pool, simp)
  then have logs: "keeps_books (get_events_logs cfg env addr b a topics abi)" for addr topics abi
    by (rule books_blind)
  have "keeps_books (emitM SpawnForceConsensus)" by (intro books_blind keeping) simp
  then show ?thesis
    unfolding get_events_def by (intro booking books_handle_log logs)
qed

lemma books_current_block: "keeps_books (get_current_block env i)"
  by (intro books_blind, rule keeps_beyond[OF more_current_block]) (drule beyond_pool, simp)

lemma books_setup: "keeps_books (fc_setup cfg env)"
  unfolding fc_setup_def fc_init_httpx_client_def Let_def
  by (intro books_blind keeping keeps_eq_logs[OF logs_populate]; simp)

section \<open>Completing epochs\<close>

text \<open>
  The step that completes epochs removes pending epochs and touches and drops entries under keys
  that were pending, which are hashable.
\<close>

lemma collect_due_subset:
  "collect_due cfg env window ps s = (Ret due, t) \<Longrightarrow> set due \<subseteq> set ps"
proof (induction ps arbitrary: s due)
  case (Cons p ps)
  then obtain now u rest where "collect_due cfg env window ps u = (Ret rest, t)"
    "due = (if epoch_due cfg window (fst p) now then p # rest else rest)"
    by (auto elim!: bindM_RetE simp: returnM_def)
  with Cons.IH show ?case by auto
qed (simp add: returnM_apply)

lemma books_epoch_tasks: "hashable e \<Longrightarrow> keeps_books (epoch_tasks env e)"
  unfolding epoch_tasks_def
  by (intro booking books_modify) (simp_all add: books_wf_def py_dict_touch)

lemma books_mapM:
  "(\<And>x. x \<in> set xs \<Longrightarrow> keeps_books (f x)) \<Longrightarrow> keeps_books (mapM f xs)"
  by (induction xs) (auto intro!: preserves.keeps_bind preserves.keeps_return)

lemma books_run_tasks:
  assumes "tenacity (retry_make env)"
  shows "keeps_books (run_tasks cfg env txs)"
  by (rule books_blind, rule books.blind_run_tasks[OF assms]) simp

lemma books_force_complete:
  assumes "tenacity (retry_make env)" and iter: "\<And>ps. set (iter_epochs env ps) = set ps"
  shows "keeps_books (force_complete_consensus cfg env)"
proof (rule keepsMI)
  fix s :: "('a, 'b) force_consensus" and r t
  assume run: "force_complete_consensus cfg env s = (r, t)"
  let ?collect = "collect_due cfg env (fc_submission_window s) (iter_epochs env (fc_pending_epochs s))"
  obtain x u where col: "?collect s = (x, u)" by (cases "?collect s")
  have "keeps_books ?collect" by (rule books_blind, rule books.blind_collect)
  from keepsMD[OF this col] have su: "preserves books_wf s u" .
  show "preserves books_wf s t"
  proof (cases x)
    case (Ret due)
    define rest where "rest = thenM (modifyM (\<lambda>s. s\<lparr>fc_pending_epochs := filter (\<lambda>p. p \<notin> set due) (fc_pending_epochs s)\<rparr>))
      (if map snd due = [] then returnM ()
       else bindM (mapM (epoch_tasks env) (map snd due)) (\<lambda>txn_tasks.
         thenM (run_tasks cfg env (concat txn_tasks))
           (modifyM (\<lambda>s. s\<lparr>fc_finalized := dd_drop (last (map snd due)) (fc_finalized s),
                           fc_submitted := dd_drop (last (map snd due)) (fc_submitted s)\<rparr>))))"
    have "rest u = (r, t)"
      using run
      by (simp add: force_complete_consensus_def rest_def Let_def M_step
          bindM_Ret[where m = ?collect, OF col[unfolded Ret]])
    moreover have "keeps_books rest" if "books_wf s"
    proof -
      have "list_all hashable (map snd due)"
        using that collect_due_subset[OF col[unfolded Ret]] by (fastforce simp: iter books_wf_def list_all_iff)
      then have keys: "\<And>e. e \<in> set (map snd due) \<Longrightarrow> hashable e"
        "due \<noteq> [] \<Longrightarrow> hashable (last (map snd due))" by (auto simp: list_all_iff last_map)
      show ?thesis
        unfolding rest_def
        by (cases "map snd due = []")
           (simp_all only: if_True if_False, (intro preserves.keeps_then preserves.keeps_bind preserves.keeps_return
             books_modify books_mapM books_epoch_tasks books_run_tasks[OF assms(1)];
           use keys in \<open>auto simp: books_wf_def py_dict_drop list_all_iff\<close>)+)
    qed
    ultimately show ?thesis
      using su by (metis keepsMD preserves_def)
  next
    case (Raise e)
    with run col su show ?thesis
      by (simp add: force_complete_consensus_def M_step bindM_Raise[where m = ?collect])
  next
    case Pending
    with run col su show ?thesis
      by (simp add: force_complete_consensus_def M_step bindM_Pending[where m = ?collect])
  qed
qed

section \<open>The whole run\<close>

lemma books_round:
  assumes "tenacity (retry_make env)" and "tenacity (retry_events env)" and "\<And>ps. set (iter_epochs env ps) = set ps"
  shows "keeps_books (fc_round cfg env)"
proof -
  have plain: "keeps_books (load_last_processed env n)" "keeps_books (save_last_processed env n)"
    "keeps_books (poll_sleep cfg env)" for n
    unfolding load_last_processed_def save_last_processed_def poll_sleep_def asyncSleepM_def Let_def
    by (intro books_blind keeping; simp)+
  show ?thesis
    unfolding fc_round_def process_blocks_def
    by (intro booking plain books_get_events[OF assms(2)] books_force_complete[OF assms(1,3)] books_current_block
          books_modify; simp add: books_wf_def)
qed

lemma books_init: "force_consensus_init cfg env w = Inr s \<Longrightarrow> books_wf s"
  by (auto simp: force_consensus_init_def Let_def books_wf_def py_dict_def py_set_def
        tx_locks.defs rpc_helper.defs split: sum.splits prod.splits)

lemma books_run:
  assumes "tenacity (retry_make env)" and "tenacity (retry_events env)" and "\<And>ps. set (iter_epochs env ps) = set ps"
    and "force_consensus_init cfg env w = Inr s" and "fc_run rounds cfg env s = (r, t)"
  shows "books_wf t"
proof -
  have "keeps_books (fc_run rounds cfg env)"
    unfolding fc_run_def by (intro booking books_setup books_round[OF assms(1-3)])
  from keepsMD[OF this assms(5)] books_init[OF assms(4)] show ?thesis by (simp add: preserves_def)
qed

end
