(* ===== verification/Force_Provenance.thy ===== *)
theory Force_Provenance
  imports Force_Spec Force_Books
begin

text \<open>
  Where the records and the transactions of the force-consensus service come from: an event that
  the service was told by a node it asked, in answer to a query for the events of the protocol
  contract. The invariant of this theory goes along with a whole run, whatever nodes, chain and
  Redis answer.
\<close>

section \<open>What the nodes said\<close>

text \<open>
  \<open>node_said cfg env s tr d\<close>: \<open>d\<close> is the decoded form of a log by which a node answered a query
  that is in the history \<open>tr\<close>, for the protocol contract and the event signatures of the service \<open>s\<close>.
  \<open>told\<close>: what such a log says.
\<close>

definition node_said ::
  "settings \<Rightarrow> ('w, 'l) fc_env \<Rightarrow> ('w, 'l) force_consensus \<Rightarrow> event list \<Rightarrow> json \<Rightarrow> bool" where
  "node_said cfg env s tr d \<longleftrightarrow>
     (\<exists>url a b address w w' logs l.
        GetLogs url a b \<in> set tr \<and> to_checksum_address env (protocol_state_address cfg) = Inr address \<and>
        eth_get_logs env url
          (JObj [(''address'', JStr address), (''toBlock'', JInt b), (''fromBlock'', JInt a),
                 (''topics'', JList [JList (map JStr (fc_event_sig s))])]) w = (Inr logs, w') \<and>
        l \<in> set logs \<and> decode_log env (fc_event_abi s) l = Inr d)"

definition told ::
  "settings \<Rightarrow> ('w, 'l) fc_env \<Rightarrow> ('w, 'l) force_consensus \<Rightarrow> event list \<Rightarrow> fc_event \<Rightarrow> bool" where
  "told cfg env s tr ev \<longleftrightarrow> (\<exists>d. node_said cfg env s tr d \<and> event_of d = Some ev)"

lemma node_said_mono: "node_said cfg env s tr d \<Longrightarrow> set tr \<subseteq> set tr' \<Longrightarrow> node_said cfg env s tr' d"
  unfolding node_said_def by blast

lemma told_mono: "told cfg env s tr ev \<Longrightarrow> set tr \<subseteq> set tr' \<Longrightarrow> told cfg env s tr' ev"
  unfolding told_def by (blast intro: node_said_mono)

lemma mapM_lift_Ret:
  assumes "mapM (\<lambda>x. liftM (f x)) xs s = (Ret ys, t)"
  shows "t = s \<and> (\<forall>y \<in> set ys. \<exists>x \<in> set xs. f x = Inr y)"
  using assms
proof (induction xs arbitrary: s ys)
  case Nil
  then show ?case by (simp add: returnM_apply)
next
  case (Cons x xs)
  then obtain y u zs where "liftM (f x) s = (Ret y, u)" "mapM (\<lambda>x. liftM (f x)) xs u = (Ret zs, t)" "ys = y # zs"
    by (auto elim!: bindM_RetE simp: returnM_def)
  moreover from this(1) have "f x = Inr y" "u = s" by (auto simp: liftM_def split: sum.splits)
  ultimately show ?case using Cons.IH by auto
qed

lemma fetch_logs_said:
  assumes "fetch_logs env node query a b abi s = (Ret ds, t)"
  shows "\<exists>url w w' logs. GetLogs url a b \<in> set (trace t) \<and> eth_get_logs env url query w = (Inr logs, w') \<and>
     (\<forall>d \<in> set ds. \<exists>l \<in> set logs. decode_log env abi l = Inr d)"
proof -
  from assms obtain url u v logs where
    call: "callM (GetLogs url a b) (eth_get_logs env url query) u = (Ret logs, v)"
    and map: "mapM (\<lambda>evlog. liftM (decode_log env abi evlog)) logs v = (Ret ds, t)"
    unfolding fetch_logs_def by (auto elim!: bindM_RetE thenM_RetE)
  from call obtain w where "eth_get_logs env url query (ext u) = (Inr logs, w)" "GetLogs url a b \<in> set (trace v)"
    by (cases "eth_get_logs env url query (ext u)"; cases "fst (eth_get_logs env url query (ext u))")
       (auto simp: M_defs)
  with mapM_lift_Ret[OF map] show ?thesis by blast
qed

lemma get_events_logs_said:
  assumes "tenacity (retry_events env)"
    and "get_events_logs cfg env (protocol_state_address cfg) b a (JList [JList (map JStr (fc_event_sig s))])
           (fc_event_abi s) v = (Ret ds, t)"
    and "d \<in> set ds"
  shows "node_said cfg env s (trace t) d"
proof -
  let ?topics = "JList [JList (map JStr (fc_event_sig s))]"
  from assms(2) obtain u where
    "retry_events env is_RPCException (rpc_retry (chain_rpc (st_chain cfg))) on_node_exception
       (get_events_logs_attempt env (protocol_state_address cfg) b a ?topics (fc_event_abi s)) 0 u = (Ret ds, t)"
    unfolding get_events_logs_def by (auto elim!: thenM_RetE)
  from tenacity_Ret_from[where f = "get_events_logs_attempt env (protocol_state_address cfg) b a ?topics (fc_event_abi s)",
      OF assms(1) this] obtain k u' where
    "get_events_logs_attempt env (protocol_state_address cfg) b a ?topics (fc_event_abi s) k u' = (Ret ds, t)"
    by metis
  then obtain node address x where
    address: "to_checksum_address env (protocol_state_address cfg) = Inr address"
    and fetch: "fetch_logs env node (JObj [(''address'', JStr address), (''toBlock'', JInt b), (''fromBlock'', JInt a),
        (''topics'', ?topics)]) a b (fc_event_abi s) x = (Ret ds, t)"
    by (cases "to_checksum_address env (protocol_state_address cfg)")
       (auto simp: get_events_logs_attempt_def Let_def raiseM_def M_step liftM_def elim!: bindM_RetE thenM_RetE tryM_E)
  from fetch_logs_said[OF fetch] assms(3) address show ?thesis
    unfolding node_said_def by blast
qed

section \<open>The records and the transactions come from what the nodes said\<close>

text \<open>All that was told, as a state of \<open>Force_Spec\<close>; the records stay below it.\<close>

definition from_nodes ::
  "settings \<Rightarrow> ('w, 'l) fc_env \<Rightarrow> ('w, 'l) force_consensus \<Rightarrow> event list \<Rightarrow> fc_abs" where
  "from_nodes cfg env s tr =
     \<lparr>a_pending = {e. told cfg env s tr (Released e)},
      a_submitted = {(e, p). told cfg env s tr (Submitted e p)},
      a_finalized = {(e, p). told cfg env s tr (Finalized e p)}\<rparr>"

definition abs_le :: "fc_abs \<Rightarrow> fc_abs \<Rightarrow> bool" where
  "abs_le x y \<longleftrightarrow> a_pending x \<subseteq> a_pending y \<and> a_submitted x \<subseteq> a_submitted y \<and> a_finalized x \<subseteq> a_finalized y"

lemma abs_le_trans: "abs_le x y \<Longrightarrow> abs_le y z \<Longrightarrow> abs_le x z"
  by (auto simp: abs_le_def)

lemma from_nodes_mono: "set tr \<subseteq> set tr' \<Longrightarrow> abs_le (from_nodes cfg env s tr) (from_nodes cfg env s tr')"
  by (auto simp: abs_le_def from_nodes_def intro: told_mono)

lemma abs_event_from_nodes:
  "abs_le a (from_nodes cfg env s tr) \<Longrightarrow> told cfg env s tr ev \<Longrightarrow> abs_le (abs_event ev a) (from_nodes cfg env s tr)"
  by (cases ev) (auto simp: abs_le_def from_nodes_def)

text \<open>A transaction of the service that was called for by what had been told before it.\<close>

definition forced :: "settings \<Rightarrow> ('w, 'l) fc_env \<Rightarrow> ('w, 'l) force_consensus \<Rightarrow> event list \<Rightarrow> txn \<Rightarrow> bool" where
  "forced cfg env s tr tx \<longleftrightarrow> is_force_tx cfg tx \<and>
     (\<exists>p e. tx_args tx = [p, e] \<and> told cfg env s tr (Submitted e p) \<and> told cfg env s tr (Released e))"

lemma forced_mono: "forced cfg env s tr tx \<Longrightarrow> set tr \<subseteq> set tr' \<Longrightarrow> forced cfg env s tr' tx"
  unfolding forced_def by (metis told_mono)

text \<open>The invariant of a run from \<open>s\<close>.\<close>

definition sourced ::
  "settings \<Rightarrow> ('w, 'l) fc_env \<Rightarrow> ('w, 'l) force_consensus \<Rightarrow> ('w, 'l) force_consensus \<Rightarrow> bool" where
  "sourced cfg env s t \<longleftrightarrow> fc_event_sig t = fc_event_sig s \<and> fc_event_abi t = fc_event_abi s \<and>
     abs_le (fc_abs_of t) (from_nodes cfg env s (trace t)) \<and>
     (\<forall>before tx after. trace t = before @ TxSubmit tx # after \<longrightarrow> forced cfg env s before tx)"

abbreviation fc_records :: "('w, 'l) force_consensus \<Rightarrow> _" where
  "fc_records s \<equiv> (fc_event_sig s, fc_event_abi s, fc_pending_epochs s, fc_submitted s, fc_finalized s)"

lemma sourced_grows:
  assumes "sourced cfg env s u" and "fc_event_sig t = fc_event_sig u" and "fc_event_abi t = fc_event_abi u"
    and "abs_le (fc_abs_of t) (fc_abs_of u)" and "trace t = trace u @ evs"
    and "\<And>tx. tx \<in> set (submitted evs) \<Longrightarrow> forced cfg env s (trace u) tx"
  shows "sourced cfg env s t"
proof -
  have sub: "set (trace u) \<subseteq> set (trace t)" by (simp add: assms(5))
  from assms(1) have "abs_le (fc_abs_of u) (from_nodes cfg env s (trace u))" by (simp add: sourced_def)
  with assms(4) from_nodes_mono[OF sub] have "abs_le (fc_abs_of t) (from_nodes cfg env s (trace t))"
    by (blast intro: abs_le_trans)
  moreover have "forced cfg env s before tx" if at: "trace t = before @ TxSubmit tx # after" for before tx after
  proof -
    from at have "trace u @ evs = before @ TxSubmit tx # after" by (simp add: assms(5))
    then consider vs where "trace u = before @ TxSubmit tx # vs" | vs where "before = trace u @ vs" "evs = vs @ TxSubmit tx # after"
      by (auto simp: append_eq_append_conv2 append_eq_Cons_conv)
    then show ?thesis
    proof cases
      case 1
      with assms(1) show ?thesis by (simp add: sourced_def)
    next
      case 2
      then have "forced cfg env s (trace u) tx" by (intro assms(6)) (simp add: in_submitted)
      then show ?thesis by (rule forced_mono) (simp add: 2)
    qed
  qed
  ultimately show ?thesis using assms(1-3) by (simp add: sourced_def)
qed

lemma sourced_quiet:
  assumes "keepsM (keeps_eq fc_records) m" and "keepsM (grows (\<lambda>ev. \<not> is_submit ev)) m"
  shows "keepsM (preserves (sourced cfg env s)) m"
proof (rule keepsMI)
  fix u r t
  assume run: "m u = (r, t)"
  from keeps_eqD[OF assms(1) run] have eq: "fc_records t = fc_records u" .
  from growsE[OF assms(2) run] obtain evs where evs: "trace t = trace u @ evs" "list_all (\<lambda>ev. \<not> is_submit ev) evs" .
  from eq have "abs_le (fc_abs_of t) (fc_abs_of u)" by (simp add: abs_le_def fc_abs_of_def)
  with eq evs show "preserves (sourced cfg env s) u t"
    by (auto simp: preserves_def submitted_none intro: sourced_grows)
qed

lemma fc_records_beyond:
  fixes s t :: "('w, 'l) force_consensus"
  assumes "rpc_helper.more t = rpc_helper.more s"
  shows "fc_records t = fc_records s"
  using assms by (cases s, cases t) simp

text \<open>Reading events.\<close>

lemma handle_log_abs:
  assumes "handle_log env d s = (r, t)"
  shows "fc_abs_of t \<in> insert (fc_abs_of s) {abs_event ev (fc_abs_of s) | ev. event_of d = Some ev}"
proof (cases "json_item ''event'' d")
  case (Inl e)
  with assms show ?thesis by (simp add: handle_log_def M_defs)
next
  case (Inr n)
  show ?thesis
  proof (cases "n \<in> {JStr ''EpochReleased'', JStr ''SnapshotFinalized'', JStr ''SnapshotSubmitted''}")
    case False
    with assms Inr have "t = s" by (simp add: handle_log_def M_defs)
    then show ?thesis by simp
  next
    case True
    then consider "n = JStr ''EpochReleased''" | "n = JStr ''SnapshotFinalized''" | "n = JStr ''SnapshotSubmitted''"
      by blast
    then show ?thesis
      using assms Inr
      by cases
         (auto simp: handle_log_def M_defs nowM_def event_of_def fc_abs_of_event fc_abs_of_def
           split: prod.splits sum.splits res.splits)
  qed
qed


lemma handle_log_sourced:
  assumes "sourced cfg env s u" and "node_said cfg env s (trace u) d" and "handle_log env d u = (r, t)"
  shows "sourced cfg env s t" and "trace t = trace u"
proof -
  from growsE[OF pool_handle_log[where P = "\<lambda>ev. False"] assms(3)] obtain evs where
    "trace t = trace u @ evs" "list_all (\<lambda>ev. False) evs" .
  then show trace: "trace t = trace u" by (cases evs) simp_all
  have "keepsM (keeps_eq fc_event_sig) (handle_log env d)"
    unfolding handle_log_def nowM_def by (intro keeping; simp)
  from keeps_eqD[OF this assms(3)] have sig: "fc_event_sig t = fc_event_sig u" .
  have "keepsM (keeps_eq fc_event_abi) (handle_log env d)"
    unfolding handle_log_def nowM_def by (intro keeping; simp)
  from keeps_eqD[OF this assms(3)] have abi: "fc_event_abi t = fc_event_abi u" .
  from assms(1) have le: "abs_le (fc_abs_of u) (from_nodes cfg env s (trace u))" by (simp add: sourced_def)
  from assms(2) have "told cfg env s (trace u) ev" if "event_of d = Some ev" for ev
    using that by (auto simp: told_def)
  then have "abs_le (fc_abs_of t) (from_nodes cfg env s (trace u))"
    using handle_log_abs[OF assms(3)] le by (auto intro: abs_event_from_nodes)
  with assms(1) sig abi trace show "sourced cfg env s t" by (simp add: sourced_def)
qed

lemma get_events_sourced:
  assumes "tenacity (retry_events env)"
  shows "keepsM (preserves (sourced cfg env s)) (get_events cfg env a b)"
proof -
  let ?logs = "get_events_logs cfg env (protocol_state_address cfg) b a
      (JList [JList (map JStr (fc_event_sig s))]) (fc_event_abi s)"
  have "keepsM (keeps_eq fc_records) ?logs"
    by (rule keeps_beyond[OF more_get_events_logs[OF assms]]) (metis fc_records_beyond)
  moreover have "keepsM (grows (\<lambda>ev. \<not> is_submit ev)) ?logs"
    using pool_get_events_logs[OF assms] by (rule keepsM_mono) (auto simp: grows_def elim!: list.pred_mono_strong)
  ultimately have logs: "keepsM (preserves (sourced cfg env s)) ?logs" by (rule sourced_quiet)
  have each: "hoareM (\<lambda>u. sourced cfg env s u \<and> (\<forall>d \<in> set ds. node_said cfg env s (trace u) d))
      (forM ds (handle_log env))
      (\<lambda>_ u. sourced cfg env s u \<and> (\<forall>d \<in> set ds. node_said cfg env s (trace u) d)) (sourced cfg env s)" for ds
    by (rule hoare_for, rule hoareMI) (auto dest: handle_log_sourced)
  have emit: "keepsM (preserves (sourced cfg env s)) (emitM SpawnForceConsensus)"
    by (rule sourced_quiet) (intro keeping growing; simp)+
  have said: "hoareM (sourced cfg env s) ?logs
      (\<lambda>ds u. sourced cfg env s u \<and> (\<forall>d \<in> set ds. node_said cfg env s (trace u) d)) (sourced cfg env s)"
    using keepsMD[OF logs] get_events_logs_said[OF assms] by (intro hoareMI) (auto simp: preserves_def)
  have "hoareM (sourced cfg env s)
      (thenM (bindM (getsM fc_writer) (\<lambda>w. liftM (the_pool w)))
        (bindM ?logs (\<lambda>ds. thenM (forM ds (handle_log env)) (emitM SpawnForceConsensus))))
      (\<lambda>_. sourced cfg env s) (sourced cfg env s)"
  proof (rule hoare_then[OF _ hoare_bind[OF said hoare_then[OF each]]])
    show "hoareM (sourced cfg env s) (bindM (getsM fc_writer) (\<lambda>w. liftM (the_pool w)))
        (\<lambda>_. sourced cfg env s) (sourced cfg env s)"
      by (intro hoare_preserves preserves.keeps_rules)
    show "hoareM (\<lambda>u. sourced cfg env s u \<and> (\<forall>d\<in>set ds. node_said cfg env s (trace u) d))
        (emitM SpawnForceConsensus) (\<lambda>_. sourced cfg env s) (sourced cfg env s)" for ds
      by (rule hoareM_conseq[OF hoare_preserves[OF emit]]) simp_all
  qed
  note body = this
  show ?thesis
  proof (rule keepsMI)
    fix u r t
    assume run: "get_events cfg env a b u = (r, t)"
    have "sourced cfg env s t" if "sourced cfg env s u"
      using body that
    proof (rule hoareM_any)
      from that have "fc_event_sig u = fc_event_sig s" "fc_event_abi u = fc_event_abi s" by (simp_all add: sourced_def)
      with run show "thenM (bindM (getsM fc_writer) (\<lambda>w. liftM (the_pool w)))
        (bindM ?logs (\<lambda>ds. thenM (forM ds (handle_log env)) (emitM SpawnForceConsensus))) u = (r, t)"
        by (simp add: get_events_def M_step)
    qed
    then show "preserves (sourced cfg env s) u t" by (simp add: preserves_def)
  qed
qed

text \<open>Completing epochs.\<close>

interpretation events: tx_blind "\<lambda>s :: ('w, 'l) force_consensus. (fc_event_sig s, fc_event_abi s)"
  by unfold_locales simp_all

lemma events_complete:
  assumes "tenacity (retry_make env)"
  shows "keepsM (keeps_eq (\<lambda>s :: ('w, 'l) force_consensus. (fc_event_sig s, fc_event_abi s)))
           (force_complete_consensus cfg env)"
  unfolding force_complete_consensus_def epoch_tasks_def Let_def
  by (intro keeping events.blind_collect events.blind_run_tasks[OF assms]; simp)

lemma force_complete_sourced:
  assumes "tenacity (retry_make env)"
    and "\<And>ps. set (iter_epochs env ps) = set ps" and "\<And>ps. set (iter_projects env ps) = set ps"
  shows "keepsM (preserves (sourced cfg env s)) (force_complete_consensus cfg env)"
proof (rule keepsMI)
  fix u r t
  assume run: "force_complete_consensus cfg env u = (r, t)"
  from keeps_eqD[OF events_complete[OF assms(1)] run]
  have sig: "fc_event_sig t = fc_event_sig u" "fc_event_abi t = fc_event_abi u" by simp_all
  have "sourced cfg env s t" if u: "sourced cfg env s u"
    using run
  proof (cases rule: force_complete_cases)
    case (clock w)
    with u show ?thesis by (simp add: sourced_def fc_abs_of_def)
  next
    case (collected due w)
    from due_run[OF assms(1) collected(2)] obtain evs where evs: "trace t = trace u @ evs"
      and tx: "\<And>tx. tx \<in> set (submitted evs) \<Longrightarrow> \<exists>p e. (p, e) \<in> set (due_tasks env due u) \<and> tx_args tx = [p, e]"
      and pending: "fc_pending_epochs t = filter (\<lambda>p. p \<notin> set due) (fc_pending_epochs u)"
      and books: "\<And>k. dd_get k (fc_submitted t) \<in> {dd_get k (fc_submitted u), []} \<and>
           dd_get k (fc_finalized t) \<in> {dd_get k (fc_finalized u), []}" by metis
    from growsE[OF force_complete[OF assms(1)] run] obtain evs' where
      "trace t = trace u @ evs'" "list_all (only_force cfg) evs'" .
    with evs have force: "is_force_tx cfg tx" if "tx \<in> set (submitted evs)" for tx
      using that by (auto simp: list_all_iff in_submitted)
    have records: "abs_le (fc_abs_of u) (from_nodes cfg env s (trace u))" using u by (simp add: sourced_def)
    have "set (dd_get k (fc_submitted t)) \<subseteq> set (dd_get k (fc_submitted u)) \<and>
        set (dd_get k (fc_finalized t)) \<subseteq> set (dd_get k (fc_finalized u))" for k
      using books[of k] by auto
    then have "abs_le (fc_abs_of t) (fc_abs_of u)"
      using pending by (auto simp: abs_le_def fc_abs_of_def pairs_def)
    moreover have "forced cfg env s (trace u) tx" if new: "tx \<in> set (submitted evs)" for tx
    proof -
      from tx[OF new] obtain p e where pe: "(p, e) \<in> set (due_tasks env due u)" "tx_args tx = [p, e]" by blast
      then have "e \<in> a_pending (fc_abs_of u)" "(e, p) \<in> a_submitted (fc_abs_of u)"
        using collect_due_subset[OF collected(1)]
        by (auto simp: due_tasks_def fc_abs_of_def pairs_def open_projects_def assms(2,3))
      with records have "told cfg env s (trace u) (Released e)" "told cfg env s (trace u) (Submitted e p)"
        by (auto simp: abs_le_def from_nodes_def)
      with force[OF new] pe(2) show ?thesis by (auto simp: forced_def)
    qed
    ultimately show ?thesis using u sig evs by (intro sourced_grows[OF u])
  qed
  then show "preserves (sourced cfg env s) u t" by (simp add: preserves_def)
qed

section \<open>The whole run\<close>

lemma sourced_run:
  assumes "tenacity (retry_make env)" and "tenacity (retry_events env)"
    and "\<And>ps. set (iter_epochs env ps) = set ps" and "\<And>ps. set (iter_projects env ps) = set ps"
  shows "keepsM (preserves (sourced cfg env s)) (fc_run rounds cfg env)"
proof -
  have quiet: "keepsM (preserves (sourced cfg env s)) (fc_setup cfg env)"
    "keepsM (preserves (sourced cfg env s)) (load_last_processed env n)"
    "keepsM (preserves (sourced cfg env s)) (save_last_processed env n)"
    "keepsM (preserves (sourced cfg env s)) (poll_sleep cfg env)"
    "keepsM (preserves (sourced cfg env s)) (modifyM (\<lambda>s. s\<lparr>fc_last_processed_block := f s\<rparr>))" for n f
    unfolding fc_setup_def fc_init_httpx_client_def load_last_processed_def save_last_processed_def poll_sleep_def
      asyncSleepM_def Let_def
    by (rule sourced_quiet; (intro keeping growing keeps_eq_logs[OF logs_populate] grows_of_logs[OF logs_populate]; simp))+
  have "keepsM (keeps_eq fc_records) (get_current_block env i)" for i
    by (rule keeps_beyond[OF more_current_block]) (metis fc_records_beyond)
  then have head: "keepsM (preserves (sourced cfg env s)) (get_current_block env i)" for i
    by (rule sourced_quiet) (rule pool_quiet[OF pool_get_current_block])
  show ?thesis
    unfolding fc_run_def fc_round_def process_blocks_def
    by (intro preserves.keeps_rules preserves.keeps_spawn quiet head get_events_sourced[OF assms(2)]
        force_complete_sourced[OF assms(1,3,4)])
qed

lemma sourced_init:
  assumes "force_consensus_init cfg env w = Inr s"
  shows "sourced cfg env s s"
  using assms
  by (auto simp: force_consensus_init_def Let_def sourced_def abs_le_def fc_abs_of_def pairs_def dd_get_def rpc_helper_init_def
      tx_locks.defs rpc_helper.defs split: sum.splits prod.splits)

text \<open>
  C4: whatever the nodes, the chain and Redis answer, and for any number of rounds from the start
  of the service, all that it submits are calls of \<^verbatim>\<open>forceCompleteConsensusSnapshot\<close> from its own
  account, with its gas limit and chain id. The arguments are a project and an epoch, in this order,
  such that a node had said before, in answer to a query of the service, that the epoch was released
  and that the project was submitted for it.
\<close>

theorem fc_run_submits_force_only:
  assumes "tenacity (retry_make env)" and "tenacity (retry_events env)"
    and "\<And>ps. set (iter_epochs env ps) = set ps" and "\<And>ps. set (iter_projects env ps) = set ps"
    and "force_consensus_init cfg env w = Inr s" and "fc_run rounds cfg env s = (r, t)"
  shows "\<forall>before tx after. trace t = before @ TxSubmit tx # after \<longrightarrow> is_force_tx cfg tx \<and>
     (\<exists>project epochId. tx_args tx = [project, epochId] \<and>
        told cfg env s before (Submitted epochId project) \<and> told cfg env s before (Released epochId))"
proof -
  have "sourced cfg env s t"
    using keepsMD[OF sourced_run[OF assms(1-4), where s = s] assms(6)] sourced_init[OF assms(5)]
    by (simp add: preserves_def)
  then show ?thesis unfolding sourced_def forced_def by blast
qed

text \<open>
  C16: whatever the nodes, the chain and Redis answer, and for any number of rounds, the service
  holds nothing that it was not told: a pending epoch was released, a project in the record of
  submitted ones was submitted and one in the record of finalized ones finalized for that epoch, as
  a node said in answer to a query. And the records stay what Python's sets and dictionaries are: no
  pending epoch, no key and no project of an entry occurs twice, and all of them can be hashed.
\<close>

theorem fc_run_keeps_books:
  assumes "tenacity (retry_make env)" and "tenacity (retry_events env)"
    and "\<And>ps. set (iter_epochs env ps) = set ps" and "\<And>ps. set (iter_projects env ps) = set ps"
    and "force_consensus_init cfg env w = Inr s" and "fc_run rounds cfg env s = (r, t)"
  shows "(\<forall>(release_time, e) \<in> set (fc_pending_epochs t). told cfg env s (trace t) (Released e)) \<and>
     (\<forall>e. \<forall>p \<in> set (dd_get e (fc_submitted t)). told cfg env s (trace t) (Submitted e p)) \<and>
     (\<forall>e. \<forall>p \<in> set (dd_get e (fc_finalized t)). told cfg env s (trace t) (Finalized e p)) \<and>
     distinct (fc_pending_epochs t) \<and> list_all (\<lambda>(t, e). hashable e) (fc_pending_epochs t) \<and>
     py_dict (fc_submitted t) \<and> py_dict (fc_finalized t)"
proof -
  have "sourced cfg env s t"
    using keepsMD[OF sourced_run[OF assms(1-4), where s = s] assms(6)] sourced_init[OF assms(5)]
    by (simp add: preserves_def)
  moreover have "books_wf t" by (rule books_run[OF assms(1-3,5,6)])
  ultimately show ?thesis
    by (force simp: sourced_def books_wf_def abs_le_def from_nodes_def fc_abs_of_def pairs_def)
qed


section \<open>Witnesses\<close>

text \<open>The nodes say of every range that epoch 7 was released and a project submitted for it.\<close>

definition new_epoch :: json where
  "new_epoch = JObj [(''topics'', JList [JStr ''0xaa'']), (''event'', JStr ''EpochReleased''),
     (''args'', JObj [(''epochId'', JInt 7)])]"

definition new_submission :: json where
  "new_submission = JObj [(''topics'', JList [JStr ''0xaa'']), (''event'', JStr ''SnapshotSubmitted''),
     (''args'', JObj [(''epochId'', JInt 7), (''projectId'', JStr ''new'')])]"

definition telling_env :: "(unit, nat \<times> nat) fc_env" where
  "telling_env = example_fc_env\<lparr>eth_get_logs := (\<lambda>u q w. (Inr [new_epoch, new_submission], w))\<rparr>"

lemma telling_env_simps:
  "tenacity (retry_events telling_env)" "tenacity (retry_make telling_env)" "iter_epochs telling_env ps = ps"
  "iter_projects telling_env xs = xs" "event_abi_of telling_env = (\<lambda>n. Inr (JStr n))"
  "get_event_data telling_env abi evlog = Inr evlog" "eth_get_logs telling_env u q w = (Inr [new_epoch, new_submission], w)"
  by (simp_all add: telling_env_def fc_env_simps plain_retry_tenacity)

lemma telling_init: "\<exists>s. force_consensus_init example_settings telling_env () = Inr s"
  by (simp add: force_consensus_init_def telling_env_simps Let_def split: prod.split)

lemma telling_events:
  "event_of new_epoch = Some (Released (JInt 7))"
  "event_of new_submission = Some (Submitted (JInt 7) (JStr ''new''))"
  by (simp_all add: new_epoch_def new_submission_def event_of_def event_arg_def)

lemma told_telling:
  assumes "told example_settings telling_env s tr ev"
  shows "ev \<in> {Released (JInt 7), Submitted (JInt 7) (JStr ''new'')}"
proof -
  from assms obtain d l where l: "l \<in> {new_epoch, new_submission}" "decode_log telling_env (fc_event_abi s) l = Inr d"
    and "event_of d = Some ev"
    by (auto simp: told_def node_said_def telling_env_simps)
  moreover from l(2) have "d = l"
    by (cases "log_topic l") (simp_all add: decode_log_def telling_env_simps)
  ultimately have "d \<in> {new_epoch, new_submission}" "event_of d = Some ev" by simp_all
  then show ?thesis by (auto simp: telling_events)
qed

theorem fc_run_submits_force_only_witness:
  "\<exists>s. force_consensus_init example_settings telling_env () = Inr s \<and>
     (\<forall>tx \<in> set (submitted (trace (snd (fc_run 3 example_settings telling_env s)))).
        is_force_tx example_settings tx \<and> tx_args tx = [JStr ''new'', JInt 7])"
proof -
  obtain s where init: "force_consensus_init example_settings telling_env () = Inr s"
    using telling_init by blast
  have "tenacity (retry_make telling_env)" "tenacity (retry_events telling_env)"
    "set (iter_epochs telling_env ps) = set ps" "set (iter_projects telling_env xs) = set xs" for ps xs
    by (simp_all add: telling_env_simps)
  note run = fc_run_submits_force_only[OF this init prod.collapse[symmetric], of 3]
  have "is_force_tx example_settings tx \<and> tx_args tx = [JStr ''new'', JInt 7]"
    if "tx \<in> set (submitted (trace (snd (fc_run 3 example_settings telling_env s))))" for tx
  proof -
    from that obtain before after where
      "trace (snd (fc_run 3 example_settings telling_env s)) = before @ TxSubmit tx # after"
      unfolding in_submitted by (metis split_list)
    from run[rule_format, OF this] obtain p e where "is_force_tx example_settings tx" "tx_args tx = [p, e]"
      and told: "told example_settings telling_env s before (Submitted e p)" by blast
    with told_telling[OF told] show ?thesis by simp
  qed
  with init show ?thesis by blast
qed

theorem fc_run_keeps_books_witness:
  "\<exists>s t. force_consensus_init example_settings telling_env () = Inr s \<and>
     snd (fc_run 3 example_settings telling_env s) = t \<and> snd ` set (fc_pending_epochs t) \<subseteq> {JInt 7} \<and>
     set (dd_get (JInt 7) (fc_submitted t)) \<subseteq> {JStr ''new''} \<and> dd_get (JInt 7) (fc_finalized t) = [] \<and>
     py_dict (fc_submitted t) \<and> py_dict (fc_finalized t)"
proof -
  obtain s where init: "force_consensus_init example_settings telling_env () = Inr s"
    using telling_init by blast
  define t where "t = snd (fc_run 3 example_settings telling_env s)"
  have "tenacity (retry_make telling_env)" "tenacity (retry_events telling_env)"
    "set (iter_epochs telling_env ps) = set ps" "set (iter_projects telling_env xs) = set xs" for ps xs
    by (simp_all add: telling_env_simps)
  note books = fc_run_keeps_books[OF this init prod.collapse[symmetric], of 3, folded t_def]
  have "e = JInt 7" if "(rt, e) \<in> set (fc_pending_epochs t)" for rt e
    using told_telling[of s "trace t" "Released e"] books that by auto
  moreover have "p = JStr ''new''" if "p \<in> set (dd_get (JInt 7) (fc_submitted t))" for p
    using told_telling[of s "trace t" "Submitted (JInt 7) p"] books that by auto
  moreover have "p \<notin> set (dd_get (JInt 7) (fc_finalized t))" for p
    using told_telling[of s "trace t" "Finalized (JInt 7) p"] books by auto
  then have "dd_get (JInt 7) (fc_finalized t) = []" by (cases "dd_get (JInt 7) (fc_finalized t)") auto
  ultimately show ?thesis
    using books init t_def by (intro exI[of _ s] exI[of _ t]) auto
qed

end
