(* ===== verification/Force_Rounds.thy ===== *)
theory Force_Rounds
  imports Force_Spec
begin

text \<open>
  A round of the force-consensus service as a whole, when everything it talks to works: reading the
  events, keeping the books, saving the marker and completing the epochs that are due.
\<close>

section \<open>Events that can be read\<close>

definition readable :: "json \<Rightarrow> bool" where
  "readable evlog \<longleftrightarrow>
     (\<exists>n. json_item ''event'' evlog = Inr n \<and>
        (n \<in> {JStr ''EpochReleased'', JStr ''SnapshotFinalized'', JStr ''SnapshotSubmitted''} \<longrightarrow>
           (\<exists>e. event_arg ''epochId'' evlog = Inr e)) \<and>
        (n \<in> {JStr ''SnapshotFinalized'', JStr ''SnapshotSubmitted''} \<longrightarrow>
           (\<exists>p. event_arg ''projectId'' evlog = Inr p)))"

definition released :: "json list \<Rightarrow> json set" where
  "released evs = {e. \<exists>l \<in> set evs. event_of l = Some (Released e)}"

lemma handle_log_readable:
  assumes "readable evlog" and "clock_at env now P" and "P (ext s)"
  shows "\<exists>t. handle_log env evlog s = (Ret (), t) \<and>
     set (fc_pending_epochs t) = set (fc_pending_epochs s) \<union> {(now, e) | e. e \<in> released [evlog]} \<and> P (ext t)"
proof -
  from assms(1) obtain n where n: "json_item ''event'' evlog = Inr n"
    "n \<in> {JStr ''EpochReleased'', JStr ''SnapshotFinalized'', JStr ''SnapshotSubmitted''} \<Longrightarrow> \<exists>e. event_arg ''epochId'' evlog = Inr e"
    "n \<in> {JStr ''SnapshotFinalized'', JStr ''SnapshotSubmitted''} \<Longrightarrow> \<exists>p. event_arg ''projectId'' evlog = Inr p"
    unfolding readable_def by blast
  from assms(2,3) obtain w where w: "time_time env (ext s) = (Inr now, w)" "P w" unfolding clock_at_def by blast
  consider (released) "n = JStr ''EpochReleased''" | (finalized) "n = JStr ''SnapshotFinalized''"
    | (submitted) "n = JStr ''SnapshotSubmitted''"
    | (other) "n \<notin> {JStr ''EpochReleased'', JStr ''SnapshotFinalized'', JStr ''SnapshotSubmitted''}" by blast
  then show ?thesis
  proof cases
    case released
    with n obtain e where "event_arg ''epochId'' evlog = Inr e" by blast
    with n(1) released w show ?thesis
      by (auto simp: handle_log_def M_defs nowM_def released_def event_of_def)
  next
    case finalized
    with n obtain e p where "event_arg ''epochId'' evlog = Inr e" "event_arg ''projectId'' evlog = Inr p" by blast
    with n(1) finalized assms(3) show ?thesis
      by (simp add: handle_log_def M_defs released_def event_of_def)
  next
    case submitted
    with n obtain e p where "event_arg ''epochId'' evlog = Inr e" "event_arg ''projectId'' evlog = Inr p" by blast
    with n(1) submitted assms(3) show ?thesis
      by (simp add: handle_log_def M_defs released_def event_of_def)
  next
    case other
    then have "event_of evlog = None"
      using n(1) by (auto simp: event_of_def split: sum.split json.split)
    with n(1) other assms(3) show ?thesis
      by (simp add: handle_log_def M_defs released_def)
  qed
qed

lemma handle_logs_readable:
  assumes "\<forall>l \<in> set evs. readable l" and "clock_at env now P" and "P (ext s)"
  shows "\<exists>t. forM evs (handle_log env) s = (Ret (), t) \<and>
     set (fc_pending_epochs t) = set (fc_pending_epochs s) \<union> {(now, e) | e. e \<in> released evs} \<and> P (ext t)"
  using assms(1,3)
proof (induction evs arbitrary: s)
  case Nil
  then show ?case by (simp add: returnM_apply released_def)
next
  case (Cons l evs)
  then have "readable l" by simp
  from handle_log_readable[where P = P, OF this assms(2) Cons.prems(2)] obtain u where
    u: "handle_log env l s = (Ret (), u)" "P (ext u)"
      "set (fc_pending_epochs u) = set (fc_pending_epochs s) \<union> {(now, e) | e. e \<in> released [l]}" by blast
  from Cons.prems have "\<forall>l \<in> set evs. readable l" by simp
  from Cons.IH[OF this u(2)] obtain t where
    t: "forM evs (handle_log env) u = (Ret (), t)" "P (ext t)"
      "set (fc_pending_epochs t) = set (fc_pending_epochs u) \<union> {(now, e) | e. e \<in> released evs}" by blast
  have "released (l # evs) = released [l] \<union> released evs" by (auto simp: released_def)
  with u t show ?case
    by (auto simp: thenM_Ret[where m = "handle_log env l", OF u(1)])
qed

abbreviation kept :: "('w, 'l) force_consensus \<Rightarrow> nat \<times> 'l option \<times> int \<times> int \<times> int \<times> redis_handle option" where
  "kept s \<equiv> (tl_semaphore s, tl_rwlock s, fc_nonce s, fc_submission_window s, fc_last_processed_block s, fc_writer s)"

lemma kept_handle_log: "keepsM (keeps_eq kept) (handle_log env evlog)"
  unfolding handle_log_def nowM_def by (intro keeping; simp)

lemma kept_get_events_logs:
  assumes "tenacity (retry_events env)"
  shows "keepsM (keeps_eq (\<lambda>s. (kept s, fc_abs_of s, fc_pending_epochs s))) (get_events_logs cfg env addr b a topics abi)"
proof (rule keeps_beyond[OF more_get_events_logs[OF assms]])
  fix s t :: "('a, 'b) force_consensus"
  assume "rpc_helper.more t = rpc_helper.more s"
  then show "(kept t, fc_abs_of t, fc_pending_epochs t) = (kept s, fc_abs_of s, fc_pending_epochs s)"
    by (cases s, cases t) (simp add: fc_abs_of_def)
qed

lemma open_projects_abs:
  "p \<in> set (open_projects s e) \<longleftrightarrow> (e, p) \<in> a_submitted (fc_abs_of s) \<and> (e, p) \<notin> a_finalized (fc_abs_of s)"
  by (simp add: open_projects_def fc_abs_of_def pairs_def)

section \<open>What stays pending\<close>

lemma force_complete_pending:
  assumes "tenacity (retry_make env)" and clock: "clock_at env now P" "P (ext s)"
    and iter: "\<And>ps. set (iter_epochs env ps) = set ps"
    and run: "force_complete_consensus cfg env s = (r, t)"
  shows "set (fc_pending_epochs t) =
     {q \<in> set (fc_pending_epochs s). \<not> epoch_due cfg (fc_submission_window s) (fst q) now}"
proof -
  obtain u where col: "collect_due cfg env (fc_submission_window s) (iter_epochs env (fc_pending_epochs s)) s =
      (Ret (filter (\<lambda>q. epoch_due cfg (fc_submission_window s) (fst q) now) (iter_epochs env (fc_pending_epochs s))), u)"
    using collect_due_frozen[where P = P, OF clock] by blast
  from run show ?thesis
  proof (cases rule: force_complete_cases)
    case (clock w)
    with col show ?thesis by blast
  next
    case (collected due w)
    with col have due: "due = filter (\<lambda>q. epoch_due cfg (fc_submission_window s) (fst q) now)
        (iter_epochs env (fc_pending_epochs s))" by simp
    have "keepsM (keeps_eq (fc_pending_epochs :: ('a, 'b) force_consensus \<Rightarrow> _))
        (if due = [] then returnM ()
         else thenM (run_tasks cfg env (due_tasks env due s)) (modifyM (drop_entries (snd (last due)))))"
      by (cases "due = []")
         (simp_all, (intro keeping pending.blind_run_tasks[OF assms(1)]; simp add: drop_entries_def)+)
    from keeps_eqD[OF this collected(2)] show ?thesis
      by (auto simp: due iter)
  qed
qed

text \<open>The step leaves the records of the epochs that are not due alone, and the fields set up once.\<close>

lemma force_complete_others:
  assumes "tenacity (retry_make env)" and "clock_at env now P" "P (ext s)"
    and "\<And>ps. set (iter_epochs env ps) = set ps"
    and "force_complete_consensus cfg env s = (Ret (), t)"
    and "e \<notin> snd ` {q \<in> set (fc_pending_epochs s). epoch_due cfg (fc_submission_window s) (fst q) now}"
  shows "dd_get e (fc_submitted t) = dd_get e (fc_submitted s) \<and> dd_get e (fc_finalized t) = dd_get e (fc_finalized s)"
proof -
  obtain due u where due: "collect_due cfg env (fc_submission_window s) (iter_epochs env (fc_pending_epochs s)) s = (Ret due, u)"
    "\<forall>e. dd_get e (fc_submitted t) = (if due \<noteq> [] \<and> e = snd (last due) then [] else dd_get e (fc_submitted s)) \<and>
       dd_get e (fc_finalized t) = (if due \<noteq> [] \<and> e = snd (last due) then [] else dd_get e (fc_finalized s))"
    by (rule force_complete_records[OF assms(1,5)])
  with collect_due_frozen[where s = s and P = P, OF assms(2,3), of cfg "fc_submission_window s" "iter_epochs env (fc_pending_epochs s)"]
  have "set due = {q \<in> set (fc_pending_epochs s). epoch_due cfg (fc_submission_window s) (fst q) now}"
    using assms(4) by auto
  with assms(6) have "due = [] \<or> e \<noteq> snd (last due)" by (metis imageI last_in_set)
  with due(2) show ?thesis by auto
qed

interpretation fixed: tx_blind "\<lambda>s :: ('w, 'l) force_consensus. (fc_submission_window s, fc_writer s)"
  by unfold_locales simp_all

lemma fixed_complete:
  assumes "tenacity (retry_make env)"
  shows "keepsM (keeps_eq (\<lambda>s :: ('w, 'l) force_consensus. (fc_submission_window s, fc_writer s)))
           (force_complete_consensus cfg env)"
  unfolding force_complete_consensus_def epoch_tasks_def Let_def
  by (intro keeping fixed.blind_collect fixed.blind_run_tasks[OF assms]; simp)

section \<open>A round\<close>

lemma submitted_quiet: "list_all (\<lambda>ev. \<not> is_submit ev) evs \<Longrightarrow> submitted evs = []"
  by (induction evs rule: submitted.induct) auto

lemma read_events_run:
  assumes "tenacity (retry_events env)" and "fc_writer s = Some h"
    and "get_events_logs cfg env (protocol_state_address cfg) b a (JList [JList (map JStr (fc_event_sig s))])
           (fc_event_abi s) s = (Ret evs, u)"
    and "\<forall>l \<in> set evs. readable l" and "clock_at env now P" and "P (ext u)"
  obtains t evs' where "get_events cfg env a b s = (Ret (), t)" and "trace t = trace s @ evs'" and "submitted evs' = []"
    and "kept t = kept s" and "fc_abs_of t = fold abs_log evs (fc_abs_of s)" and "P (ext t)"
    and "set (fc_pending_epochs t) = set (fc_pending_epochs s) \<union> {(now, e) | e. e \<in> released evs}"
proof -
  have same: "kept u = kept s" "fc_abs_of u = fc_abs_of s" "fc_pending_epochs u = fc_pending_epochs s"
    using keeps_eqD[OF kept_get_events_logs[OF assms(1)] assms(3)] by simp_all
  from handle_logs_readable[where P = P, OF assms(4-6)] obtain v where
    v: "forM evs (handle_log env) u = (Ret (), v)"
      "set (fc_pending_epochs v) = set (fc_pending_epochs u) \<union> {(now, e) | e. e \<in> released evs}" "P (ext v)" by blast
  have "keepsM (keeps_eq kept) (forM evs (handle_log env))"
    by (intro keeping kept_handle_log)
  from keeps_eqD[OF this v(1)] have kept: "kept v = kept u" .
  from handle_logs_refine[OF v(1)] have abs: "fc_abs_of v = fold abs_log evs (fc_abs_of u)" .
  let ?t = "v\<lparr>trace := trace v @ [SpawnForceConsensus]\<rparr>"
  have run: "get_events cfg env a b s = (Ret (), ?t)"
    using assms(2,3) v(1) by (simp add: get_events_def the_pool_def M_defs)
  from growsE[OF get_events_quiet[OF assms(1)] run] obtain evs' where
    "trace ?t = trace s @ evs'" "list_all (\<lambda>ev. \<not> is_submit ev) evs'" .
  moreover from this(2) have "submitted evs' = []" by (rule submitted_quiet)
  ultimately show thesis
    using that[OF run] kept abs v(2,3) same by (simp add: fc_abs_of_def)
qed

lemma round_run:
  fixes s :: "('w, 'l) force_consensus"
  assumes "healthy env" and "tenacity (retry_make env)" and "tenacity (retry_events env)"
    and "writer_lock (fc_lock env) depth" and "lock_available (fc_lock env) depth" and "unlocked depth s"
    and "\<And>w. \<exists>k w'. random_choice env 100 w = (Inr k, w')" and clock: "clock_at env now P"
    and iter: "\<And>ps. set (iter_epochs env ps) = set ps" "\<And>ps. set (iter_projects env ps) = set ps"
    and sleeps: "\<And>n w. \<exists>w'. async_sleep env n w = (Inr (), w')"
    and writer: "fc_writer s = Some h" and saves: "\<forall>v w. P w \<longrightarrow> (\<exists>w'. redis_set env h event_detector_last_processed_block v w = (Inr (), w') \<and> P w')"
    and marker: "fc_last_processed_block s \<noteq> 0" "clamp_last_processed cfg cur (fc_last_processed_block s) \<noteq> cur"
    and window: "0 \<le> fc_submission_window s * anchor_block_time (st_anchor_chain cfg)"
    and reads: "get_events_logs cfg env (protocol_state_address cfg) cur
           (clamp_last_processed cfg cur (fc_last_processed_block s) + 1)
           (JList [JList (map JStr (fc_event_sig s))]) (fc_event_abi s)
           (s\<lparr>fc_last_processed_block := clamp_last_processed cfg cur (fc_last_processed_block s)\<rparr>) = (Ret evs, u)"
    and "P (ext u)" and "\<forall>l \<in> set evs. readable l"
  defines "books \<equiv> fold abs_log evs (fc_abs_of s)"
    and "due \<equiv> {(rt, e). (rt, e) \<in> set (fc_pending_epochs s) \<and> epoch_due cfg (fc_submission_window s) rt now}"
  shows "\<exists>t evs'. process_blocks cfg env cur s = (Ret (), t) \<and> trace t = trace s @ evs' \<and>
     fc_last_processed_block t = cur \<and> unlocked depth t \<and>
     set (map tx_args (submitted evs')) =
       {[p, e] | p e. (\<exists>rt. (rt, e) \<in> due) \<and> (e, p) \<in> a_submitted books \<and> (e, p) \<notin> a_finalized books} \<and>
     map tx_nonce (submitted evs') = [fc_nonce s..fc_nonce t - 1] \<and>
     set (fc_pending_epochs t) = set (fc_pending_epochs s) - due \<union> {(now, e) | e. e \<in> released evs} \<and>
     fc_submission_window t = fc_submission_window s \<and> fc_writer t = Some h \<and>
     (\<forall>e p. e \<notin> snd ` due \<longrightarrow> ((e, p) \<in> a_submitted (fc_abs_of t) \<longleftrightarrow> (e, p) \<in> a_submitted books) \<and>
        ((e, p) \<in> a_finalized (fc_abs_of t) \<longleftrightarrow> (e, p) \<in> a_finalized books))"
proof -
  let ?l = "clamp_last_processed cfg cur (fc_last_processed_block s)"
  let ?s = "s\<lparr>fc_last_processed_block := ?l\<rparr>"
  have "fc_writer ?s = Some h" "fc_event_sig ?s = fc_event_sig s" "fc_event_abi ?s = fc_event_abi s"
    using writer by simp_all
  from read_events_run[where P = P, OF \<open>tenacity (retry_events env)\<close> this(1), unfolded this(2,3), OF reads \<open>\<forall>l \<in> set evs. readable l\<close> clock \<open>P (ext u)\<close>]
  obtain v evs1 where v: "get_events cfg env (?l + 1) cur ?s = (Ret (), v)" "trace v = trace s @ evs1" "submitted evs1 = []"
    "kept v = kept ?s" "fc_abs_of v = books" "P (ext v)"
    "set (fc_pending_epochs v) = set (fc_pending_epochs s) \<union> {(now, e) | e. e \<in> released evs}"
    unfolding books_def by (auto simp: fc_abs_of_def)
  let ?v = "v\<lparr>fc_last_processed_block := cur\<rparr>"
  from saves[rule_format, of "ext ?v"] v(6) obtain w where
    w: "redis_set env h event_detector_last_processed_block (json_dumps (JInt cur)) (ext ?v) = (Inr (), w)" "P w" by auto
  let ?x = "?v\<lparr>ext := w, trace := trace v @ [RedisSet event_detector_last_processed_block (json_dumps (JInt cur))]\<rparr>"
  have saved: "save_last_processed env cur ?v = (Ret (), ?x)"
    using v(4) writer w(1) by (simp add: save_last_processed_def the_pool_def M_defs Let_def)
  have x: "unlocked depth ?x" "fc_submission_window ?x = fc_submission_window s" "fc_nonce ?x = fc_nonce s"
    "fc_pending_epochs ?x = fc_pending_epochs v" "open_projects ?x = open_projects v"
    using v(4) \<open>unlocked depth s\<close> by (auto simp: unlocked_def open_projects_def fun_eq_iff)
  obtain t1 evs2 where complete: "force_complete_consensus cfg env ?x = (Ret (), t1)" "trace t1 = trace ?x @ evs2"
    "map tx_args (submitted evs2) =
       concat (map (\<lambda>(release_time, e). map (\<lambda>p. [p, e]) (iter_projects env (open_projects ?x e)))
         (filter (\<lambda>q. epoch_due cfg (fc_submission_window ?x) (fst q) now) (iter_epochs env (fc_pending_epochs ?x))))"
    "map tx_nonce (submitted evs2) = [fc_nonce ?x..fc_nonce t1 - 1]" "unlocked depth t1"
    using force_complete_returns[where P = P, OF assms(1,2,4,5,7) clock x(1), of cfg] w(2) by auto
  from keeps_eqD[OF marker_complete[OF assms(2)] complete(1)] have marker': "fc_last_processed_block t1 = cur" by simp
  from sleeps obtain w1 where "async_sleep env (polling_interval (st_anchor_chain cfg)) (ext t1) = (Inr (), w1)" by blast
  then have slept: "poll_sleep cfg env t1 =
      (Ret (), t1\<lparr>ext := w1, trace := trace t1 @ [AsyncSleep (polling_interval (st_anchor_chain cfg))]\<rparr>)" (is "_ = (_, ?t)")
    by (simp add: poll_sleep_def asyncSleepM_def M_defs)
  have load: "load_last_processed env cur s = (Ret (), s)"
    using marker(1) by (simp add: load_last_processed_def M_defs)
  have "spawnM (force_complete_consensus cfg env) ?x = (Ret (), t1)"
    by (simp only: spawnM_def complete(1) snd_conv)
  then have rest: "thenM (save_last_processed env cur)
      (thenM (spawnM (force_complete_consensus cfg env)) (poll_sleep cfg env)) ?v = (Ret (), ?t)"
    by (simp only: thenM_Ret[where m = "save_last_processed env cur", OF saved]
        thenM_Ret[where m = "spawnM (force_complete_consensus cfg env)"] slept)
  have run: "process_blocks cfg env cur s = (Ret (), ?t)"
    unfolding process_blocks_def thenM_Ret[where m = "load_last_processed env cur", OF load]
    using marker(2)
    by (simp add: M_step try_elseM_Ret[where m = "get_events cfg env (?l + 1) cur", OF v(1)]
        rest)
  have "0 \<le> real_of_int (fc_submission_window s * anchor_block_time (st_anchor_chain cfg))"
    using window by (simp only: of_int_0_le_iff)
  then have new: "\<not> epoch_due cfg (fc_submission_window s) now now"
    unfolding epoch_due_def by linarith
  have "P (ext ?x)" using w(2) by simp
  note after = force_complete_pending[where P = P and s = ?x, OF assms(2) clock this iter(1) complete(1)]
  have pending: "set (fc_pending_epochs t1) = set (fc_pending_epochs s) - due \<union> {(now, e) | e. e \<in> released evs}"
    unfolding after x(2,4) v(7) due_def
    using new by auto
  have due: "{q \<in> set (fc_pending_epochs v). epoch_due cfg (fc_submission_window s) (fst q) now} = due"
    unfolding v(7) due_def using new by auto
  have "set (map tx_args (submitted evs2)) =
      {[p, e] | p e. (\<exists>rt. (rt, e) \<in> due) \<and> p \<in> set (open_projects v e)}"
    unfolding complete(3) x(2,4,5) due[symmetric] using iter by (auto simp: case_prod_beta)
  then have "set (map tx_args (submitted evs2)) =
      {[p, e] | p e. (\<exists>rt. (rt, e) \<in> due) \<and> (e, p) \<in> a_submitted books \<and> (e, p) \<notin> a_finalized books}"
    by (simp add: open_projects_abs v(5))
  moreover have "fc_submission_window ?t = fc_submission_window s" "fc_writer ?t = Some h"
    using keeps_eqD[OF fixed_complete[OF assms(2)] complete(1)] v(4) writer by simp_all
  moreover have "((e, p) \<in> a_submitted (fc_abs_of ?t) \<longleftrightarrow> (e, p) \<in> a_submitted books) \<and>
      ((e, p) \<in> a_finalized (fc_abs_of ?t) \<longleftrightarrow> (e, p) \<in> a_finalized books)" if "e \<notin> snd ` due" for e p
  proof -
    have "e \<notin> snd ` {q \<in> set (fc_pending_epochs ?x). epoch_due cfg (fc_submission_window ?x) (fst q) now}"
      unfolding x(2,4) due by (rule that)
    from force_complete_others[where P = P, OF assms(2) clock \<open>P (ext ?x)\<close> iter(1) complete(1) this] show ?thesis unfolding v(5)[symmetric] by (simp add: fc_abs_of_def pairs_def)
  qed
  ultimately show ?thesis
    using run pending marker' complete(2,4,5) v(2,3) x(3)
    by (intro exI[of _ ?t] exI[of _ "evs1 @ [RedisSet event_detector_last_processed_block (json_dumps (JInt cur))] @ evs2 @
          [AsyncSleep (polling_interval (st_anchor_chain cfg))]"])
       (simp add: unlocked_def)
qed

text \<open>
  C8: a round that knows the head and reads the events of its range, on a healthy chain and with
  the locks free, leaves the marker at the head and submits transactions, with consecutive nonces,
  for exactly those projects of epochs that were pending and are due which the events so far, those
  of this round included, show as submitted and not as finalized. The epochs that are still pending
  are the ones not due and the ones released in this round, and the locks are free for the next.
\<close>

theorem round_completes_what_is_due:
  fixes s :: "('w, 'l) force_consensus"
  assumes "healthy env" and "tenacity (retry_make env)" and "tenacity (retry_events env)"
    and "writer_lock (fc_lock env) depth" and "lock_available (fc_lock env) depth" and "unlocked depth s"
    and "\<And>w. \<exists>k w'. random_choice env 100 w = (Inr k, w')" and clock: "\<And>w. \<exists>w'. time_time env w = (Inr now, w')"
    and iter: "\<And>ps. set (iter_epochs env ps) = set ps" "\<And>ps. set (iter_projects env ps) = set ps"
    and sleeps: "\<And>n w. \<exists>w'. async_sleep env n w = (Inr (), w')"
    and writer: "fc_writer s = Some h" and saves: "\<And>v w. \<exists>w'. redis_set env h event_detector_last_processed_block v w = (Inr (), w')"
    and marker: "fc_last_processed_block s \<noteq> 0" "clamp_last_processed cfg cur (fc_last_processed_block s) \<noteq> cur"
    and window: "0 \<le> fc_submission_window s * anchor_block_time (st_anchor_chain cfg)"
    and reads: "get_events_logs cfg env (protocol_state_address cfg) cur
           (clamp_last_processed cfg cur (fc_last_processed_block s) + 1)
           (JList [JList (map JStr (fc_event_sig s))]) (fc_event_abi s)
           (s\<lparr>fc_last_processed_block := clamp_last_processed cfg cur (fc_last_processed_block s)\<rparr>) = (Ret evs, u)"
    and "\<forall>l \<in> set evs. readable l"
  defines "books \<equiv> fold abs_log evs (fc_abs_of s)"
    and "due \<equiv> {(rt, e). (rt, e) \<in> set (fc_pending_epochs s) \<and> epoch_due cfg (fc_submission_window s) rt now}"
  shows "\<exists>t evs'. process_blocks cfg env cur s = (Ret (), t) \<and> trace t = trace s @ evs' \<and>
     fc_last_processed_block t = cur \<and> unlocked depth t \<and>
     set (map tx_args (submitted evs')) =
       {[p, e] | p e. (\<exists>rt. (rt, e) \<in> due) \<and> (e, p) \<in> a_submitted books \<and> (e, p) \<notin> a_finalized books} \<and>
     map tx_nonce (submitted evs') = [fc_nonce s..fc_nonce t - 1] \<and>
     set (fc_pending_epochs t) = set (fc_pending_epochs s) - due \<union> {(now, e) | e. e \<in> released evs}"
proof -
  note clock = clock_at_UNIV[of env now, OF clock]
  show ?thesis
    unfolding books_def due_def
    using round_run[where P = "\<lambda>w. True" and env = env and s = s and cur = cur, OF assms(1-7) clock iter sleeps writer _ marker window reads TrueI] saves
      \<open>\<forall>l \<in> set evs. readable l\<close> by blast
qed

section \<open>Witness\<close>

text \<open>
  The example service, in a round in which its nodes report that another project of epoch 7 was
  submitted.
\<close>

definition new_project :: json where
  "new_project = JObj [(''topics'', JList [JStr ''0xaa'']), (''event'', JStr ''SnapshotSubmitted''),
     (''args'', JObj [(''epochId'', JInt 7), (''projectId'', JStr ''new'')])]"

definition round_env :: "(unit, nat \<times> nat) fc_env" where
  "round_env = example_fc_env\<lparr>eth_get_logs := (\<lambda>u q w. (Inr [new_project], w))\<rparr>"

lemma round_env_simps:
  "to_checksum_address round_env a = Inr a" "get_event_data round_env abi evlog = Inr evlog"
  "eth_get_logs round_env url q w = (Inr [new_project], w)" "time_time round_env w = (Inr 1000, w)"
  "redis_zadd round_env k m t w = (Inr (), w)" "redis_zremrangebyscore round_env k b c w = (Inr (), w)"
  "async_sleep round_env n w = (Inr (), w)" "redis_set round_env h k v w = (Inr (), w)"
  "tenacity (retry_events round_env)" "tenacity (retry_make round_env)" "fc_lock round_env = counting_lock"
  "random_choice round_env n w = (Inr 50, w)" "iter_epochs round_env ps = ps" "iter_projects round_env xs = xs"
  by (simp_all add: round_env_def fc_env_simps plain_retry_tenacity)

lemma round_healthy: "healthy round_env"
  by (simp add: healthy_def accepts_def round_env_def fc_env_simps)

lemma round_fc:
  "rh_initialized (example_fc_at w)" "rh_shas (example_fc_at w) = Some [(''s'', ''sha'')]"
  "rh_nodes (example_fc_at w) = [\<lparr>nd_url = ''a'', nd_rate_limit = [], nd_async = True\<rparr>,
                  \<lparr>nd_url = ''b'', nd_rate_limit = [], nd_async = True\<rparr>]"
  "fc_event_sig (example_fc_at w) = [''0xaa'']" "fc_event_abi (example_fc_at w) = [(''0xaa'', JNull)]"
  "fc_writer (example_fc_at w) = Some \<lparr>rd_url = ''r'', rd_size = 200\<rparr>" "fc_last_processed_block (example_fc_at w) = 90"
  by (simp_all add: example_fc_at_def example_pool_at_def rpc_helper_init_def tx_locks.defs rpc_helper.defs force_consensus.defs)

lemma round_reads:
  "\<exists>u. get_events_logs example_settings round_env a 130 111 topics [(''0xaa'', JNull)]
     (example_fc\<lparr>fc_last_processed_block := 110\<rparr>) = (Ret [new_project], u)"
proof -
  let ?s = "example_fc\<lparr>fc_last_processed_block := 110\<rparr>"
  have init: "ensure_init round_env ?s = (Ret (), ?s)"
    by (simp add: ensure_init_def round_fc M_defs)
  have topic: "decode_log round_env abi new_project = Inr new_project" for abi
    by (simp add: decode_log_def log_topic_def new_project_def round_env_simps)
  obtain u where attempt: "get_events_logs_attempt round_env a 130 111 topics [(''0xaa'', JNull)] 0 ?s = (Ret [new_project], u)"
    by (simp add: get_events_logs_attempt_def fetch_logs_def py_index_def check_node_limit_def check_rpc_rate_limit_def
        generic_rate_limiter_def record_call_def
        async_client_def nowM_def round_fc round_env_simps topic M_defs Let_def)
  have "tenacity (retry_events round_env)" by (simp add: round_env_simps)
  from tenacity_Ret[OF this, where f = "get_events_logs_attempt round_env a 130 111 topics [(''0xaa'', JNull)]", OF attempt]
  show ?thesis
    by (simp add: get_events_logs_def thenM_Ret[where m = "ensure_init round_env", OF init])
qed

theorem round_completes_what_is_due_witness:
  "\<exists>t evs. process_blocks example_settings round_env 130 example_fc = (Ret (), t) \<and> trace t = [] @ evs \<and>
     set (map tx_args (submitted evs)) = {[JStr ''p'', JInt 7], [JStr ''new'', JInt 7]} \<and>
     set (fc_pending_epochs t) = {(990, JInt 8)} \<and> fc_last_processed_block t = 130"
proof -
  have clamp: "clamp_last_processed example_settings 130 (fc_last_processed_block example_fc) = 110"
    by (simp add: round_fc clamp_last_processed_def example_settings_def)
  obtain u where reads: "get_events_logs example_settings round_env (protocol_state_address example_settings) 130
      (clamp_last_processed example_settings 130 (fc_last_processed_block example_fc) + 1)
      (JList [JList (map JStr (fc_event_sig example_fc))]) (fc_event_abi example_fc)
      (example_fc\<lparr>fc_last_processed_block := clamp_last_processed example_settings 130 (fc_last_processed_block example_fc)\<rparr>) =
      (Ret [new_project], u)"
    using round_reads unfolding clamp round_fc(4,5) by auto
  have arg: "event_arg ''epochId'' new_project = Inr (JInt 7)" "event_arg ''projectId'' new_project = Inr (JStr ''new'')"
    "json_item ''event'' new_project = Inr (JStr ''SnapshotSubmitted'')"
    by (simp_all add: new_project_def event_arg_def)
  then have ev: "event_of new_project = Some (Submitted (JInt 7) (JStr ''new''))" by (simp add: event_of_def)
  have due: "{(rt, e). (rt, e) \<in> set (fc_pending_epochs example_fc) \<and>
      epoch_due example_settings (fc_submission_window example_fc) rt 1000} = {(100, JInt 7)}"
    by (auto simp: epoch_due_def example_window)
  have readable: "\<forall>l \<in> set [new_project]. readable l" using arg by (simp add: readable_def)
  have "writer_lock (fc_lock round_env) counting_depth" "lock_available (fc_lock round_env) counting_depth"
    "fc_last_processed_block example_fc \<noteq> 0" "clamp_last_processed example_settings 130 (fc_last_processed_block example_fc) \<noteq> 130"
    "0 \<le> fc_submission_window example_fc * anchor_block_time (st_anchor_chain example_settings)"
    "\<exists>k w'. random_choice round_env 100 w = (Inr k, w')" "\<exists>w'. time_time round_env w = (Inr 1000, w')"
    "\<exists>w'. async_sleep round_env n w = (Inr (), w')" "\<exists>w'. redis_set round_env h event_detector_last_processed_block v w = (Inr (), w')"
    for w n h v
    by (simp_all add: round_env_simps counting_lock_writer_lock counting_lock_available round_fc example_window
        clamp[unfolded round_fc])
  note facts = this
  from round_completes_what_is_due[where env = round_env and s = example_fc and cfg = example_settings and cur = 130
      and now = 1000, OF round_healthy round_env_simps(10,9) facts(1,2) example_unlocked facts(6,7) _ _ facts(8) round_fc(6)
      facts(9,3,4,5) reads readable]
  obtain t evs where t: "process_blocks example_settings round_env 130 example_fc = (Ret (), t)" "trace t = [] @ evs"
    "fc_last_processed_block t = 130"
    and args: "set (map tx_args (submitted evs)) =
       {[p, e] | p e. (\<exists>rt. (rt, e) \<in> {(100, JInt 7)}) \<and> (e, p) \<in> a_submitted (fold abs_log [new_project] (fc_abs_of example_fc)) \<and>
          (e, p) \<notin> a_finalized (fold abs_log [new_project] (fc_abs_of example_fc))}"
    and pending: "set (fc_pending_epochs t) = set (fc_pending_epochs example_fc) - {(100, JInt 7)} \<union>
       {(1000, e) | e. e \<in> released [new_project]}"
    unfolding due by (auto simp: round_env_simps)
  have "set (map tx_args (submitted evs)) = {[JStr ''p'', JInt 7], [JStr ''new'', JInt 7]}"
    unfolding args by (auto simp: abs_log_def ev fc_abs_of_def pairs_def dd_get_def)
  moreover have "set (fc_pending_epochs t) = {(990, JInt 8)}"
    unfolding pending by (auto simp: released_def ev)
  ultimately show ?thesis using t by blast
qed

end
