(* ===== verification/Force_Lifecycle.thy ===== *)
theory Force_Lifecycle
  imports Force_Rounds
begin

text \<open>
  The service over many rounds. Each round is described by what the environment answered in it, and
  the life of an epoch is followed from the round that reads its release to the round that
  completes it.
\<close>

section \<open>What happened in a round\<close>

text \<open>
  \<open>Idle\<close>: nothing was read, because a query failed or the head has not moved. \<open>Worked\<close>: the head, the
  time at which the round was processed and the events that were read.
\<close>

datatype round_report = Idle | Worked int real "json list"

definition events_query ::
  "settings \<Rightarrow> ('w, 'l) fc_env \<Rightarrow> int \<Rightarrow> (('w, 'l) force_consensus, json list) M" where
  "events_query cfg env cur s =
     (let l = clamp_last_processed cfg cur (fc_last_processed_block s)
      in get_events_logs cfg env (protocol_state_address cfg) cur (l + 1)
           (JList [JList (map JStr (fc_event_sig s))]) (fc_event_abi s) (s\<lparr>fc_last_processed_block := l\<rparr>))"

text \<open>
  In a round that worked the clock stands still from the answer of the query on and Redis takes the
  marker. Block 0 is left out as a marker: the service takes it for none.
\<close>

primrec reported :: "settings \<Rightarrow> ('w, 'l) fc_env \<Rightarrow> ('w, 'l) force_consensus \<Rightarrow> round_report \<Rightarrow> bool" where
  "reported cfg env s Idle \<longleftrightarrow>
     (\<exists>e t. get_current_block env 0 s = (Raise e, t) \<and> is_Exception e) \<or>
     (\<exists>cur t. get_current_block env 0 s = (Ret cur, t) \<and>
        clamp_last_processed cfg cur (fc_last_processed_block s) \<noteq> 0 \<and>
        (clamp_last_processed cfg cur (fc_last_processed_block s) = cur \<or>
         (\<exists>e u. events_query cfg env cur t = (Raise e, u) \<and> is_Exception e)))"
| "reported cfg env s (Worked cur now evs) \<longleftrightarrow>
     cur \<noteq> 0 \<and> clamp_last_processed cfg cur (fc_last_processed_block s) \<noteq> cur \<and>
     (\<forall>l \<in> set evs. readable l) \<and>
     (\<exists>P t u. get_current_block env 0 s = (Ret cur, t) \<and> events_query cfg env cur t = (Ret evs, u) \<and>
        P (ext u) \<and> clock_at env now P \<and>
        (\<forall>h v w. P w \<longrightarrow> (\<exists>w'. redis_set env h event_detector_last_processed_block v w = (Inr (), w') \<and> P w')))"

primrec events_in :: "round_report \<Rightarrow> json list" where
  "events_in Idle = []"
| "events_in (Worked cur now evs) = evs"

primrec due_in :: "settings \<Rightarrow> int \<Rightarrow> real \<Rightarrow> round_report \<Rightarrow> bool" where
  "due_in cfg window rt Idle = False"
| "due_in cfg window rt (Worked cur now evs) = epoch_due cfg window rt now"

primrec released_in :: "round_report \<Rightarrow> (real \<times> json) set" where
  "released_in Idle = {}"
| "released_in (Worked cur now evs) = {(now, e) | e. e \<in> released evs}"

text \<open>The records of an epoch, as a pair of sets of projects.\<close>

definition records :: "fc_abs \<Rightarrow> json \<Rightarrow> json set \<times> json set" where
  "records a e = ({p. (e, p) \<in> a_submitted a}, {p. (e, p) \<in> a_finalized a})"

lemma records_logs: "records a e = records b e \<Longrightarrow> records (fold abs_log evs a) e = records (fold abs_log evs b) e"
proof (induction evs arbitrary: a b)
  case (Cons l evs)
  have "records (abs_log l a) e = records (abs_log l b) e"
  proof (cases "event_of l")
    case (Some ev)
    with Cons.prems show ?thesis
      by (cases ev) (auto simp: records_def abs_log_def)
  qed (use Cons.prems in \<open>simp add: abs_log_def\<close>)
  from Cons.IH[OF this] show ?case by simp
qed simp

section \<open>One round\<close>

definition serving :: "settings \<Rightarrow> ('l \<Rightarrow> nat \<Rightarrow> nat) \<Rightarrow> redis_handle \<Rightarrow> ('w, 'l) force_consensus \<Rightarrow> bool" where
  "serving cfg depth h s \<longleftrightarrow> unlocked depth s \<and> fc_writer s = Some h \<and> fc_last_processed_block s \<noteq> 0 \<and>
     0 \<le> fc_submission_window s * anchor_block_time (st_anchor_chain cfg)"

lemma kept_current_block:
  "keepsM (keeps_eq (\<lambda>s. (kept s, fc_abs_of s, fc_pending_epochs s))) (get_current_block env i)"
proof (rule keeps_beyond[OF more_current_block])
  fix s t :: "('a, 'b) force_consensus"
  assume "rpc_helper.more t = rpc_helper.more s"
  then show "(kept t, fc_abs_of t, fc_pending_epochs t) = (kept s, fc_abs_of s, fc_pending_epochs s)"
    by (cases s, cases t) (simp add: fc_abs_of_def)
qed

lemma quiet_current_block: "keepsM (grows (\<lambda>ev. \<not> is_submit ev)) (get_current_block env i)"
  by (rule pool_quiet[OF pool_get_current_block])

text \<open>What the environment is like in all rounds.\<close>

definition sound_env :: "('w, 'l) fc_env \<Rightarrow> ('l \<Rightarrow> nat \<Rightarrow> nat) \<Rightarrow> bool" where
  "sound_env env depth \<longleftrightarrow> healthy env \<and> tenacity (retry_make env) \<and> tenacity (retry_events env) \<and>
     writer_lock (fc_lock env) depth \<and> lock_available (fc_lock env) depth \<and>
     (\<forall>w. \<exists>k w'. random_choice env 100 w = (Inr k, w')) \<and> (\<forall>n w. \<exists>w'. async_sleep env n w = (Inr (), w')) \<and>
     (\<forall>ps. set (iter_epochs env ps) = set ps) \<and> (\<forall>ps. set (iter_projects env ps) = set ps)"

lemma poll_sleep_sound:
  assumes "sound_env env depth"
  obtains w where "poll_sleep cfg env s =
     (Ret (), s\<lparr>ext := w, trace := trace s @ [AsyncSleep (polling_interval (st_anchor_chain cfg))]\<rparr>)"
proof -
  from assms obtain w where "async_sleep env (polling_interval (st_anchor_chain cfg)) (ext s) = (Inr (), w)"
    unfolding sound_env_def by blast
  then show thesis using that by (simp add: poll_sleep_def asyncSleepM_def M_defs)
qed


lemma kept_of_kept:
  assumes "kept t = kept s"
  shows "unlocked depth t = unlocked depth s" "fc_writer t = fc_writer s" "fc_last_processed_block t = fc_last_processed_block s"
    "fc_submission_window t = fc_submission_window s" "fc_nonce t = fc_nonce s"
  using assms by (simp_all add: unlocked_def)

text \<open>The round up to the answer about the head.\<close>

lemma head_read:
  fixes s :: "('w, 'l) force_consensus"
  assumes "get_current_block env 0 s = (x, t)" and "fc_writer s = Some h"
  obtains evs where "trace t = trace s @ evs" and "submitted evs = []" and "kept t = kept s"
    and "fc_abs_of t = fc_abs_of s" and "fc_pending_epochs t = fc_pending_epochs s"
    and "fc_round cfg env s = (case x of Ret cur \<Rightarrow> process_blocks cfg env cur t
          | Raise e \<Rightarrow> if is_Exception e then poll_sleep cfg env t else (Raise e, t) | Pending \<Rightarrow> (Pending, t))"
proof -
  from keeps_eqD[OF kept_current_block assms(1)] have
    same: "kept t = kept s" "fc_abs_of t = fc_abs_of s" "fc_pending_epochs t = fc_pending_epochs s" by simp_all
  from growsE[OF quiet_current_block assms(1)] obtain evs where
    evs: "trace t = trace s @ evs" "list_all (\<lambda>ev. \<not> is_submit ev) evs" .
  then have "submitted evs = []" by (simp add: submitted_quiet)
  have pool: "thenM (bindM (getsM fc_writer) (\<lambda>w. liftM (the_pool w))) (get_current_block env 0) s = (x, t)"
    using assms by (simp add: the_pool_def M_defs)
  have "fc_round cfg env s = (case x of Ret cur \<Rightarrow> process_blocks cfg env cur t
          | Raise e \<Rightarrow> if is_Exception e then poll_sleep cfg env t else (Raise e, t) | Pending \<Rightarrow> (Pending, t))"
    unfolding fc_round_def try_elseM_def pool by (simp split: res.split)
  from that[OF evs(1) \<open>submitted evs = []\<close> same this] show thesis .
qed

definition round_done ::
  "settings \<Rightarrow> ('l \<Rightarrow> nat \<Rightarrow> nat) \<Rightarrow> redis_handle \<Rightarrow> ('w, 'l) force_consensus \<Rightarrow> round_report \<Rightarrow> ('w, 'l) force_consensus \<Rightarrow> bool" where
  "round_done cfg depth h s r t \<longleftrightarrow>
     serving cfg depth h t \<and> fc_submission_window t = fc_submission_window s \<and>
     (\<exists>evs. trace t = trace s @ evs \<and>
        set (map tx_args (submitted evs)) =
          {[p, e] | p e. (\<exists>rt. (rt, e) \<in> set (fc_pending_epochs s) \<and> due_in cfg (fc_submission_window s) rt r) \<and>
             (e, p) \<in> a_submitted (fold abs_log (events_in r) (fc_abs_of s)) \<and>
             (e, p) \<notin> a_finalized (fold abs_log (events_in r) (fc_abs_of s))}) \<and>
     set (fc_pending_epochs t) =
       {q \<in> set (fc_pending_epochs s). \<not> due_in cfg (fc_submission_window s) (fst q) r} \<union> released_in r \<and>
     (\<forall>e. (\<forall>rt. (rt, e) \<in> set (fc_pending_epochs s) \<longrightarrow> \<not> due_in cfg (fc_submission_window s) rt r) \<longrightarrow>
        records (fc_abs_of t) e = records (fold abs_log (events_in r) (fc_abs_of s)) e)"

text \<open>A round that did nothing ends with the pause.\<close>

lemma idle_sleep:
  assumes "sound_env env depth" and "serving cfg depth h s" and "trace u = trace s @ evs" and "submitted evs = []"
    and "fc_last_processed_block u \<noteq> 0" and "fc_abs_of u = fc_abs_of s" and "fc_pending_epochs u = fc_pending_epochs s"
    and "unlocked depth u = unlocked depth s" "fc_writer u = fc_writer s" "fc_submission_window u = fc_submission_window s"
  shows "\<exists>t. poll_sleep cfg env u = (Ret (), t) \<and> round_done cfg depth h s Idle t"
proof -
  from poll_sleep_sound[OF assms(1)] obtain w where w: "poll_sleep cfg env u =
      (Ret (), u\<lparr>ext := w, trace := trace u @ [AsyncSleep (polling_interval (st_anchor_chain cfg))]\<rparr>)" (is "_ = (_, ?t)") .
  have "unlocked depth ?t = unlocked depth s" "fc_abs_of ?t = fc_abs_of s"
    using assms(6,8) by (simp_all add: unlocked_def fc_abs_of_def)
  moreover have "trace ?t = trace s @ evs @ [AsyncSleep (polling_interval (st_anchor_chain cfg))]" using assms(3) by simp
  moreover have "submitted (evs @ [AsyncSleep (polling_interval (st_anchor_chain cfg))]) = []" using assms(4) by simp
  ultimately have "round_done cfg depth h s Idle ?t"
    using assms(2,5,7,9,10) unfolding round_done_def serving_def by auto
  with w show ?thesis by blast
qed

lemma idle_round:
  fixes s :: "('w, 'l) force_consensus"
  assumes env: "sound_env env depth" and serving: "serving cfg depth h s" and "reported cfg env s Idle"
  shows "\<exists>t. fc_round cfg env s = (Ret (), t) \<and> round_done cfg depth h s Idle t"
proof -
  have writer: "fc_writer s = Some h" and marker: "fc_last_processed_block s \<noteq> 0"
    using serving by (simp_all add: serving_def)
  note idle = idle_sleep[OF env serving]
  consider (down) e t where "get_current_block env 0 s = (Raise e, t)" "is_Exception e"
    | (read) cur t where "get_current_block env 0 s = (Ret cur, t)"
        "clamp_last_processed cfg cur (fc_last_processed_block s) \<noteq> 0"
        "clamp_last_processed cfg cur (fc_last_processed_block s) = cur \<or>
         (\<exists>e u. events_query cfg env cur t = (Raise e, u) \<and> is_Exception e)"
    using assms(3) by auto
  then show ?thesis
  proof cases
    case down
    obtain evs where t: "trace t = trace s @ evs" "submitted evs = []" "kept t = kept s" "fc_abs_of t = fc_abs_of s"
        "fc_pending_epochs t = fc_pending_epochs s" "fc_round cfg env s = poll_sleep cfg env t"
      by (rule head_read[OF down(1) writer, of cfg]) (simp only: res.case down(2) if_True)
    have "fc_last_processed_block t \<noteq> 0" using kept_of_kept(3)[OF t(3)] marker by simp
    from idle[OF t(1,2) this t(4,5) kept_of_kept(1,2,4)[OF t(3)]] show ?thesis unfolding t(6) .
  next
    case read
    let ?l = "clamp_last_processed cfg cur (fc_last_processed_block s)"
    obtain evs where t: "trace t = trace s @ evs" "submitted evs = []" "kept t = kept s" "fc_abs_of t = fc_abs_of s"
        "fc_pending_epochs t = fc_pending_epochs s" "fc_round cfg env s = process_blocks cfg env cur t"
      by (rule head_read[OF read(1) writer, of cfg]) (simp only: res.case)
    let ?t = "t\<lparr>fc_last_processed_block := ?l\<rparr>"
    have at: "fc_last_processed_block t = fc_last_processed_block s" "fc_last_processed_block t \<noteq> 0"
      using kept_of_kept[OF t(3)] marker by simp_all
    obtain r v where run: "process_blocks cfg env cur t = (r, v)" by fastforce
    have "\<exists>u evs'. poll_sleep cfg env u = (r, v) \<and> trace u = trace t @ evs' \<and> submitted evs' = [] \<and> kept u = kept ?t \<and>
        fc_abs_of u = fc_abs_of t \<and> fc_pending_epochs u = fc_pending_epochs t"
    proof (cases "?l = cur")
      case True
      from run load_marker[OF at(2)] show ?thesis
        by (cases rule: process_blocks_cases) (use True at(1) in \<open>auto simp: fc_abs_of_def intro!: exI[of _ ?t]\<close>)
    next
      case False
      with read(3) obtain e u where query: "events_query cfg env cur t = (Raise e, u)" "is_Exception e" by blast
      have "fc_writer t = Some h" using kept_of_kept[OF t(3)] writer by simp
      with query(1) have raised: "get_events cfg env (?l + 1) cur ?t = (Raise e, u)"
        by (simp add: get_events_def events_query_def Let_def at(1) the_pool_def M_defs)
      from run load_marker[OF at(2)] have "poll_sleep cfg env u = (r, v)"
        by (cases rule: process_blocks_cases) (use False raised query(2) at(1) in auto)
      moreover have "tenacity (retry_events env)" using env by (simp add: sound_env_def)
      note same = keeps_eqD[OF kept_get_events_logs[OF this] query(1)[unfolded events_query_def Let_def at(1)]]
      obtain evs' where "trace u = trace t @ evs'" "submitted evs' = []"
        using growsE[OF get_events_quiet[OF \<open>tenacity (retry_events env)\<close>] raised] submitted_quiet by auto
      ultimately show ?thesis using same
        by (intro exI[of _ u] exI[of _ evs'] conjI) (simp_all add: fc_abs_of_def)
    qed
    then obtain u evs' where u: "poll_sleep cfg env u = (r, v)" "trace u = trace t @ evs'" "submitted evs' = []"
      "kept u = kept ?t" "fc_abs_of u = fc_abs_of t" "fc_pending_epochs u = fc_pending_epochs t" by blast
    have "trace u = trace s @ (evs @ evs')" "submitted (evs @ evs') = []" using u t by simp_all
    moreover have "fc_last_processed_block u \<noteq> 0" using kept_of_kept(3)[OF u(4)] read(2) by simp
    moreover have "fc_abs_of u = fc_abs_of s" "fc_pending_epochs u = fc_pending_epochs s" using u(5,6) t(4,5) by simp_all
    moreover have "unlocked depth u = unlocked depth s" "fc_writer u = fc_writer s"
      "fc_submission_window u = fc_submission_window s"
      using kept_of_kept(1,2,4)[OF u(4)] kept_of_kept(1,2,4)[OF t(3)] by (simp_all add: unlocked_def)
    ultimately have "\<exists>v. poll_sleep cfg env u = (Ret (), v) \<and> round_done cfg depth h s Idle v" by (rule idle)
    then show ?thesis unfolding t(6) run u(1) .
  qed
qed


lemma worked_round:
  fixes s :: "('w, 'l) force_consensus"
  assumes env: "sound_env env depth" and serving: "serving cfg depth h s" and worked: "reported cfg env s (Worked cur now evs)"
  shows "\<exists>t. fc_round cfg env s = (Ret (), t) \<and> round_done cfg depth h s (Worked cur now evs) t"
proof -
  let ?W = "fc_submission_window s"
  from worked obtain P t u where cur: "cur \<noteq> 0" "clamp_last_processed cfg cur (fc_last_processed_block s) \<noteq> cur"
    and head: "get_current_block env 0 s = (Ret cur, t)" and query: "events_query cfg env cur t = (Ret evs, u)"
    and P: "P (ext u)" "clock_at env now P" "\<forall>l \<in> set evs. readable l"
    and saves: "\<forall>v w. P w \<longrightarrow> (\<exists>w'. redis_set env h event_detector_last_processed_block v w = (Inr (), w') \<and> P w')"
    unfolding reported.simps by blast
  have writer: "fc_writer s = Some h" using serving by (simp add: serving_def)
  obtain evs0 where t: "trace t = trace s @ evs0" "submitted evs0 = []" "kept t = kept s" "fc_abs_of t = fc_abs_of s"
      "fc_pending_epochs t = fc_pending_epochs s" "fc_round cfg env s = process_blocks cfg env cur t"
    by (rule head_read[OF head writer, of cfg]) (simp only: res.case)
  note at = kept_of_kept[OF t(3)]
  have at_t: "unlocked depth t" "fc_writer t = Some h" "fc_last_processed_block t \<noteq> 0"
    "clamp_last_processed cfg cur (fc_last_processed_block t) \<noteq> cur"
    "0 \<le> fc_submission_window t * anchor_block_time (st_anchor_chain cfg)"
    using serving cur(2) by (simp_all add: serving_def at)
  note sound = env[unfolded sound_env_def]
  have random: "\<exists>k w'. random_choice env 100 w = (Inr k, w')" and sleeps: "\<exists>w'. async_sleep env n w = (Inr (), w')"
    and iter: "set (iter_epochs env ps) = set ps" "set (iter_projects env qs) = set qs" for w n ps qs
    using sound by blast+
  let ?due = "{(rt, e). (rt, e) \<in> set (fc_pending_epochs t) \<and> epoch_due cfg (fc_submission_window t) rt now}"
  let ?books = "fold abs_log evs (fc_abs_of t)"
  have "healthy env" "tenacity (retry_make env)" "tenacity (retry_events env)" "writer_lock (fc_lock env) depth"
    "lock_available (fc_lock env) depth" using sound by blast+
  from round_run[where P = P and s = t, OF this at_t(1) random P(2) iter sleeps at_t(2) saves at_t(3-5)
      query[unfolded events_query_def Let_def] P(1,3)]
  obtain v evs' where v: "process_blocks cfg env cur t = (Ret (), v)" "trace v = trace t @ evs'"
    "fc_last_processed_block v = cur" "unlocked depth v"
    "set (map tx_args (submitted evs')) =
       {[p, e] | p e. (\<exists>rt. (rt, e) \<in> ?due) \<and> (e, p) \<in> a_submitted ?books \<and> (e, p) \<notin> a_finalized ?books}"
    "set (fc_pending_epochs v) = set (fc_pending_epochs t) - ?due \<union> {(now, e) | e. e \<in> released evs}"
    "fc_submission_window v = fc_submission_window t" "fc_writer v = Some h"
    "\<forall>e p. e \<notin> snd ` ?due \<longrightarrow> ((e, p) \<in> a_submitted (fc_abs_of v) \<longleftrightarrow> (e, p) \<in> a_submitted ?books) \<and>
        ((e, p) \<in> a_finalized (fc_abs_of v) \<longleftrightarrow> (e, p) \<in> a_finalized ?books)"
    by (elim exE conjE) (rule that; assumption)
  have "serving cfg depth h v"
    using v(3,4,7,8) cur(1) at_t(5) by (simp add: serving_def)
  moreover have "trace v = trace s @ evs0 @ evs'" "submitted (evs0 @ evs') = submitted evs'"
    using t(1,2) v(2) by simp_all
  moreover have "set (fc_pending_epochs v) =
      {q \<in> set (fc_pending_epochs s). \<not> epoch_due cfg ?W (fst q) now} \<union> {(now, e) | e. e \<in> released evs}"
    unfolding v(6) t(5) at(4) by auto
  moreover have "records (fc_abs_of v) e = records ?books e"
    if "\<forall>rt. (rt, e) \<in> set (fc_pending_epochs s) \<longrightarrow> \<not> epoch_due cfg ?W rt now" for e
  proof -
    have "e \<notin> snd ` ?due" using that unfolding t(5) at(4) by auto
    with v(9) show ?thesis by (simp add: records_def)
  qed
  moreover have "set (map tx_args (submitted evs')) =
      {[p, e] | p e. (\<exists>rt. (rt, e) \<in> set (fc_pending_epochs s) \<and> epoch_due cfg ?W rt now) \<and>
         (e, p) \<in> a_submitted ?books \<and> (e, p) \<notin> a_finalized ?books}"
    unfolding v(5) t(5) at(4) by auto
  ultimately have "round_done cfg depth h s (Worked cur now evs) v"
    unfolding round_done_def due_in.simps events_in.simps released_in.simps t(4) v(7) at(4)
    by (intro conjI exI[of _ "evs0 @ evs'"]) (simp_all only: simp_thms, blast+)
  with v(1) show ?thesis unfolding t(6) by blast
qed

lemma reported_round:
  assumes "sound_env env depth" and "serving cfg depth h s" and "reported cfg env s r"
  shows "\<exists>t. fc_round cfg env s = (Ret (), t) \<and> round_done cfg depth h s r t"
  using assms by (cases r) (simp_all only: idle_round worked_round)


section \<open>Many rounds\<close>

primrec after_rounds :: "settings \<Rightarrow> ('w, 'l) fc_env \<Rightarrow> nat \<Rightarrow> ('w, 'l) force_consensus \<Rightarrow> ('w, 'l) force_consensus" where
  "after_rounds cfg env 0 s = s"
| "after_rounds cfg env (Suc n) s = snd (fc_round cfg env (after_rounds cfg env n s))"

lemma after_rounds_Suc: "after_rounds cfg env (Suc n) s = after_rounds cfg env n (snd (fc_round cfg env s))"
  by (induction n) simp_all

abbreviation service_loop :: "settings \<Rightarrow> ('w, 'l) fc_env \<Rightarrow> nat \<Rightarrow> (('w, 'l) force_consensus, unit) M" where
  "service_loop cfg env n \<equiv> loopM n (\<lambda>_. bindM (fc_round cfg env) (\<lambda>_. returnM (Inl ()))) ()"

lemma service_loop_after:
  assumes "\<forall>k<n. fst (fc_round cfg env (after_rounds cfg env k s)) = Ret ()"
  shows "service_loop cfg env n s = (Pending, after_rounds cfg env n s)"
  using assms
proof (induction n arbitrary: s)
  case 0
  then show ?case by (simp add: pendingM_def)
next
  case (Suc n)
  from Suc.prems[rule_format, of 0] obtain t where t: "fc_round cfg env s = (Ret (), t)"
    by (cases "fc_round cfg env s") simp
  have "\<forall>k<n. fst (fc_round cfg env (after_rounds cfg env k t)) = Ret ()"
  proof (intro allI impI)
    fix k assume "k < n"
    with Suc.prems[rule_format, of "Suc k"] show "fst (fc_round cfg env (after_rounds cfg env k t)) = Ret ()"
      by (simp add: after_rounds_Suc t del: after_rounds.simps)
  qed
  from Suc.IH[OF this] show ?case
    by (simp add: after_rounds_Suc t bindM_def returnM_apply del: after_rounds.simps)
qed

lemma reported_rounds:
  assumes "sound_env env depth" and "serving cfg depth h s"
    and "\<forall>k<n. reported cfg env (after_rounds cfg env k s) (rep k)" and "k \<le> n"
  shows "serving cfg depth h (after_rounds cfg env k s) \<and>
     fc_submission_window (after_rounds cfg env k s) = fc_submission_window s"
  using assms(4)
proof (induction k)
  case 0
  then show ?case using assms(2) by simp
next
  case (Suc k)
  then have "reported cfg env (after_rounds cfg env k s) (rep k)" "serving cfg depth h (after_rounds cfg env k s)"
    using assms(3) by simp_all
  from reported_round[OF assms(1) this(2,1)] Suc show ?case
    by (auto simp: round_done_def)
qed

lemma reported_round_at:
  assumes "sound_env env depth" and "serving cfg depth h s"
    and "\<forall>k<n. reported cfg env (after_rounds cfg env k s) (rep k)" and "k < n"
  shows "fst (fc_round cfg env (after_rounds cfg env k s)) = Ret ()"
    and "round_done cfg depth h (after_rounds cfg env k s) (rep k) (after_rounds cfg env (Suc k) s)"
proof -
  from assms(4) have "k \<le> n" by simp
  from reported_rounds[OF assms(1-3) this] have "serving cfg depth h (after_rounds cfg env k s)" by blast
  from reported_round[OF assms(1) this] assms(3,4) show
    "fst (fc_round cfg env (after_rounds cfg env k s)) = Ret ()"
    "round_done cfg depth h (after_rounds cfg env k s) (rep k) (after_rounds cfg env (Suc k) s)"
    by fastforce+
qed

definition release_times :: "('w, 'l) force_consensus \<Rightarrow> json \<Rightarrow> real set" where
  "release_times s e = {rt. (rt, e) \<in> set (fc_pending_epochs s)}"

lemma round_done_epoch:
  assumes "round_done cfg depth h s r t"
  shows "release_times t e = {rt \<in> release_times s e. \<not> due_in cfg (fc_submission_window s) rt r} \<union> {rt. (rt, e) \<in> released_in r}"
    and "(\<forall>rt \<in> release_times s e. \<not> due_in cfg (fc_submission_window s) rt r) \<Longrightarrow>
       records (fc_abs_of t) e = records (fold abs_log (events_in r) (fc_abs_of s)) e"
    and "\<exists>evs. trace t = trace s @ evs \<and> (\<forall>p. [p, e] \<in> set (map tx_args (submitted evs)) \<longleftrightarrow>
       (\<exists>rt \<in> release_times s e. due_in cfg (fc_submission_window s) rt r) \<and>
       (e, p) \<in> a_submitted (fold abs_log (events_in r) (fc_abs_of s)) \<and>
       (e, p) \<notin> a_finalized (fold abs_log (events_in r) (fc_abs_of s)))"
proof -
  from assms have pending: "set (fc_pending_epochs t) =
       {q \<in> set (fc_pending_epochs s). \<not> due_in cfg (fc_submission_window s) (fst q) r} \<union> released_in r"
    and recs: "\<forall>e. (\<forall>rt. (rt, e) \<in> set (fc_pending_epochs s) \<longrightarrow> \<not> due_in cfg (fc_submission_window s) rt r) \<longrightarrow>
        records (fc_abs_of t) e = records (fold abs_log (events_in r) (fc_abs_of s)) e"
    unfolding round_done_def by fast+
  show "release_times t e = {rt \<in> release_times s e. \<not> due_in cfg (fc_submission_window s) rt r} \<union> {rt. (rt, e) \<in> released_in r}"
    by (auto simp: release_times_def pending)
  show "records (fc_abs_of t) e = records (fold abs_log (events_in r) (fc_abs_of s)) e"
    if "\<forall>rt \<in> release_times s e. \<not> due_in cfg (fc_submission_window s) rt r"
    using recs that by (simp add: release_times_def)
  from assms obtain evs where "trace t = trace s @ evs" "set (map tx_args (submitted evs)) =
          {[p, e] | p e. (\<exists>rt. (rt, e) \<in> set (fc_pending_epochs s) \<and> due_in cfg (fc_submission_window s) rt r) \<and>
             (e, p) \<in> a_submitted (fold abs_log (events_in r) (fc_abs_of s)) \<and>
             (e, p) \<notin> a_finalized (fold abs_log (events_in r) (fc_abs_of s))}"
    by (auto simp only: round_done_def)
  then show "\<exists>evs. trace t = trace s @ evs \<and> (\<forall>p. [p, e] \<in> set (map tx_args (submitted evs)) \<longleftrightarrow>
       (\<exists>rt \<in> release_times s e. due_in cfg (fc_submission_window s) rt r) \<and>
       (e, p) \<in> a_submitted (fold abs_log (events_in r) (fc_abs_of s)) \<and>
       (e, p) \<notin> a_finalized (fold abs_log (events_in r) (fc_abs_of s)))"
    by (intro exI[of _ evs]) (simp only: release_times_def, blast)
qed

lemma released_in_events: "(rt, e) \<in> released_in r \<Longrightarrow> e \<in> released (events_in r)"
  by (cases r) auto

text \<open>The life of an epoch: pending from its release to the round in which it is due, its records complete.\<close>

lemma epoch_life:
  assumes "sound_env env depth" and "serving cfg depth h s"
    and "\<forall>k<n. reported cfg env (after_rounds cfg env k s) (rep k)"
    and ij: "i < j" "j < n" and "rep i = Worked cur now evs" and "e \<in> released evs"
    and "\<forall>k<n. k \<noteq> i \<longrightarrow> e \<notin> released (events_in (rep k))" and "e \<notin> snd ` set (fc_pending_epochs s)"
    and "due_in cfg (fc_submission_window s) now (rep j)"
    and "\<forall>k. i < k \<and> k < j \<longrightarrow> \<not> due_in cfg (fc_submission_window s) now (rep k)"
    and "k \<le> n"
  defines "seen \<equiv> \<lambda>k. fold abs_log (concat (map (\<lambda>k. events_in (rep k)) [0..<k])) (fc_abs_of s)"
  shows "release_times (after_rounds cfg env k s) e = (if i < k \<and> k \<le> j then {now} else {}) \<and>
     (k \<le> j \<longrightarrow> records (fc_abs_of (after_rounds cfg env k s)) e = records (seen k) e)"
  using \<open>k \<le> n\<close>
proof (induction k)
  case 0
  have "release_times s e = {}" using assms(9) by (force simp: release_times_def)
  then show ?case by (simp add: seen_def)
next
  case (Suc k)
  then have k: "k < n" by simp
  let ?s = "after_rounds cfg env k s"
  have W: "fc_submission_window ?s = fc_submission_window s"
    using reported_rounds[OF assms(1-3), of k] k by simp
  note done_k = round_done_epoch[where e = e, OF reported_round_at(2)[OF assms(1-3) k], unfolded W]
  have rel: "{rt. (rt, e) \<in> released_in (rep k)} = (if k = i then {now} else {})"
    using assms(6-8) k released_in_events[of _ e "rep k"] by auto
  have times: "release_times (after_rounds cfg env (Suc k) s) e =
      {rt \<in> release_times ?s e. \<not> due_in cfg (fc_submission_window s) rt (rep k)} \<union> (if k = i then {now} else {})"
    using done_k(1) rel by simp
  moreover have "{rt \<in> release_times ?s e. \<not> due_in cfg (fc_submission_window s) rt (rep k)} =
      (if i < k \<and> k < j then {now} else {})"
    using Suc k assms(10,11) by auto
  moreover have "records (fc_abs_of (after_rounds cfg env (Suc k) s)) e = records (seen (Suc k)) e" if "Suc k \<le> j"
  proof -
    have "\<forall>rt \<in> release_times ?s e. \<not> due_in cfg (fc_submission_window s) rt (rep k)"
      using Suc k that assms(11) by auto
    note done_k(2)[OF this]
    also have "records (fold abs_log (events_in (rep k)) (fc_abs_of ?s)) e =
        records (fold abs_log (events_in (rep k)) (seen k)) e"
      using Suc k that by (intro records_logs) simp
    finally show ?thesis by (simp add: seen_def)
  qed
  ultimately show ?case using ij by auto
qed


text \<open>
  C5: an epoch whose release is read in round \<open>i\<close>, and in no other, and which is first due in
  round \<open>j\<close>, is completed in round \<open>j\<close> and in no other round: exactly those of its projects get a
  transaction that the events up to round \<open>j\<close> show as submitted and not as finalized, whatever
  happened to other epochs in between and however many rounds were idle. The states are those the
  loop of the service goes through.
\<close>

theorem epochs_completed_once_due:
  assumes "sound_env env depth" and "serving cfg depth h s"
    and "\<forall>k<n. reported cfg env (after_rounds cfg env k s) (rep k)"
    and "i < j" "j < n" and "rep i = Worked cur now evs" and "e \<in> released evs"
    and "\<forall>k<n. k \<noteq> i \<longrightarrow> e \<notin> released (events_in (rep k))" and "e \<notin> snd ` set (fc_pending_epochs s)"
    and "due_in cfg (fc_submission_window s) now (rep j)"
    and "\<forall>k. i < k \<and> k < j \<longrightarrow> \<not> due_in cfg (fc_submission_window s) now (rep k)"
  defines "books \<equiv> fold abs_log (concat (map (\<lambda>k. events_in (rep k)) [0..<Suc j])) (fc_abs_of s)"
  shows "service_loop cfg env n s = (Pending, after_rounds cfg env n s) \<and>
    (\<forall>k<n. \<exists>evs. trace (after_rounds cfg env (Suc k) s) = trace (after_rounds cfg env k s) @ evs \<and>
       (\<forall>p. [p, e] \<in> set (map tx_args (submitted evs)) \<longleftrightarrow>
          k = j \<and> (e, p) \<in> a_submitted books \<and> (e, p) \<notin> a_finalized books))"
proof (intro conjI allI impI)
  show "service_loop cfg env n s = (Pending, after_rounds cfg env n s)"
    using service_loop_after reported_round_at(1)[OF assms(1-3)] by blast
next
  fix k assume k: "k < n"
  let ?s = "after_rounds cfg env k s" and ?seen = "\<lambda>k. fold abs_log (concat (map (\<lambda>k. events_in (rep k)) [0..<k])) (fc_abs_of s)"
  let ?after = "fold abs_log (events_in (rep k)) (fc_abs_of ?s)"
  from k have "k \<le> n" by simp
  note life = epoch_life[OF assms(1-11) this]
  have W: "fc_submission_window ?s = fc_submission_window s"
    using reported_rounds[OF assms(1-3), of k] k by simp
  from round_done_epoch(3)[where e = e, OF reported_round_at(2)[OF assms(1-3) k], unfolded W] obtain evs where
    evs: "trace (after_rounds cfg env (Suc k) s) = trace ?s @ evs"
      "\<forall>p. [p, e] \<in> set (map tx_args (submitted evs)) \<longleftrightarrow>
         (\<exists>rt \<in> release_times ?s e. due_in cfg (fc_submission_window s) rt (rep k)) \<and>
         (e, p) \<in> a_submitted ?after \<and> (e, p) \<notin> a_finalized ?after" by blast
  have due: "(\<exists>rt \<in> release_times ?s e. due_in cfg (fc_submission_window s) rt (rep k)) \<longleftrightarrow> k = j"
    using life assms(4,10,11) by (auto simp: not_less_iff_gr_or_eq[symmetric] split: if_splits)
  have "records ?after e = records books e" if "k = j"
    using life that by (simp add: books_def) (rule records_logs, simp)
  then have "(e, p) \<in> a_submitted ?after \<longleftrightarrow> (e, p) \<in> a_submitted books"
    "(e, p) \<in> a_finalized ?after \<longleftrightarrow> (e, p) \<in> a_finalized books" if "k = j" for p
    using that by (auto simp: records_def set_eq_iff)
  with evs due show "\<exists>evs. trace (after_rounds cfg env (Suc k) s) = trace ?s @ evs \<and>
      (\<forall>p. [p, e] \<in> set (map tx_args (submitted evs)) \<longleftrightarrow>
         k = j \<and> (e, p) \<in> a_submitted books \<and> (e, p) \<notin> a_finalized books)" by metis
qed


section \<open>Witness\<close>

text \<open>
  Two rounds of an example service: in the first epoch 9 is released and a project submitted for it,
  in the second, a hundred seconds later, nothing happens on the chain. The world counts the rounds.
\<close>

definition life_events :: "nat \<Rightarrow> json list" where
  "life_events k = (if k = 0 then
     [JObj [(''topics'', JList [JStr ''0xaa'']), (''event'', JStr ''EpochReleased''), (''args'', JObj [(''epochId'', JInt 9)])],
      JObj [(''topics'', JList [JStr ''0xaa'']), (''event'', JStr ''SnapshotSubmitted''),
        (''args'', JObj [(''epochId'', JInt 9), (''projectId'', JStr ''new'')])]] else [])"

definition life_env :: "(nat, nat \<times> nat) fc_env" where
  "life_env = (fc_env_of (pool_env open_limiter))\<lparr>
     eth_block_number := (\<lambda>u w. (Inr (130 + 10 * int w), w)), eth_get_logs := (\<lambda>u q w. (Inr (life_events w), w)),
     time_time := (\<lambda>w. (Inr (1000 + 100 * real w), w)), async_sleep := (\<lambda>n w. (Inr (), w + 1))\<rparr>"

lemma life_env_simps:
  "to_checksum_address life_env a = Inr a" "get_event_data life_env abi evlog = Inr evlog"
  "eth_get_logs life_env url q w = (Inr (life_events w), w)" "eth_block_number life_env url w = (Inr (130 + 10 * int w), w)"
  "time_time life_env w = (Inr (1000 + 100 * real w), w)" "async_sleep life_env n w = (Inr (), w + 1)"
  "redis_zadd life_env k m t w = (Inr (), w)" "redis_zremrangebyscore life_env k b c w = (Inr (), w)"
  "redis_set life_env h x v w = (Inr (), w)" "tenacity (retry_events life_env)" "tenacity (retry_make life_env)"
  "fc_lock life_env = counting_lock" "random_choice life_env n w = (Inr 50, w)"
  "iter_epochs life_env ps = ps" "iter_projects life_env xs = xs"
  by (simp_all add: life_env_def fc_env_simps plain_retry_tenacity)

lemma life_sound: "sound_env life_env counting_depth"
proof -
  have "healthy life_env"
    by (simp add: healthy_def accepts_def life_env_def fc_env_simps)
  then show ?thesis
    by (simp add: sound_env_def life_env_simps counting_lock_writer_lock counting_lock_available)
qed

definition life_fc :: "(nat, nat \<times> nat) force_consensus" where
  "life_fc = (example_fc_at 0)\<lparr>fc_pending_epochs := []\<rparr>"

definition answering :: "(nat, nat \<times> nat) force_consensus \<Rightarrow> bool" where
  "answering s \<longleftrightarrow> rh_initialized s \<and> rh_shas s = Some [(''s'', ''sha'')] \<and>
     rh_nodes s = [\<lparr>nd_url = ''a'', nd_rate_limit = [], nd_async = True\<rparr>, \<lparr>nd_url = ''b'', nd_rate_limit = [], nd_async = True\<rparr>] \<and>
     fc_event_sig s = [''0xaa''] \<and> fc_event_abi s = [(''0xaa'', JNull)] \<and>
     fc_writer s = Some \<lparr>rd_url = ''r'', rd_size = 200\<rparr>"

lemma life_head:
  assumes "answering s"
  shows "\<exists>tr. get_current_block life_env 0 s = (Ret (130 + 10 * int (ext s)), s\<lparr>trace := tr\<rparr>)"
proof -
  have init: "ensure_init life_env s = (Ret (), s)"
    using assms by (simp add: answering_def ensure_init_def M_defs)
  show ?thesis
    unfolding get_current_block_def thenM_Ret[where m = "ensure_init life_env", OF init]
    using assms
    by (simp add: answering_def py_index_def
        check_node_limit_def check_rpc_rate_limit_def generic_rate_limiter_def record_call_def nowM_def life_env_simps
        M_defs Let_def) blast
qed

lemma mapM_decoded: "\<forall>l \<in> set xs. f l = Inr l \<Longrightarrow> mapM (\<lambda>l. liftM (f l)) xs v = (Ret xs, v)"
  by (induction xs) (simp_all add: M_defs)

lemma life_decoded:
  "mapM (\<lambda>l. liftM (decode_log life_env [(''0xaa'', JNull)] l)) (life_events k) v = (Ret (life_events k), v)"
  by (rule mapM_decoded) (auto simp: decode_log_def log_topic_def life_events_def life_env_simps)

lemma life_query:
  assumes "answering s"
  shows "\<exists>tr. events_query example_settings life_env cur s =
    (Ret (life_events (ext s)), s\<lparr>fc_last_processed_block := clamp_last_processed example_settings cur (fc_last_processed_block s),
       trace := tr\<rparr>)"
proof -
  let ?l = "clamp_last_processed example_settings cur (fc_last_processed_block s)"
  let ?s = "s\<lparr>fc_last_processed_block := ?l\<rparr>" and ?topics = "JList [JList (map JStr (fc_event_sig s))]"
    and ?a = "protocol_state_address example_settings"
  have init: "ensure_init life_env ?s = (Ret (), ?s)"
    using assms by (simp add: answering_def ensure_init_def M_defs)
  obtain tr where attempt: "get_events_logs_attempt life_env ?a cur (?l + 1) ?topics (fc_event_abi s) 0 ?s =
      (Ret (life_events (ext s)), ?s\<lparr>trace := tr\<rparr>)"
    using assms
    by (simp add: get_events_logs_attempt_def fetch_logs_def py_index_def check_node_limit_def check_rpc_rate_limit_def
        generic_rate_limiter_def record_call_def life_decoded
        async_client_def nowM_def answering_def life_env_simps M_defs Let_def)
  from tenacity_Ret[OF life_env_simps(10), where f = "get_events_logs_attempt life_env ?a cur (?l + 1) ?topics (fc_event_abi s)",
      OF attempt]
  show ?thesis
    by (simp add: events_query_def get_events_logs_def Let_def thenM_Ret[where m = "ensure_init life_env", OF init]) blast
qed


lemma life_fc_simps:
  "answering life_fc" "ext life_fc = 0" "fc_last_processed_block life_fc = 90" "fc_pending_epochs life_fc = []"
  "fc_submission_window life_fc = 10" "fc_writer life_fc = Some \<lparr>rd_url = ''r'', rd_size = 200\<rparr>"
  "unlocked counting_depth life_fc"
  by (simp_all add: life_fc_def answering_def unlocked_def counting_depth_def round_fc)

lemma life_first:
  "\<exists>t. fc_round example_settings life_env life_fc = (Ret (), t) \<and> answering t \<and> ext t = 1 \<and> fc_last_processed_block t = 130"
proof -
  obtain tr where head: "get_current_block life_env 0 life_fc = (Ret 130, life_fc\<lparr>trace := tr\<rparr>)" (is "_ = (_, ?t)")
    using life_head[OF life_fc_simps(1)] by (auto simp: life_fc_simps)
  have "answering ?t" using life_fc_simps(1) by (simp add: answering_def)
  have clamp: "clamp_last_processed example_settings 130 90 = 110"
    by (simp add: clamp_last_processed_def example_settings_def)
  let ?q = "?t\<lparr>fc_last_processed_block := 110\<rparr>"
  obtain tr2 where query: "get_events_logs example_settings life_env (protocol_state_address example_settings) 130 111
      (JList [JList (map JStr (fc_event_sig life_fc))]) (fc_event_abi life_fc) ?q =
      (Ret (life_events 0), ?q\<lparr>trace := tr2\<rparr>)"
    using life_query[OF \<open>answering ?t\<close>, of 130] by (auto simp: events_query_def Let_def clamp life_fc_simps)
  let ?v = "?q\<lparr>trace := tr2, fc_pending_epochs := [(1000, JInt 9)],
      fc_submitted := dd_add (JInt 9) (JStr ''new'') (dd_touch (JInt 9) (fc_submitted life_fc))\<rparr>"
  have "forM (life_events 0) (handle_log life_env) (?q\<lparr>trace := tr2\<rparr>) = (Ret (), ?v)"
    by (simp add: life_events_def handle_log_def event_arg_def nowM_def life_env_simps life_fc_simps M_defs)
  then have read: "get_events example_settings life_env 111 130 ?q = (Ret (), ?v\<lparr>trace := tr2 @ [SpawnForceConsensus]\<rparr>)"
    using query by (simp add: get_events_def the_pool_def life_fc_simps M_defs)
  let ?key = "RedisSet event_detector_last_processed_block (json_dumps (JInt 130))"
  let ?x = "?v\<lparr>trace := tr2 @ [SpawnForceConsensus, ?key], fc_last_processed_block := 130\<rparr>"
  have saved: "save_last_processed life_env 130 (?v\<lparr>trace := tr2 @ [SpawnForceConsensus], fc_last_processed_block := 130\<rparr>) = (Ret (), ?x)"
    by (simp add: save_last_processed_def the_pool_def life_env_simps life_fc_simps M_defs Let_def)
  have complete: "force_complete_consensus example_settings life_env ?x = (Ret (), ?x)"
    by (simp add: force_complete_consensus_def epoch_due_def example_window nowM_def life_env_simps life_fc_simps M_defs)
  have load: "load_last_processed life_env 130 ?t = (Ret (), ?t)"
    by (simp add: load_last_processed_def life_fc_simps M_defs)
  let ?y = "?x\<lparr>ext := 1, trace := trace ?x @ [AsyncSleep 2]\<rparr>"
  have slept: "poll_sleep example_settings life_env ?x = (Ret (), ?y)"
    by (simp add: poll_sleep_def asyncSleepM_def life_env_simps life_fc_simps example_settings_def M_defs)
  have spawned: "spawnM (force_complete_consensus example_settings life_env) ?x = (Ret (), ?x)"
    by (simp only: spawnM_def complete snd_conv)
  have rest: "thenM (save_last_processed life_env 130) (thenM (spawnM (force_complete_consensus example_settings life_env))
      (poll_sleep example_settings life_env)) (?v\<lparr>trace := tr2 @ [SpawnForceConsensus], fc_last_processed_block := 130\<rparr>) = (Ret (), ?y)"
    by (simp only: thenM_Ret[where m = "save_last_processed life_env 130", OF saved]
        thenM_Ret[where m = "spawnM (force_complete_consensus example_settings life_env)", OF spawned] slept)
  have "process_blocks example_settings life_env 130 ?t = (Ret (), ?y)"
    unfolding process_blocks_def thenM_Ret[where m = "load_last_processed life_env 130", OF load]
    using rest by (simp add: M_step life_fc_simps clamp try_elseM_Ret[where m = "get_events example_settings life_env 111 130", OF read])
  moreover have "fc_round example_settings life_env life_fc = process_blocks example_settings life_env 130 ?t"
    by (rule head_read[OF head life_fc_simps(6), of example_settings]) simp
  ultimately show ?thesis
    using life_fc_simps(1) by (simp add: answering_def)
qed


lemma life_events_say:
  "map event_of (life_events 0) = [Some (Released (JInt 9)), Some (Submitted (JInt 9) (JStr ''new''))]"
  "\<forall>l \<in> set (life_events k). readable l"
  by (auto simp: life_events_def event_of_def event_arg_def readable_def)

lemma life_reported:
  assumes "answering s" and "clamp_last_processed example_settings (130 + 10 * int (ext s)) (fc_last_processed_block s) \<noteq> 130 + 10 * int (ext s)"
  shows "reported example_settings life_env s
    (Worked (130 + 10 * int (ext s)) (1000 + 100 * real (ext s)) (life_events (ext s)))"
proof -
  from life_head[OF assms(1)] obtain tr where
    head: "get_current_block life_env 0 s = (Ret (130 + 10 * int (ext s)), s\<lparr>trace := tr\<rparr>)" ..
  have "answering (s\<lparr>trace := tr\<rparr>)" using assms(1) by (simp add: answering_def)
  from life_query[OF this, of "130 + 10 * int (ext s)"] obtain u where
    query: "events_query example_settings life_env (130 + 10 * int (ext s)) (s\<lparr>trace := tr\<rparr>) = (Ret (life_events (ext s)), u)"
      "ext u = ext s" by auto
  have "clock_at life_env (1000 + 100 * real (ext s)) (\<lambda>w. w = ext s)"
    by (simp add: clock_at_def life_env_simps)
  moreover have "\<forall>h v w. w = ext s \<longrightarrow> (\<exists>w'. redis_set life_env h event_detector_last_processed_block v w = (Inr (), w') \<and> w' = ext s)"
    by (simp add: life_env_simps)
  ultimately show ?thesis
    using assms(2) head query life_events_say(2)[of "ext s"]
    unfolding reported.simps
    by (intro conjI exI[of _ "\<lambda>w. w = ext s"] exI[of _ "s\<lparr>trace := tr\<rparr>"] exI[of _ u]) simp_all
qed

theorem epochs_completed_once_due_witness:
  "\<exists>evs0 evs1. trace (after_rounds example_settings life_env 1 life_fc) = trace life_fc @ evs0 \<and>
     [JStr ''new'', JInt 9] \<notin> set (map tx_args (submitted evs0)) \<and>
     trace (after_rounds example_settings life_env 2 life_fc) = trace (after_rounds example_settings life_env 1 life_fc) @ evs1 \<and>
     [JStr ''new'', JInt 9] \<in> set (map tx_args (submitted evs1))"
proof -
  let ?rep = "\<lambda>k :: nat. if k = 0 then Worked 130 1000 (life_events 0) else Worked 140 1100 []"
  obtain t where t: "fc_round example_settings life_env life_fc = (Ret (), t)" "answering t" "ext t = 1" "fc_last_processed_block t = 130"
    using life_first by blast
  have "reported example_settings life_env life_fc (?rep 0)"
    using life_reported[of life_fc] by (simp add: life_fc_simps clamp_last_processed_def example_settings_def)
  moreover have "reported example_settings life_env t (?rep 1)"
    using life_reported[of t] t(2-4) by (simp add: life_events_def clamp_last_processed_def example_settings_def)
  ultimately have reported: "\<forall>k<2. reported example_settings life_env (after_rounds example_settings life_env k life_fc) (?rep k)"
    by (auto simp: less_2_cases_iff t(1))
  have serving: "serving example_settings counting_depth \<lparr>rd_url = ''r'', rd_size = 200\<rparr> life_fc"
    by (simp add: serving_def life_fc_simps example_window)
  have events: "JInt 9 \<in> released (life_events 0)"
    using life_events_say(1) by (force simp: released_def map_eq_Cons_conv)
  have due: "due_in example_settings (fc_submission_window life_fc) 1000 (?rep 1)"
    by (simp add: life_fc_simps epoch_due_def example_window)
  have books: "(JInt 9, JStr ''new'') \<in> a_submitted (fold abs_log (life_events 0) a)"
    "a_finalized (fold abs_log (life_events 0) a) = a_finalized a" for a
    using life_events_say(1) by (auto simp: abs_log_def map_eq_Cons_conv)
  have open_new: "(JInt 9, JStr ''new'') \<notin> a_finalized (fc_abs_of life_fc)"
    by (simp add: fc_abs_of_def pairs_def life_fc_def dd_get_def)
  have others: "\<forall>k<2. k \<noteq> 0 \<longrightarrow> JInt 9 \<notin> released (events_in (?rep k))" "JInt 9 \<notin> snd ` set (fc_pending_epochs life_fc)"
    "\<forall>k. 0 < k \<and> k < 1 \<longrightarrow> \<not> due_in example_settings (fc_submission_window life_fc) 1000 (?rep k)"
    by (simp_all add: released_def life_fc_simps)
  have "?rep 0 = Worked 130 1000 (life_events 0)" by simp
  from epochs_completed_once_due[where rep = ?rep and i = 0 and j = 1 and n = 2, OF life_sound serving reported _ _ this events others(1,2) due others(3)]
  have run: "\<forall>k<2. \<exists>evs. trace (after_rounds example_settings life_env (Suc k) life_fc) =
        trace (after_rounds example_settings life_env k life_fc) @ evs \<and>
     (\<forall>p. [p, JInt 9] \<in> set (map tx_args (submitted evs)) \<longleftrightarrow> k = 1 \<and>
        (JInt 9, p) \<in> a_submitted (fold abs_log (life_events 0) (fc_abs_of life_fc)) \<and>
        (JInt 9, p) \<notin> a_finalized (fold abs_log (life_events 0) (fc_abs_of life_fc)))"
    by simp
  from run[rule_format, of 0] run[rule_format, of 1] books open_new show ?thesis
    by (auto simp: numeral_2_eq_2)
qed

end
