(* ===== verification/Lua_Scripts.thy ===== *)
theory Lua_Scripts
  imports Rate_Limiter
begin

text \<open>
  The Lua scripts of \<^verbatim>\<open>utils/rate_limiter.py\<close>, which run inside the Redis server. The commands of
  the server are parameters (\<open>lua_redis\<close>), and \<open>redis_documented\<close> states what its documentation
  says of them: a server is a map from its live keys to their values and expiry times, and a clock.
  Numbers of a Lua script are double precision floats, which hold integers exactly up to \<open>2 ^ 53\<close>.
\<close>

section \<open>Scripts\<close>

type_synonym ('r, 'a) lua = "'r \<Rightarrow> (exn + 'a) \<times> 'r"

definition lua_return :: "'a \<Rightarrow> ('r, 'a) lua" where
  "lua_return a s = (Inr a, s)"

text \<open>An error of a \<^verbatim>\<open>redis.call\<close> ends the script.\<close>

definition lua_bind :: "('r, 'a) lua \<Rightarrow> ('a \<Rightarrow> ('r, 'b) lua) \<Rightarrow> ('r, 'b) lua" where
  "lua_bind m f s = (case m s of (Inl e, t) \<Rightarrow> (Inl e, t) | (Inr a, t) \<Rightarrow> f a t)"

record 'r lua_redis =
  cmd_incrby :: "string \<Rightarrow> int \<Rightarrow> ('r, int) lua"
  cmd_expire :: "string \<Rightarrow> int \<Rightarrow> ('r, int) lua"
  cmd_ttl :: "string \<Rightarrow> ('r, int) lua"
  cmd_set :: "string \<Rightarrow> string \<Rightarrow> ('r, string) lua"
  cmd_keys :: "string \<Rightarrow> ('r, string list) lua"
  cmd_del :: "string list \<Rightarrow> ('r, int) lua"
  lua_number :: "int \<Rightarrow> real"

definition script_incr_expire :: "'r lua_redis \<Rightarrow> string \<Rightarrow> int \<Rightarrow> int \<Rightarrow> ('r, int) lua" where
  "script_incr_expire R key expiry amount =
     lua_bind (cmd_incrby R key amount) (\<lambda>reply.
     let current = lua_number R reply in
     lua_bind (if current = lua_number R amount
               then lua_bind (cmd_expire R key expiry) (\<lambda>_. lua_return ()) else lua_return ())
       (\<lambda>_. lua_return (py_trunc current)))"

definition script_set_expire :: "'r lua_redis \<Rightarrow> string \<Rightarrow> string \<Rightarrow> int \<Rightarrow> ('r, string) lua" where
  "script_set_expire R key value expiry =
     lua_bind (cmd_ttl R key) (\<lambda>keyttl.
     lua_bind (cmd_set R key value) (\<lambda>current.
     lua_bind (if keyttl = - 2 then lua_bind (cmd_expire R key expiry) (\<lambda>_. lua_return ())
               else if keyttl \<noteq> - 1 then lua_bind (cmd_expire R key keyttl) (\<lambda>_. lua_return ())
               else lua_return ())
       (\<lambda>_. lua_return current)))"

text \<open>The loop \<^verbatim>\<open>for i=1,#keys,5000\<close>, from \<open>i\<close> on; \<^verbatim>\<open>unpack(keys, i, j)\<close> is \<open>keys[i], ..., keys[j]\<close>.\<close>

definition unpack :: "'a list \<Rightarrow> nat \<Rightarrow> nat \<Rightarrow> 'a list" where
  "unpack xs i j = take (j + 1 - i) (drop (i - 1) xs)"

function clear_loop :: "'r lua_redis \<Rightarrow> string list \<Rightarrow> nat \<Rightarrow> int \<Rightarrow> ('r, int) lua" where
  "clear_loop R keys i res =
     (if i \<le> length keys
      then lua_bind (cmd_del R (unpack keys i (min (i + 4999) (length keys))))
             (\<lambda>n. clear_loop R keys (i + 5000) (res + n))
      else lua_return res)"
  by pat_completeness auto
termination
  by (relation "measure (\<lambda>(R, keys, i, res). length keys + 1 - i)") auto

declare clear_loop.simps [simp del]

definition script_clear_keys :: "'r lua_redis \<Rightarrow> string \<Rightarrow> ('r, int) lua" where
  "script_clear_keys R pattern = lua_bind (cmd_keys R pattern) (\<lambda>keys. clear_loop R keys 1 0)"

lemmas lua_defs = lua_return_def lua_bind_def

section \<open>The server\<close>

text \<open>
  \<open>look s k\<close> is the value of a live key with the time at which it expires, if it does; \<open>now s\<close> is
  the server's clock, in seconds; \<open>glob p k\<close> says that the key matches the pattern.
\<close>

definition redis_documented ::
  "'r lua_redis \<Rightarrow> ('r \<Rightarrow> string \<Rightarrow> (string \<times> real option) option) \<Rightarrow> ('r \<Rightarrow> real) \<Rightarrow>
     (string \<Rightarrow> string \<Rightarrow> bool) \<Rightarrow> bool" where
  "redis_documented R look now glob \<longleftrightarrow>
     (\<forall>s k n. look s k = None \<longrightarrow> - (2 ^ 63) \<le> n \<and> n < 2 ^ 63 \<longrightarrow>
        (\<exists>t. cmd_incrby R k n s = (Inr n, t) \<and> look t = (look s)(k \<mapsto> (int_str n, None)) \<and> now t = now s)) \<and>
     (\<forall>s k n v e. look s k = Some (int_str v, e) \<longrightarrow> - (2 ^ 63) \<le> v + n \<and> v + n < 2 ^ 63 \<longrightarrow>
        (\<exists>t. cmd_incrby R k n s = (Inr (v + n), t) \<and> look t = (look s)(k \<mapsto> (int_str (v + n), e)) \<and> now t = now s)) \<and>
     (\<forall>s k d v e. look s k = Some (v, e) \<longrightarrow>
        (\<exists>t. cmd_expire R k d s = (Inr 1, t) \<and> now t = now s \<and>
             look t = (if 0 < d then (look s)(k \<mapsto> (v, Some (now s + of_int d))) else (look s)(k := None)))) \<and>
     (\<forall>s k. \<exists>r. cmd_ttl R k s = (Inr r, s) \<and>
        (case look s k of
           None \<Rightarrow> r = - 2
         | Some (v, None) \<Rightarrow> r = - 1
         | Some (v, Some e) \<Rightarrow> 0 \<le> r \<and> \<bar>of_int r - (e - now s)\<bar> \<le> 1)) \<and>
     (\<forall>s k v. \<exists>t. cmd_set R k v s = (Inr ''OK'', t) \<and> look t = (look s)(k \<mapsto> (v, None)) \<and> now t = now s) \<and>
     (\<forall>s p. \<exists>ks. cmd_keys R p s = (Inr ks, s) \<and> distinct ks \<and> set ks = {k. look s k \<noteq> None \<and> glob p k}) \<and>
     (\<forall>s ks. ks \<noteq> [] \<longrightarrow> (\<exists>t. cmd_del R ks s = (Inr (int (card {k \<in> set ks. look s k \<noteq> None})), t) \<and>
        look t = look s |` (- set ks) \<and> now t = now s)) \<and>
     (\<forall>s k v e. look s k = Some (v, Some e) \<longrightarrow> now s < e) \<and>
     (\<forall>i. \<bar>i\<bar> \<le> 2 ^ 53 \<longrightarrow> lua_number R i = of_int i)"

lemma redis_documentedD:
  assumes "redis_documented R look now glob"
  shows redis_incr_new: "look s k = None \<Longrightarrow> - (2 ^ 63) \<le> n \<Longrightarrow> n < 2 ^ 63 \<Longrightarrow>
      \<exists>t. cmd_incrby R k n s = (Inr n, t) \<and> look t = (look s)(k \<mapsto> (int_str n, None)) \<and> now t = now s"
    and redis_incr: "look s k = Some (int_str v, e) \<Longrightarrow> - (2 ^ 63) \<le> v + n \<Longrightarrow> v + n < 2 ^ 63 \<Longrightarrow>
      \<exists>t. cmd_incrby R k n s = (Inr (v + n), t) \<and> look t = (look s)(k \<mapsto> (int_str (v + n), e)) \<and> now t = now s"
    and redis_expire: "look s k = Some (x, e) \<Longrightarrow>
      \<exists>t. cmd_expire R k d s = (Inr 1, t) \<and> now t = now s \<and>
        look t = (if 0 < d then (look s)(k \<mapsto> (x, Some (now s + of_int d))) else (look s)(k := None))"
    and redis_ttl: "\<exists>r. cmd_ttl R k s = (Inr r, s) \<and>
      (case look s k of
         None \<Rightarrow> r = - 2
       | Some (v, None) \<Rightarrow> r = - 1
       | Some (v, Some e) \<Rightarrow> 0 \<le> r \<and> \<bar>of_int r - (e - now s)\<bar> \<le> 1)"
    and redis_set: "\<exists>t. cmd_set R k x s = (Inr ''OK'', t) \<and> look t = (look s)(k \<mapsto> (x, None)) \<and> now t = now s"
    and redis_keys: "\<exists>ks. cmd_keys R p s = (Inr ks, s) \<and> distinct ks \<and> set ks = {k. look s k \<noteq> None \<and> glob p k}"
    and redis_del: "ks \<noteq> [] \<Longrightarrow> \<exists>t. cmd_del R ks s = (Inr (int (card {k \<in> set ks. look s k \<noteq> None})), t) \<and>
      look t = look s |` (- set ks) \<and> now t = now s"
    and redis_live: "look s k = Some (x, Some b) \<Longrightarrow> now s < b"
    and lua_number_exact: "\<bar>i\<bar> \<le> 2 ^ 53 \<Longrightarrow> lua_number R i = of_int i"
proof (goal_cases)
  case 1
  then show ?case using assms[unfolded redis_documented_def, THEN conjunct1] by blast
next
  case 2
  then show ?case using assms[unfolded redis_documented_def, THEN conjunct2, THEN conjunct1] by blast
next
  case 3
  then show ?case using assms[unfolded redis_documented_def, THEN conjunct2, THEN conjunct2, THEN conjunct1] by blast
next
  case 4
  then show ?case using assms[unfolded redis_documented_def, THEN conjunct2, THEN conjunct2, THEN conjunct2, THEN conjunct1] by blast
next
  case 5
  then show ?case using assms[unfolded redis_documented_def, THEN conjunct2, THEN conjunct2, THEN conjunct2, THEN conjunct2, THEN conjunct1] by blast
next
  case 6
  then show ?case using assms[unfolded redis_documented_def, THEN conjunct2, THEN conjunct2, THEN conjunct2, THEN conjunct2, THEN conjunct2, THEN conjunct1] by blast
next
  case 7
  then show ?case using assms[unfolded redis_documented_def, THEN conjunct2, THEN conjunct2, THEN conjunct2, THEN conjunct2, THEN conjunct2, THEN conjunct2, THEN conjunct1] by blast
next
  case 8
  then show ?case using assms[unfolded redis_documented_def, THEN conjunct2, THEN conjunct2, THEN conjunct2, THEN conjunct2, THEN conjunct2, THEN conjunct2, THEN conjunct2, THEN conjunct1] by blast
next
  case 9
  then show ?case using assms[unfolded redis_documented_def, THEN conjunct2, THEN conjunct2, THEN conjunct2, THEN conjunct2, THEN conjunct2, THEN conjunct2, THEN conjunct2, THEN conjunct2] by blast
qed

section \<open>The fixed window\<close>

text \<open>
  What the counter of a limit should be: the number counted in the current window and the end of
  the window. A hit within the window adds to the number; a hit after it opens a new one.
\<close>

definition window_hit :: "int \<Rightarrow> int \<Rightarrow> real \<Rightarrow> (int \<times> real) option \<Rightarrow> int \<times> real" where
  "window_hit expiry amount t w =
     (case w of
        Some (c, e) \<Rightarrow> if t < e then (c + amount, e) else (amount, t + of_int expiry)
      | None \<Rightarrow> (amount, t + of_int expiry))"

fun window_hits :: "int \<Rightarrow> int \<Rightarrow> real \<Rightarrow> (int \<times> real) option \<Rightarrow> real list \<Rightarrow> (int \<times> real) list" where
  "window_hits expiry amount t w [] = []"
| "window_hits expiry amount t w (d # ds) =
     (let c = window_hit expiry amount (t + d) w in c # window_hits expiry amount (t + d) (Some c) ds)"

text \<open>
  Between two hits the clock advances by \<open>d\<close>, and the other clients of the server do what they
  please with the other keys.
\<close>

definition passes ::
  "('r \<Rightarrow> string \<Rightarrow> (string \<times> real option) option) \<Rightarrow> ('r \<Rightarrow> real) \<Rightarrow> string \<Rightarrow> ('r \<Rightarrow> 'r) \<Rightarrow> real \<Rightarrow> bool" where
  "passes look now k g d \<longleftrightarrow>
     (\<forall>s. now (g s) = now s + d \<and>
          look (g s) k = (case look s k of
                            Some (v, Some e) \<Rightarrow> if now s + d < e then Some (v, Some e) else None
                          | x \<Rightarrow> x))"

fun run_hits :: "'r lua_redis \<Rightarrow> string \<Rightarrow> int \<Rightarrow> int \<Rightarrow> ('r \<Rightarrow> 'r) list \<Rightarrow> ('r, int list) lua" where
  "run_hits R k expiry amount [] s = (Inr [], s)"
| "run_hits R k expiry amount (g # gs) s =
     lua_bind (script_incr_expire R k expiry amount) (\<lambda>c.
     lua_bind (run_hits R k expiry amount gs) (\<lambda>cs. lua_return (c # cs))) (g s)"

text \<open>The counter of a key: absent, or a number with a time at which it expires.\<close>

definition counter_at ::
  "('r \<Rightarrow> string \<Rightarrow> (string \<times> real option) option) \<Rightarrow> string \<Rightarrow> (int \<times> real) option \<Rightarrow> 'r \<Rightarrow> bool" where
  "counter_at look k w s \<longleftrightarrow> look s k = map_option (\<lambda>(c, e). (int_str c, Some e)) w"

lemma script_incr_expire_hit:
  assumes redis: "redis_documented R look now glob"
    and "counter_at look k w s" and "0 < amount" and "0 < expiry" and "amount \<le> 2 ^ 53"
    and "\<And>c e. w = Some (c, e) \<Longrightarrow> 0 < c \<and> c + amount \<le> 2 ^ 53 \<and> now s < e"
  shows "\<exists>t. script_incr_expire R k expiry amount s = (Inr (fst (window_hit expiry amount (now s) w)), t) \<and>
     counter_at look k (Some (window_hit expiry amount (now s) w)) t \<and> now t = now s \<and>
     (\<forall>k'. k' \<noteq> k \<longrightarrow> look t k' = look s k')"
proof (cases w)
  case None
  with assms have "look s k = None" by (simp add: counter_at_def)
  with redis_incr_new[OF redis, of s k amount] assms obtain u where
    u: "cmd_incrby R k amount s = (Inr amount, u)" "look u = (look s)(k \<mapsto> (int_str amount, None))" "now u = now s"
    by auto
  with redis_expire[OF redis, of u k "int_str amount" None expiry] assms obtain t where
    "cmd_expire R k expiry u = (Inr 1, t)" "now t = now s"
    "look t = (look s)(k \<mapsto> (int_str amount, Some (now s + of_int expiry)))"
    by auto
  with u lua_number_exact[OF redis, of amount] assms None show ?thesis
    by (simp add: script_incr_expire_def lua_defs window_hit_def counter_at_def)
next
  case (Some ce)
  then obtain c e where w: "w = Some (c, e)" by (cases ce) simp
  with assms have "look s k = Some (int_str c, Some e)" "0 < c" "c + amount \<le> 2 ^ 53" "now s < e"
    by (simp_all add: counter_at_def)
  with redis_incr[OF redis, of s k c "Some e" amount] assms obtain u where
    u: "cmd_incrby R k amount s = (Inr (c + amount), u)"
      "look u = (look s)(k \<mapsto> (int_str (c + amount), Some e))" "now u = now s"
    by auto
  with lua_number_exact[OF redis, of amount] lua_number_exact[OF redis, of "c + amount"] assms w
    \<open>0 < c\<close> \<open>c + amount \<le> 2 ^ 53\<close> \<open>now s < e\<close>
  show ?thesis
    by (simp add: script_incr_expire_def lua_defs window_hit_def counter_at_def flip: of_int_add)
qed

lemma passes_counter:
  assumes "passes look now k g d" and "counter_at look k w s" and "0 \<le> d"
  shows "now (g s) = now s + d"
    and "counter_at look k (case w of None \<Rightarrow> None | Some (c, e) \<Rightarrow> if now s + d < e then Some (c, e) else None) (g s)"
  using assms by (auto simp: passes_def counter_at_def split: option.splits)

lemma window_hit_expired:
  "window_hit expiry amount t (case w of None \<Rightarrow> None | Some (c, e) \<Rightarrow> if t < e then Some (c, e) else None) =
     window_hit expiry amount t w"
  by (simp add: window_hit_def split: option.split)

lemma run_hits_window:
  assumes redis: "redis_documented R look now glob"
    and "list_all2 (passes look now k) gs ds" and "\<forall>d\<in>set ds. 0 \<le> d"
    and "counter_at look k w s" and "0 < amount" and "0 < expiry"
    and "(case w of None \<Rightarrow> True | Some (c, e) \<Rightarrow> 0 < c)"
    and "(case w of None \<Rightarrow> 0 | Some (c, e) \<Rightarrow> c) + amount * int (length gs) \<le> 2 ^ 53"
  shows "\<exists>t. run_hits R k expiry amount gs s = (Inr (map fst (window_hits expiry amount (now s) w ds)), t) \<and>
     now t = now s + sum_list ds \<and>
     counter_at look k (if ds = [] then w else Some (last (window_hits expiry amount (now s) w ds))) t"
  using assms(2-)
proof (induction gs arbitrary: ds w s)
  case Nil
  then show ?case by simp
next
  case (Cons g gs)
  from Cons.prems obtain d ds' where ds: "ds = d # ds'" "passes look now k g d" "list_all2 (passes look now k) gs ds'"
    by (auto simp: list_all2_Cons1)
  let ?w = "case w of None \<Rightarrow> None | Some (c, e) \<Rightarrow> if now s + d < e then Some (c, e) else None"
  let ?hit = "window_hit expiry amount (now s + d) w"
  from ds Cons.prems have now: "now (g s) = now s + d" and before: "counter_at look k ?w (g s)"
    by (auto dest: passes_counter)
  have fits: "amount \<le> 2 ^ 53"
    and small: "\<And>c e. ?w = Some (c, e) \<Longrightarrow> 0 < c \<and> c + amount \<le> 2 ^ 53 \<and> now (g s) < e"
    and hit: "0 < fst ?hit" "fst ?hit + amount * int (length gs) \<le> 2 ^ 53"
    using Cons.prems now by (auto simp: algebra_simps window_hit_def split: option.splits if_splits)
       (smt (verit) mult_nonneg_nonneg of_nat_0_le_iff)+
  from script_incr_expire_hit[OF redis before \<open>0 < amount\<close> \<open>0 < expiry\<close> fits small] now obtain u where
    u: "script_incr_expire R k expiry amount (g s) = (Inr (fst ?hit), u)" "counter_at look k (Some ?hit) u"
      "now u = now s + d"
    by (auto simp: window_hit_expired)
  from Cons.IH[OF ds(3) _ u(2)] Cons.prems ds hit obtain t where
    "run_hits R k expiry amount gs u = (Inr (map fst (window_hits expiry amount (now u) (Some ?hit) ds')), t)"
    "now t = now u + sum_list ds'"
    "counter_at look k (if ds' = [] then Some ?hit else Some (last (window_hits expiry amount (now u) (Some ?hit) ds'))) t"
    by (auto simp: case_prod_beta)
  with u ds show ?case
    by (cases ds') (auto simp: lua_defs Let_def)
qed

text \<open>
  C15: the counting script of the rate limiter implements a fixed window. As long as a counter stays
  within the numbers that Lua holds exactly, the replies of any sequence of hits, with any time
  between them, are the numbers of hits counted by \<open>window_hits\<close>, and the stored counter is the
  last of them with the end of its window; later hits do not put the end off.
\<close>

theorem script_incr_expire_refines_window:
  assumes redis: "redis_documented R look now glob"
    and "list_all2 (passes look now k) gs ds" and "\<forall>d\<in>set ds. 0 \<le> d"
    and "counter_at look k w s" and "0 < amount" and "0 < expiry"
    and "(case w of None \<Rightarrow> True | Some (c, e) \<Rightarrow> 0 < c)"
    and "(case w of None \<Rightarrow> 0 | Some (c, e) \<Rightarrow> c) + amount * int (length gs) \<le> 2 ^ 53"
  shows "\<exists>t. run_hits R k expiry amount gs s = (Inr (map fst (window_hits expiry amount (now s) w ds)), t) \<and>
     now t = now s + sum_list ds \<and>
     counter_at look k (if ds = [] then w else Some (last (window_hits expiry amount (now s) w ds))) t"
  using assms by (rule run_hits_window)

lemma window_hits_inside:
  assumes "t + sum_list ds < e" and "\<forall>d\<in>set ds. 0 \<le> d"
  shows "window_hits expiry amount t (Some (c, e)) ds = map (\<lambda>i. (c + amount * int (i + 1), e)) [0..<length ds]"
  using assms
proof (induction ds arbitrary: t c)
  case (Cons d ds)
  then have "0 \<le> sum_list ds" by (auto intro: sum_list_nonneg)
  with Cons.prems have "t + d < e" by simp
  with Cons show ?case
    by (simp add: window_hit_def Let_def map_upt_Suc algebra_simps del: upt_Suc)
qed simp

lemma within_limit:
  assumes "0 < amount" and "0 \<le> limit"
  shows "amount * (1 + int i) \<le> limit \<longleftrightarrow> i < nat (limit div amount)"
proof -
  have "amount * (1 + int i) \<le> limit \<longleftrightarrow> 1 + int i \<le> limit div amount"
    using zdiv_mono1[of "amount * (1 + int i)" limit amount] assms
    by (smt (verit) minus_mult_div_eq_mod mult_left_mono nonzero_mult_div_cancel_left pos_mod_sign)
  also have "\<dots> \<longleftrightarrow> int i < limit div amount" by linarith
  finally show ?thesis by (simp only: zless_nat_eq_int_zless)
qed

lemma count_upto_limit:
  assumes "0 < amount" and "0 \<le> limit"
  shows "length (filter (\<lambda>c. c \<le> limit) (map (\<lambda>i. amount * int (i + 1)) [0..<n])) = min n (nat (limit div amount))"
proof -
  have "length (filter (\<lambda>c. c \<le> limit) (map (\<lambda>i. amount * int (i + 1)) [0..<n])) =
      card {i. i < n \<and> i < nat (limit div amount)}"
    by (simp add: within_limit[OF assms] filter_map comp_def length_filter_conv_card cong: conj_cong)
  also have "{i. i < n \<and> i < nat (limit div amount)} = {..<min n (nat (limit div amount))}"
    by auto
  finally show ?thesis by simp
qed

text \<open>
  Hits on a fresh key that fall into one window, whose length is counted from the first of
  them, get the replies \<open>amount\<close>, \<open>2 * amount\<close> and so on; so a limiter that lets a call through
  when the reply is at most the limit lets through \<open>limit div amount\<close> calls of the window, and no
  more. The counter expires when the window ends, however many hits came after the first.
\<close>

lemma hits_within_window:
  assumes "redis_documented R look now glob"
    and passing: "list_all2 (passes look now k) (g # gs) (d # ds)" and nonneg: "\<forall>x\<in>set (d # ds). 0 \<le> x"
    and "look s k = None" and "sum_list ds < of_int expiry"
    and "0 < amount" and "0 \<le> limit" and "amount * int (length gs + 1) \<le> 2 ^ 53"
  shows "\<exists>cs t. run_hits R k expiry amount (g # gs) s = (Inr cs, t) \<and>
     cs = map (\<lambda>i. amount * int (i + 1)) [0..<length gs + 1] \<and>
     length (filter (\<lambda>c. c \<le> limit) cs) = min (length gs + 1) (nat (limit div amount)) \<and>
     look t k = Some (int_str (amount * int (length gs + 1)), Some (now s + d + of_int expiry))"
proof -
  have "0 \<le> sum_list ds" using nonneg by (auto intro: sum_list_nonneg)
  with assms have "0 < expiry" by linarith
  from list_all2_lengthD[OF passing] have len: "length ds = length gs" by simp
  have "counter_at look k None s" using assms by (simp add: counter_at_def)
  from run_hits_window[OF assms(1) passing nonneg this \<open>0 < amount\<close> \<open>0 < expiry\<close>] assms
  obtain t where t: "run_hits R k expiry amount (g # gs) s =
      (Inr (map fst (window_hits expiry amount (now s) None (d # ds))), t)"
    "counter_at look k (Some (last (window_hits expiry amount (now s) None (d # ds)))) t"
    by auto
  have hits: "window_hits expiry amount (now s) None (d # ds) =
      map (\<lambda>i. (amount * int (i + 1), now s + d + of_int expiry)) [0..<length gs + 1]"
    using window_hits_inside[of "now s + d" ds "now s + d + of_int expiry" expiry amount amount] assms len
    by (simp add: window_hit_def Let_def map_upt_Suc algebra_simps del: upt_Suc)
  with t(1) have "run_hits R k expiry amount (g # gs) s =
      (Inr (map (\<lambda>i. amount * int (i + 1)) [0..<length gs + 1]), t)"
    by (simp add: comp_def)
  moreover from t(2) hits have
    "look t k = Some (int_str (amount * int (length gs + 1)), Some (now s + d + of_int expiry))"
    by (simp add: counter_at_def)
  ultimately show ?thesis
    using count_upto_limit[OF \<open>0 < amount\<close> \<open>0 \<le> limit\<close>] by blast
qed

section \<open>Clearing keys\<close>

lemma unpack_clear: "0 < i \<Longrightarrow> unpack xs i (min (i + 4999) (length xs)) = take 5000 (drop (i - 1) xs)"
  by (simp add: unpack_def min_def)

lemma clear_loop_removes:
  assumes "redis_documented R look now glob" and "distinct keys" and "0 < i"
    and "\<forall>k\<in>set (drop (i - 1) keys). look s k \<noteq> None"
  shows "\<exists>t. clear_loop R keys i res s = (Inr (res + int (length (drop (i - 1) keys))), t) \<and>
     look t = look s |` (- set (drop (i - 1) keys)) \<and> now t = now s"
  using assms(3-)
proof (induction "length keys + 1 - i" arbitrary: i res s rule: less_induct)
  case less
  show ?case
  proof (cases "i \<le> length keys")
    case False
    moreover have "look s |` UNIV = look s" by (simp add: restrict_map_def)
    ultimately show ?thesis by (simp add: clear_loop.simps[of R keys i] lua_return_def)
  next
    case True
    obtain batch rest where batch: "take 5000 (drop (i - 1) keys) = batch" and rest: "drop (i + 5000 - 1) keys = rest"
      by blast
    have "i + 5000 - 1 = 5000 + (i - 1)" using less.prems by simp
    then have split: "drop (i - 1) keys = batch @ rest"
      using append_take_drop_id[of 5000 "drop (i - 1) keys"] by (simp only: drop_drop flip: batch rest)
    have apart: "distinct batch" "set batch \<inter> set rest = {}"
      using distinct_drop[OF \<open>distinct keys\<close>, of "i - 1"] unfolding split distinct_append by blast+
    have live: "\<forall>k\<in>set batch \<union> set rest. look s k \<noteq> None"
      using less.prems(2) by (simp only: split set_append)
    then have "{k \<in> set batch. look s k \<noteq> None} = set batch" by blast
    then have count: "card {k \<in> set batch. look s k \<noteq> None} = length batch"
      using apart by (simp only: distinct_card)
    from True less.prems batch have "batch \<noteq> []" by auto
    from redis_del[OF assms(1) this, of s] obtain u where
      u: "cmd_del R batch s = (Inr (int (length batch)), u)" "look u = look s |` (- set batch)" "now u = now s"
      unfolding count by blast
    have "\<forall>k\<in>set (drop (i + 5000 - 1) keys). look u k \<noteq> None"
      unfolding rest using live apart u by (auto simp: restrict_map_def)
    moreover have "length keys + 1 - (i + 5000) < length keys + 1 - i" using True by linarith
    ultimately obtain t where
      t: "clear_loop R keys (i + 5000) (res + int (length batch)) u =
          (Inr (res + int (length batch) + int (length rest)), t)"
      "look t = look u |` (- set rest)" "now t = now u"
      using less.hyps[of "i + 5000" u "res + int (length batch)"] unfolding rest by auto
    have "int (length batch) + int (length rest) = int (length (drop (i - 1) keys))"
      unfolding split by simp
    then have "clear_loop R keys i res s = (Inr (res + int (length (drop (i - 1) keys))), t)"
      using t(1) u(1) True less.prems batch
      by (simp add: clear_loop.simps[of R keys i] lua_bind_def unpack_clear del: length_drop)
    moreover have "look t = look s |` (- set (drop (i - 1) keys))"
      unfolding split t(2) u(2) by (auto simp: restrict_map_def fun_eq_iff)
    ultimately show ?thesis
      using t(3) u(3) by simp
  qed
qed

text \<open>
  C33: the script that clears keys removes exactly the live keys that match the pattern, in batches
  of 5000, and returns how many there were.
\<close>

theorem script_clear_keys_clears:
  assumes "redis_documented R look now glob"
  shows "\<exists>t. script_clear_keys R p s = (Inr (int (card {k. look s k \<noteq> None \<and> glob p k})), t) \<and>
     (\<forall>k. look t k = (if glob p k then None else look s k)) \<and> now t = now s"
proof -
  from redis_keys[OF assms, of p s] obtain ks where
    ks: "cmd_keys R p s = (Inr ks, s)" "distinct ks" "set ks = {k. look s k \<noteq> None \<and> glob p k}" by blast
  with clear_loop_removes[OF assms ks(2), of 1 s 0] obtain t where
    "clear_loop R ks 1 0 s = (Inr (int (length ks)), t)" "look t = look s |` (- set ks)" "now t = now s"
    by auto
  moreover from ks have "length ks = card {k. look s k \<noteq> None \<and> glob p k}"
    using distinct_card[OF ks(2)] by simp
  ultimately have "script_clear_keys R p s = (Inr (int (card {k. look s k \<noteq> None \<and> glob p k})), t)"
    using ks(1) by (simp add: script_clear_keys_def lua_bind_def)
  moreover have "look t k = (if glob p k then None else look s k)" for k
    unfolding \<open>look t = look s |` (- set ks)\<close> ks(3) by (cases "look s k") (auto simp: restrict_map_def)
  ultimately show ?thesis using \<open>now t = now s\<close> by blast
qed

section \<open>Setting a value\<close>

text \<open>
  Setting a value leaves the expiry of the key as it was: a new key gets the expiry asked for, a
  key without expiry keeps having none, and otherwise the time left is kept up to the second to which
  the server rounds it. But a key whose time left is rounded to zero is removed, with its new value.
\<close>

theorem script_set_expire_keeps_expiry:
  assumes redis: "redis_documented R look now glob" and "0 < expiry"
  shows "\<exists>t. script_set_expire R k x expiry s = (Inr ''OK'', t) \<and> now t = now s \<and>
     (\<forall>k'. k' \<noteq> k \<longrightarrow> look t k' = look s k') \<and>
     (case look s k of
        None \<Rightarrow> look t k = Some (x, Some (now s + of_int expiry))
      | Some (v, None) \<Rightarrow> look t k = Some (x, None)
      | Some (v, Some e) \<Rightarrow> look t k = None \<and> e - now s \<le> 1 \<or>
          (\<exists>e'. look t k = Some (x, Some e') \<and> \<bar>e' - e\<bar> \<le> 1))"
proof -
  from redis_ttl[OF redis, of k s] obtain r where r: "cmd_ttl R k s = (Inr r, s)"
    "case look s k of None \<Rightarrow> r = - 2 | Some (v, None) \<Rightarrow> r = - 1
     | Some (v, Some e) \<Rightarrow> 0 \<le> r \<and> \<bar>of_int r - (e - now s)\<bar> \<le> 1" by blast
  from redis_set[OF redis, of k x s] obtain u where
    u: "cmd_set R k x s = (Inr ''OK'', u)" "look u = (look s)(k \<mapsto> (x, None))" "now u = now s" by blast
  then have set: "look u k = Some (x, None)" by simp
  show ?thesis
  proof (cases "r = - 1")
    case True
    with r u show ?thesis
      by (auto simp: script_set_expire_def lua_defs split: option.splits)
  next
    case False
    let ?d = "if r = - 2 then expiry else r"
    from redis_expire[OF redis set, of ?d] obtain t where
      t: "cmd_expire R k ?d u = (Inr 1, t)" "now t = now u"
        "look t = (if 0 < ?d then (look u)(k \<mapsto> (x, Some (now u + of_int ?d))) else (look u)(k := None))" by blast
    then have "script_set_expire R k x expiry s = (Inr ''OK'', t)"
      using False r(1) u(1) by (auto simp: script_set_expire_def lua_defs)
    moreover have "case look s k of
        None \<Rightarrow> look t k = Some (x, Some (now s + of_int expiry))
      | Some (v, None) \<Rightarrow> look t k = Some (x, None)
      | Some (v, Some e) \<Rightarrow> look t k = None \<and> e - now s \<le> 1 \<or>
          (\<exists>e'. look t k = Some (x, Some e') \<and> \<bar>e' - e\<bar> \<le> 1)"
      using False r(2) t(3) u(3) \<open>0 < expiry\<close> by (auto split: option.splits if_splits)
    ultimately show ?thesis using t u by auto
  qed
qed

section \<open>A server\<close>

text \<open>A server that keeps its keys in an association list, for the witnesses.\<close>

type_synonym store = "real \<times> (string \<times> string \<times> real option) list"

definition store_look :: "store \<Rightarrow> string \<Rightarrow> (string \<times> real option) option" where
  "store_look s k =
     (case map_of (snd s) k of
        Some (v, Some e) \<Rightarrow> if fst s < e then Some (v, Some e) else None
      | x \<Rightarrow> x)"

definition store_redis :: "store lua_redis" where
  "store_redis =
     \<lparr>cmd_incrby = (\<lambda>k n s.
        case store_look s k of
          None \<Rightarrow> (Inr n, (fst s, AList.update k (int_str n, None) (snd s)))
        | Some (v, e) \<Rightarrow>
            (case json_loads_int v of
               Inl x \<Rightarrow> (Inl x, s)
             | Inr i \<Rightarrow> (Inr (i + n), (fst s, AList.update k (int_str (i + n), e) (snd s))))),
      cmd_expire = (\<lambda>k d s.
        case store_look s k of
          None \<Rightarrow> (Inr 0, s)
        | Some (v, e) \<Rightarrow>
            (Inr 1, (fst s, if 0 < d then AList.update k (v, Some (fst s + of_int d)) (snd s)
                            else AList.delete k (snd s)))),
      cmd_ttl = (\<lambda>k s.
        (Inr (case store_look s k of None \<Rightarrow> - 2 | Some (v, None) \<Rightarrow> - 1 | Some (v, Some e) \<Rightarrow> \<lfloor>e - fst s\<rfloor>), s)),
      cmd_set = (\<lambda>k x s. (Inr ''OK'', (fst s, AList.update k (x, None) (snd s)))),
      cmd_keys = (\<lambda>p s. (Inr (filter (\<lambda>k. store_look s k \<noteq> None \<and> prefix p k) (remdups (map fst (snd s)))), s)),
      cmd_del = (\<lambda>ks s.
        (Inr (int (card {k \<in> set ks. store_look s k \<noteq> None})),
         (fst s, filter (\<lambda>(k, x). k \<notin> set ks) (snd s)))),
      lua_number = of_int\<rparr>"

lemma store_look_live: "store_look s k = Some (v, Some e) \<Longrightarrow> fst s < e"
  by (auto simp: store_look_def split: option.splits if_splits)

lemma store_look_key: "store_look s k = Some x \<Longrightarrow> k \<in> fst ` set (snd s)"
  by (auto simp: store_look_def image_iff split: option.splits if_splits dest!: map_of_SomeD) force+

lemma store_look_update: "store_look (t, AList.update k (v, e) xs) =
    (store_look (t, xs))(k := (case e of Some b \<Rightarrow> if t < b then Some (v, e) else None | None \<Rightarrow> Some (v, e)))"
  by (auto simp: store_look_def fun_eq_iff update_conv' split: option.split)

lemma store_look_delete: "store_look (t, AList.delete k xs) = (store_look (t, xs))(k := None)"
  by (auto simp: store_look_def fun_eq_iff delete_conv' split: option.split)

lemma store_look_filter: "store_look (t, filter (\<lambda>(k, x). k \<notin> K) xs) = store_look (t, xs) |` (- K)"
proof -
  have "map_of (filter (\<lambda>(k, x). k \<notin> K) xs) k = (map_of xs |` (- K)) k" for k
    by (induction xs) (auto simp: restrict_map_def)
  then show ?thesis
    by (simp add: store_look_def fun_eq_iff restrict_map_def split: option.split)
qed

lemma store_documented: "redis_documented store_redis store_look fst prefix"
  unfolding redis_documented_def
proof (intro conjI allI impI, goal_cases)
  case (1 s k n)
  then show ?case by (simp add: store_redis_def store_look_update)
next
  case (2 s k n v e)
  then show ?case
    by (cases e) (auto simp: store_redis_def store_look_update json_loads_int_str dest: store_look_live)
next
  case (3 s k d v e)
  then show ?case by (simp add: store_redis_def store_look_update store_look_delete)
next
  case (4 s k)
  have "store_look s k = Some (v, Some e) \<Longrightarrow>
      0 \<le> \<lfloor>e - fst s\<rfloor> \<and> \<bar>of_int \<lfloor>e - fst s\<rfloor> - (e - fst s)\<bar> \<le> 1" for v e
    by (drule store_look_live) linarith
  then show ?case by (auto simp: store_redis_def split: option.split)
next
  case (5 s k v)
  then show ?case by (simp add: store_redis_def store_look_update)
next
  case (6 s p)
  then show ?case
    by (auto simp: store_redis_def dest: store_look_key)
next
  case (7 s ks)
  then show ?case by (simp add: store_redis_def store_look_filter)
next
  case (8 s k v e)
  then show ?case by (rule store_look_live)
next
  case (9 i)
  then show ?case by (simp add: store_redis_def)
qed

text \<open>Time passes on the server and nothing else happens.\<close>

definition wait :: "real \<Rightarrow> store \<Rightarrow> store" where
  "wait d s = (fst s + d, snd s)"

lemma passes_wait: "0 \<le> d \<Longrightarrow> passes store_look fst k (wait d) d"
  by (auto simp: passes_def wait_def store_look_def split: option.split)

lemma script_incr_expire_refines_window_witness:
  "\<exists>t. run_hits store_redis ''rpc'' 10 1 [wait 0, wait 4, wait 7] (100, []) = (Inr [1, 2, 1], t) \<and> fst t = 111"
proof -
  have "list_all2 (passes store_look fst ''rpc'') [wait 0, wait 4, wait 7] [0, 4, 7]"
    by (simp add: passes_wait)
  from script_incr_expire_refines_window[OF store_documented this, of None "(100, [])" 1 10]
  show ?thesis
    by (auto simp: counter_at_def store_look_def window_hit_def Let_def)
qed

lemma hits_within_window_witness:
  "\<exists>cs t. run_hits store_redis ''rpc'' 10 1 [wait 0, wait 4, wait 3] (100, []) = (Inr cs, t) \<and>
     length (filter (\<lambda>c. c \<le> 2) cs) = 2 \<and> store_look t ''rpc'' = Some (int_str 3, Some 110)"
proof -
  have "list_all2 (passes store_look fst ''rpc'') [wait 0, wait 4, wait 3] [0, 4, 3]"
    by (simp add: passes_wait)
  from hits_within_window[OF store_documented this, of "(100, [])" 10 1 2]
  show ?thesis
    by (auto simp: store_look_def)
qed

lemma script_clear_keys_clears_witness:
  "\<exists>t. script_clear_keys store_redis ''a'' (0, [(''ab'', ''1'', None), (''b'', ''2'', None)]) = (Inr 1, t) \<and>
     store_look t ''ab'' = None \<and> store_look t ''b'' = Some (''2'', None)"
proof -
  let ?s = "(0, [(''ab'', ''1'', None), (''b'', ''2'', None)]) :: store"
  have "{k. store_look ?s k \<noteq> None \<and> prefix ''a'' k} = {''ab''}"
    by (auto simp: store_look_def)
  with script_clear_keys_clears[OF store_documented, of "''a''" ?s] show ?thesis
    by (auto simp: store_look_def)
qed

lemma script_set_expire_keeps_expiry_witness:
  "\<exists>t. script_set_expire store_redis ''a'' ''new'' 60 (0, [(''a'', ''old'', None)]) = (Inr ''OK'', t) \<and>
     store_look t ''a'' = Some (''new'', None)"
  using script_set_expire_keeps_expiry[OF store_documented, of 60 "''a''" "''new''" "(0, [(''a'', ''old'', None)])"]
  by (auto simp: store_look_def)

end
