(* ===== verification/Rate_Window.thy ===== *)
theory Rate_Window
  imports Lua_Scripts
begin

text \<open>
  The rate limit check and the counting script together: what the limits of a node let through in
  one window. Between them is the package async_limits; \<open>counts_by_script\<close> states what it does on a
  hit of a fixed window limiter.
\<close>

section \<open>The limiter on the script\<close>

text \<open>
  A hit runs the script on the counter of the limit and the identifiers, and is allowed when the
  reply is at most the amount of the limit. The environment is the Redis server; reading the
  clock and the window statistics changes nothing there.
\<close>

definition counts_by_script ::
  "('r, 'e) limiter_env_scheme \<Rightarrow> 'r lua_redis \<Rightarrow> (string \<Rightarrow> string list \<Rightarrow> string) \<Rightarrow> (string \<Rightarrow> int) \<Rightarrow>
     (string \<Rightarrow> int) \<Rightarrow> bool" where
  "counts_by_script env R key_for get_expiry get_amount \<longleftrightarrow>
     (\<forall>shas l incr bits w. limiter_hit env shas l incr bits w =
        (case script_incr_expire R (key_for l bits) (get_expiry l) incr w of
           (Inr c, w') \<Rightarrow> (Inr (c \<le> get_amount l), w')
         | (Inl e, w') \<Rightarrow> (Inl e, w'))) \<and>
     (\<forall>shas l bits w. \<exists>stats. limiter_window_stats env shas l bits w = (Inr stats, w)) \<and>
     (\<forall>w. \<exists>x. time_time env w = (Inr x, w))"

text \<open>A sequence of checks, with the environment moving on before each.\<close>

fun run_checks ::
  "('w, 'e) limiter_env_scheme \<Rightarrow> string \<Rightarrow> string \<Rightarrow> json \<Rightarrow> json \<Rightarrow> script_shas \<Rightarrow> int \<Rightarrow> ('w \<Rightarrow> 'w) list \<Rightarrow>
     ('w, 'z) world_scheme \<Rightarrow> bool res list \<times> ('w, 'z) world_scheme" where
  "run_checks env l app_id req msg shas incr [] s = ([], s)"
| "run_checks env l app_id req msg shas incr (g # gs) s =
     (let (r, t) = check_rpc_rate_limit env [l] app_id req msg (Some shas) incr (s\<lparr>ext := g (ext s)\<rparr>);
          (rs, u) = run_checks env l app_id req msg shas incr gs t
      in (r # rs, u))"

lemma check_counts:
  assumes "counts_by_script env R key_for get_expiry get_amount"
    and "script_incr_expire R (key_for l [app_id, ''eth_call'']) (get_expiry l) incr (ext s) = (Inr c, w)"
  shows "\<exists>t. check_rpc_rate_limit env [l] app_id req msg (Some (sha # shas)) incr s =
     (if c \<le> get_amount l then Ret True else Raise (RPCException req (JObj []) NoCause msg), t) \<and> ext t = w"
proof -
  from assms have hit: "limiter_hit env (sha # shas) l incr [app_id, ''eth_call''] (ext s) = (Inr (c \<le> get_amount l), w)"
    by (simp add: counts_by_script_def)
  from assms(1) obtain stats x where
    "limiter_window_stats env (sha # shas) l [app_id, ''eth_call''] w = (Inr stats, w)" "time_time env w = (Inr x, w)"
    unfolding counts_by_script_def by meson
  with hit show ?thesis
    by (simp add: check_rpc_rate_limit_def generic_rate_limiter_def hit_limit_def nowM_def M_defs)
qed

lemma run_checks_hits:
  assumes "counts_by_script env R key_for get_expiry get_amount"
    and "run_hits R (key_for l [app_id, ''eth_call'']) (get_expiry l) incr gs (ext s) = (Inr cs, w)"
  shows "fst (run_checks env l app_id req msg (sha # shas) incr gs s) =
     map (\<lambda>c. if c \<le> get_amount l then Ret True else Raise (RPCException req (JObj []) NoCause msg)) cs"
  using assms(2)
proof (induction gs arbitrary: s cs)
  case Nil
  then show ?case by simp
next
  case (Cons g gs)
  let ?s = "s\<lparr>ext := g (ext s)\<rparr>"
  from Cons.prems obtain c u cs' where
    c: "script_incr_expire R (key_for l [app_id, ''eth_call'']) (get_expiry l) incr (ext ?s) = (Inr c, u)"
    and rest: "run_hits R (key_for l [app_id, ''eth_call'']) (get_expiry l) incr gs u = (Inr cs', w)" "cs = c # cs'"
    by (auto simp: lua_defs split: prod.splits sum.splits)
  from check_counts[OF assms(1) c, of req msg sha shas] obtain t where
    t: "check_rpc_rate_limit env [l] app_id req msg (Some (sha # shas)) incr ?s =
      (if c \<le> get_amount l then Ret True else Raise (RPCException req (JObj []) NoCause msg), t)" "ext t = u"
    by blast
  from Cons.IH[of t cs'] rest t show ?case
    by (simp add: Let_def case_prod_beta)
qed

text \<open>
  C22: the checks of a node against one of its limits, in one window that opens with the first of
  them, let through exactly the first \<open>amount div cost\<close> calls and answer each later one with
  \<^verbatim>\<open>RPCException\<close>, whatever other clients do to other keys of the server.
\<close>

theorem rate_limit_of_a_window:
  assumes "redis_documented R look now glob" and "counts_by_script env R key_for get_expiry get_amount"
    and "list_all2 (passes look now (key_for l [app_id, ''eth_call''])) (g # gs) (d # ds)"
    and "\<forall>x\<in>set (d # ds). 0 \<le> x" and "sum_list ds < of_int (get_expiry l)"
    and "look (ext s) (key_for l [app_id, ''eth_call'']) = None"
    and "0 < cost" and "0 \<le> get_amount l" and "cost * int (length gs + 1) \<le> 2 ^ 53"
  shows "fst (run_checks env l app_id req msg (sha # shas) cost (g # gs) s) =
     (let allowed = min (length gs + 1) (nat (get_amount l div cost))
      in replicate allowed (Ret True) @
         replicate (length gs + 1 - allowed) (Raise (RPCException req (JObj []) NoCause msg)))"
proof -
  from hits_within_window[OF assms(1,3,4,6,5,7,8,9)] obtain t where
    hits: "run_hits R (key_for l [app_id, ''eth_call'']) (get_expiry l) cost (g # gs) (ext s) =
      (Inr (map (\<lambda>i. cost * int (i + 1)) [0..<length gs + 1]), t)"
    by blast
  let ?allowed = "nat (get_amount l div cost)" and ?no = "Raise (RPCException req (JObj []) NoCause msg) :: bool res"
  have "fst (run_checks env l app_id req msg (sha # shas) cost (g # gs) s) =
      map (\<lambda>i. if i < ?allowed then Ret True else ?no) [0..<length gs + 1]"
    unfolding run_checks_hits[OF assms(2) hits] by (simp add: within_limit[OF assms(7,8)] comp_def)
  also have "\<dots> = replicate (min (length gs + 1) ?allowed) (Ret True) @
      replicate (length gs + 1 - min (length gs + 1) ?allowed) ?no"
    by (rule nth_equalityI) (auto simp: nth_append min_def)
  finally show ?thesis by (simp add: Let_def)
qed

section \<open>Witness\<close>

definition script_env :: "store limiter_env" where
  "script_env = env.extend basic_env (limiter_env.fields
     (\<lambda>script w. (Inr ''sha'', w))
     (\<lambda>shas l incr bits w. case script_incr_expire store_redis l 60 incr w of
        (Inr c, w') \<Rightarrow> (Inr (c \<le> 2), w') | (Inl e, w') \<Rightarrow> (Inl e, w'))
     (\<lambda>shas l bits w. (Inr (0, 0), w)))"

lemma rate_limit_of_a_window_witness:
  "fst (run_checks script_env ''2 per 1 minute'' ''node'' JNull JNull [(''s'', ''sha'')] 1
          [wait 5, wait 10, wait 30] \<lparr>ext = (100, []), trace = []\<rparr>) =
     [Ret True, Ret True, Raise (RPCException JNull (JObj []) NoCause JNull)]"
proof -
  have counts: "counts_by_script script_env store_redis (\<lambda>l bits. l) (\<lambda>l. 60) (\<lambda>l. 2)"
    by (simp add: counts_by_script_def script_env_def basic_env_def env.defs limiter_env.defs)
  have "list_all2 (passes store_look fst ''2 per 1 minute'') [wait 5, wait 10, wait 30] [5, 10, 30]"
    by (simp add: passes_wait)
  from rate_limit_of_a_window[OF store_documented counts this, of "\<lparr>ext = (100, []), trace = []\<rparr>" 1]
  show ?thesis by (simp add: store_look_def Let_def numeral_2_eq_2 eval_nat_numeral)
qed

end
