(* ===== verification/Default_Logger.thy ===== *)
theory Default_Logger
  imports Main
begin

text \<open>
  The logger that both services share (\<^verbatim>\<open>utils/default_logger.py\<close>): the level filters and the
  handlers that the module registers. The library is loguru. What is used of it: the handlers are
  kept in the order they are added, and a handler receives a record when the severity of the
  record's level is at least that of the handler's level and its filter, if it has one, accepts the
  record. The severities of the level names are a parameter.
\<close>

section \<open>Level filters\<close>

record log_record =
  rec_level :: string
  rec_message :: string

definition logger_filter_trace :: "log_record \<Rightarrow> bool" where
  "logger_filter_trace r = (rec_level r = ''TRACE'')"

definition logger_filter_debug :: "log_record \<Rightarrow> bool" where
  "logger_filter_debug r = (rec_level r = ''DEBUG'')"

definition logger_filter_info :: "log_record \<Rightarrow> bool" where
  "logger_filter_info r = (rec_level r = ''INFO'')"

definition logger_filter_success :: "log_record \<Rightarrow> bool" where
  "logger_filter_success r = (rec_level r = ''SUCCESS'')"

definition logger_filter_warning :: "log_record \<Rightarrow> bool" where
  "logger_filter_warning r = (rec_level r = ''WARNING'')"

definition logger_filter_error :: "log_record \<Rightarrow> bool" where
  "logger_filter_error r = (rec_level r = ''ERROR'')"

definition logger_filter_critical :: "log_record \<Rightarrow> bool" where
  "logger_filter_critical r = (rec_level r = ''CRITICAL'')"

section \<open>Handlers\<close>

datatype sink = Stdout | Stderr | LogFile string

record handler =
  h_sink :: sink
  h_level :: string
  h_filter :: "log_record \<Rightarrow> bool"

definition logger_remove :: "handler list \<Rightarrow> handler list" where
  "logger_remove hs = []"

definition logger_add :: "handler \<Rightarrow> handler list \<Rightarrow> handler list" where
  "logger_add h hs = hs @ [h]"

definition stream_handler :: "sink \<Rightarrow> string \<Rightarrow> handler" where
  "stream_handler s l = \<lparr>h_sink = s, h_level = l, h_filter = (\<lambda>r. True)\<rparr>"

definition file_handler :: "string \<Rightarrow> string \<Rightarrow> (log_record \<Rightarrow> bool) \<Rightarrow> handler" where
  "file_handler path l f = \<lparr>h_sink = LogFile path, h_level = l, h_filter = f\<rparr>"

text \<open>The module's statements, run on the handlers \<open>hs\<close> that loguru starts with.\<close>

definition default_logger :: "handler list \<Rightarrow> handler list" where
  "default_logger hs = fold logger_add
     [stream_handler Stdout ''DEBUG'',
      stream_handler Stderr ''WARNING'',
      stream_handler Stderr ''ERROR'',
      file_handler ''logs/debug.log'' ''DEBUG'' logger_filter_debug,
      file_handler ''logs/info.log'' ''INFO'' logger_filter_info,
      file_handler ''logs/success.log'' ''SUCCESS'' logger_filter_success,
      file_handler ''logs/warning.log'' ''WARNING'' logger_filter_warning,
      file_handler ''logs/error.log'' ''ERROR'' logger_filter_error,
      file_handler ''logs/critical.log'' ''CRITICAL'' logger_filter_critical,
      file_handler ''logs/trace.log'' ''TRACE'' logger_filter_trace]
     (logger_remove hs)"

definition receivers :: "(string \<Rightarrow> int) \<Rightarrow> handler list \<Rightarrow> log_record \<Rightarrow> sink list" where
  "receivers severity hs r =
     map h_sink (filter (\<lambda>h. severity (h_level h) \<le> severity (rec_level r) \<and> h_filter h r) hs)"

section \<open>Where a record goes\<close>

definition levels :: "string list" where
  "levels = [''TRACE'', ''DEBUG'', ''INFO'', ''SUCCESS'', ''WARNING'', ''ERROR'', ''CRITICAL'']"

definition log_path :: "string \<Rightarrow> string option" where
  "log_path = map_of
     [(''TRACE'', ''logs/trace.log''), (''DEBUG'', ''logs/debug.log''), (''INFO'', ''logs/info.log''),
      (''SUCCESS'', ''logs/success.log''), (''WARNING'', ''logs/warning.log''), (''ERROR'', ''logs/error.log''),
      (''CRITICAL'', ''logs/critical.log'')]"

lemmas logger_filters = logger_filter_trace_def logger_filter_debug_def logger_filter_info_def
  logger_filter_success_def logger_filter_warning_def logger_filter_error_def logger_filter_critical_def

lemma receivers_default:
  "receivers severity (default_logger hs) r =
     (if severity ''DEBUG'' \<le> severity (rec_level r) then [Stdout] else []) @
     (if severity ''WARNING'' \<le> severity (rec_level r) then [Stderr] else []) @
     (if severity ''ERROR'' \<le> severity (rec_level r) then [Stderr] else []) @
     (case log_path (rec_level r) of None \<Rightarrow> [] | Some p \<Rightarrow> [LogFile p])"
  by (simp add: receivers_def default_logger_def logger_add_def logger_remove_def stream_handler_def
      file_handler_def logger_filters log_path_def)

text \<open>
  C40: when the seven levels have increasing severities, a record of one of them is printed on the
  standard output unless it is a trace, goes to the log file of its own level and to no other, and
  is written to the standard error once for a warning and twice for an error or a critical message.
  A record of any other level reaches no log file.
\<close>

theorem default_logger_routes:
  assumes "sorted_wrt (\<lambda>a b. severity a < severity b) levels"
  shows "(rec_level r \<in> set levels \<longrightarrow>
      receivers severity (default_logger hs) r =
        (if rec_level r = ''TRACE'' then [] else [Stdout]) @
        replicate (if rec_level r \<in> {''ERROR'', ''CRITICAL''} then 2
                   else if rec_level r = ''WARNING'' then 1 else 0) Stderr @
        [LogFile (the (log_path (rec_level r)))]) \<and>
    (rec_level r \<notin> set levels \<longrightarrow> (\<forall>p. LogFile p \<notin> set (receivers severity (default_logger hs) r))) \<and>
    inj_on log_path (set levels)"
proof (intro conjI impI)
  assume "rec_level r \<in> set levels"
  then show "receivers severity (default_logger hs) r =
        (if rec_level r = ''TRACE'' then [] else [Stdout]) @
        replicate (if rec_level r \<in> {''ERROR'', ''CRITICAL''} then 2
                   else if rec_level r = ''WARNING'' then 1 else 0) Stderr @
        [LogFile (the (log_path (rec_level r)))]"
    using assms
    by (auto simp: levels_def receivers_default log_path_def numeral_2_eq_2)
next
  assume "rec_level r \<notin> set levels"
  then have "log_path (rec_level r) = None"
    by (simp add: levels_def log_path_def)
  then show "\<forall>p. LogFile p \<notin> set (receivers severity (default_logger hs) r)"
    by (simp add: receivers_default)
next
  show "inj_on log_path (set levels)"
    by (simp add: levels_def log_path_def)
qed

definition loguru_severity :: "string \<Rightarrow> int" where
  "loguru_severity l = the (map_of (zip levels [5, 10, 20, 25, 30, 40, 50]) l)"

lemma default_logger_routes_witness:
  "receivers loguru_severity (default_logger []) \<lparr>rec_level = ''ERROR'', rec_message = ''nonce too low''\<rparr> =
     [Stdout, Stderr, Stderr, LogFile ''logs/error.log'']"
proof -
  have "sorted_wrt (\<lambda>a b. loguru_severity a < loguru_severity b) levels"
    by (simp add: loguru_severity_def levels_def)
  from default_logger_routes[OF this, of "\<lparr>rec_level = ''ERROR'', rec_message = ''nonce too low''\<rparr>" "[]"]
  show ?thesis by (simp add: levels_def log_path_def numeral_2_eq_2)
qed

end
