(* ===== verification/Snapshotter_Models.thy ===== *)
theory Snapshotter_Models
  imports Data_Models
begin

text \<open>
  The other models of \<^verbatim>\<open>data_models.py\<close>: what snapshotters send and are answered, and the metadata
  kept of them. The two services of this repository do not use them. A field without a value given
  takes the default of its declaration, which Python evaluates once, when the class is made.
\<close>

section \<open>Requests and answers\<close>

record peer_uuid_included_requests =
  peer_instance_id :: string

record peer_registration_request = peer_uuid_included_requests +
  peer_project_id :: string

record epoch_base =
  base_begin :: int
  base_end :: int

record snapshot_base = peer_uuid_included_requests +
  snapshot_epoch :: epoch_base
  snapshot_project_id :: string

record node_config =
  config_url :: string

record rpc_config =
  config_nodes :: "node_config list"
  config_retry :: int
  config_request_timeout :: int

record released_epoch =
  source_chain_end_height :: int
  epoch_finalized :: bool

record message_model =
  message_text :: string

record snapshotter_issue =
  si_instance_id :: string
  si_issue_type :: string
  si_project_id :: string
  si_epoch_id :: string
  si_time_of_reporting :: string
  si_extra :: "string option"

definition snapshotter_issue_of ::
  "string \<Rightarrow> string \<Rightarrow> string \<Rightarrow> string \<Rightarrow> string \<Rightarrow> string option option \<Rightarrow> snapshotter_issue" where
  "snapshotter_issue_of inst kind project epochId t extra =
     \<lparr>si_instance_id = inst, si_issue_type = kind, si_project_id = project, si_epoch_id = epochId,
      si_time_of_reporting = t, si_extra = (case extra of None \<Rightarrow> Some [] | Some x \<Rightarrow> x)\<rparr>"

record snapshotter_ping =
  ping_instance_id :: string

record snapshotter_ping_response =
  response_instance_id :: string
  response_time_of_reporting :: int

record snapshotter_identifier =
  identifier_instance_id :: string

record account_identifier =
  identifier_account_address :: string

section \<open>Metadata\<close>

datatype user_status = Active | Inactive

definition user_status_str :: "user_status \<Rightarrow> string" where
  "user_status_str u = (case u of Active \<Rightarrow> ''active'' | Inactive \<Rightarrow> ''inactive'')"

text \<open>\<^verbatim>\<open>UserStatusEnum(value)\<close>\<close>

definition user_status_of :: "string \<Rightarrow> exn + user_status" where
  "user_status_of v =
     (if v = ''active'' then Inr Active
      else if v = ''inactive'' then Inr Inactive
      else Inl (Exn ValueError (v @ '' is not a valid UserStatusEnum'')))"

lemma user_status_of_str: "user_status_of (user_status_str u) = Inr u"
  by (cases u) (simp_all add: user_status_of_def user_status_str_def)

lemma user_status_str_of: "user_status_of v = Inr u \<Longrightarrow> user_status_str u = v"
  by (auto simp: user_status_of_def user_status_str_def split: if_splits)

record snapshotter_metadata =
  md_rate_limit :: string
  md_active :: user_status
  md_calls_count :: int
  md_throttled_count :: int
  md_next_reset_at :: int
  md_name :: string
  md_email :: string
  md_alias :: string
  md_uuid :: "string option"

text \<open>
  Metadata of a snapshotter with the counters, the time of the next reset and the identifier left
  out; \<open>imported\<close> is the time at which the module was loaded.
\<close>

definition new_metadata ::
  "real \<Rightarrow> string \<Rightarrow> user_status \<Rightarrow> string \<Rightarrow> string \<Rightarrow> string \<Rightarrow> snapshotter_metadata" where
  "new_metadata imported rate_limit status name email alias =
     \<lparr>md_rate_limit = rate_limit, md_active = status, md_calls_count = 0, md_throttled_count = 0,
      md_next_reset_at = py_trunc imported + 86400, md_name = name, md_email = email,
      md_alias = alias, md_uuid = None\<rparr>"

text \<open>
  A day after the module was loaded the reset of new metadata lies in the past from the start.
\<close>

lemma new_metadata_reset_in_the_past:
  assumes "0 \<le> imported" and "imported + 86400 < now"
  shows "of_int (md_next_reset_at (new_metadata imported rate_limit status name email alias)) < now"
  using assms py_trunc_le[OF assms(1)] by (simp add: new_metadata_def)

end
