(* ===== verification/Spec2Isabelle.thy ===== *)
theory Spec2Isabelle
  imports Epoch_First Epoch_Receipts Rpc_Props Force_Tasks Force_Provenance Force_Lifecycle Redis_Conn Rate_Window Default_Logger Snapshotter_Models
begin

text \<open>
  \<^bold>\<open>epoch-manager\<close>: two services of the PowerLoom protocol. The epoch generator
  (\<^verbatim>\<open>epoch_generator.py\<close>) follows the head of a source chain and releases epochs, ranges of its
  blocks, to the protocol contract on the anchor chain. The force-consensus service
  (\<^verbatim>\<open>force_consensus.py\<close>) reads the events of that contract and, for every epoch whose submission
  window is over, completes the consensus of the projects that were submitted and not finalized.
  Both use the client of \<^verbatim>\<open>rpc.py\<close> or \<^verbatim>\<open>helpers/rpc_helper.py\<close>, write transactions with
  \<^verbatim>\<open>utils/transaction_utils.py\<close> and report failures with \<^verbatim>\<open>utils/notification_utils.py\<close>.

  \<^bold>\<open>How the code is represented.\<close> Statements are computations \<open>('s, 'a) M\<close> of the prelude: from a
  state they return a value, raise a Python exception, or are \<open>Pending\<close>, still running or waiting.
  An object is a record that extends \<open>world\<close>, whose field \<open>ext\<close> is all that lies outside the program
  (of any type) and whose field \<open>trace\<close> lists what the program did to it: transactions, posts,
  notifications, sleeps, Redis writes, locks. Log messages leave no mark. The packages web3,
  requests, httpx, redis, async_limits, tenacity, aiorwlock and pydantic (the value of a field of
  type \<^verbatim>\<open>Optional[str]\<close>) and the hash and ABI functions are
  parameters: fields of the records \<open>env\<close>, \<open>rpc_env\<close>, \<open>fc_env\<close> with no assumption on what they answer,
  except where a theorem names one: \<open>tenacity\<close> (the retry decorator), \<open>writer_lock\<close> and
  \<open>lock_available\<close> (the lock), \<open>redis_documented\<close> (the Redis commands of the Lua scripts),
  \<open>counts_by_script\<close> (a hit of async_limits runs the counting script),
  \<open>healthy\<close> (a chain that takes every transaction).

  \<^bold>\<open>Theories and sources.\<close>
  \<^item> \<open>Prelude\<close>, \<open>Hoare\<close>, \<open>Retry\<close>, \<open>Py_Strings\<close>, \<open>Environment\<close>: values, exceptions
    (\<^verbatim>\<open>exceptions.py\<close>, \<^verbatim>\<open>utils/exceptions.py\<close>), effects with the frame rules of the locales
    \<open>frame\<close> and \<open>env_frame\<close>, triples, the decorator \<^verbatim>\<open>tenacity.retry\<close>, texts of numbers, the environment.
  \<^item> \<open>Data_Models\<close>: \<^verbatim>\<open>data_models.py\<close>, the settings and the failure report; \<open>Snapshotter_Models\<close>: the
    models of that file that the services do not use.
  \<^item> \<open>Chunks\<close>: \<^verbatim>\<open>utils/helpers.py:chunks\<close>, a partition of the block range.
  \<^item> \<open>Transaction_Utils\<close>, \<open>Notification_Utils\<close>: the two utilities. The locale \<open>tx_writer\<close> is the
    contract of whatever sends one transaction.
  \<^item> \<open>Rpc_Sync\<close>: \<^verbatim>\<open>helpers/rpc_helper.py\<close>. Termination with distinct nodes, the exception when all
    are down, the endless loop with a node listed twice, the swallowed shutdown signal.
  \<^item> \<open>Epoch_Generator\<close> is \<^verbatim>\<open>epoch_generator.py\<close>; \<open>Epoch_Release\<close> and \<open>Epoch_Props\<close> hold
    what a run submits, the sequence of epochs and nonces of a round and of a whole run, and the
    recovery from a failed release; \<open>Epoch_Receipts\<close> which releases of a run wait for their receipt and
    what they pay; \<open>Epoch_First\<close> the timed first epoch, its retries, and a round with no node.
  \<^item> \<open>Rate_Limiter\<close>: the functions of \<^verbatim>\<open>utils/rate_limiter.py\<close>; \<open>Lua_Scripts\<close>: its three scripts, with the
    refinement of a fixed window counter; \<open>Rate_Window\<close>: the two together, how many calls of a
    window a limit lets through.
  \<^item> \<open>Rpc_Abi\<close>, \<open>Rpc_Helper\<close>, \<open>Rpc_Queries\<close>: \<^verbatim>\<open>rpc.py\<close>; \<open>Rpc_Props\<close>: the pool is well formed and ready
    after initialisation, queries go round the nodes, which answers are failures.
  \<^item> \<open>Tx_Lock\<close>: the decorator \<^verbatim>\<open>semaphore_then_aiorwlock_aqcuire_release\<close> of \<^verbatim>\<open>utils/helpers.py\<close>.
  \<^item> \<open>Redis_Conn\<close>: \<^verbatim>\<open>utils/redis_conn.py\<close>, the URL read back, the pool, the decorator.
  \<^item> \<open>Force_Consensus\<close> is \<^verbatim>\<open>force_consensus.py\<close>. \<open>Force_Props\<close>: what a run submits, the blocks a round
    asks for. \<open>Force_Epochs\<close>: which projects of which epochs are completed, what is kept of them, a
    failed receipt, the marker across a restart; the locale \<open>tx_blind\<close> gives, for a field that the
    transactions do not touch, that whole tasks do not touch it. \<open>Force_Spec\<close>: the records as sets,
    refined by the handling of events. \<open>Force_Books\<close>: the records are sets and dictionaries in every
    run. \<open>Force_Provenance\<close>: the records of a run and the arguments of its transactions come from events
    that nodes told in answer to its queries. \<open>Force_Rounds\<close>: a whole round on a healthy chain. \<open>Force_Lifecycle\<close>: many rounds, each described
    by what the environment answered in it, and an epoch from its release to its completion.
    \<open>Force_Tasks\<close>: the tasks as a step relation.
  \<^item> \<open>Redis_Keys\<close>: \<^verbatim>\<open>helpers/redis_keys.py\<close>; \<open>Default_Logger\<close>: \<^verbatim>\<open>utils/default_logger.py\<close>.

  \<^bold>\<open>Loops and bounds.\<close> The main loops run for a number of rounds that is an argument; theorems
  about them hold for every number, so for every prefix of the endless loop. The polling loop of
  \<open>sync_post_json_rpc\<close> has fuel; more than the retry limit is enough when the nodes are distinct,
  and no amount is enough in the case of a node listed more than once in the wrong number.
  Nonces, blocks and counters are unbounded as in Python; times and gas prices are real numbers
  where Python has floats. The Lua scripts are exact up to
  \<open>2 ^ 53\<close>, which their theorems assume.

  \<^bold>\<open>Concurrency.\<close> \<open>Force_Consensus\<close> runs the task that \<^verbatim>\<open>get_events\<close> starts when the main task waits
  next, to its end, and gathered tasks one after the other. \<open>Force_Tasks\<close> has the steps of the
  decorated methods between suspension points, with anything in between, and all interleavings;
  its last section relates the two: an attempt of the sequential model is a run of the steps.

  \<^bold>\<open>Not modelled.\<close> \<^verbatim>\<open>main()\<close> of both services (the file descriptor limit and the event loop), log
  messages, formats and rotation, the handlers of the standard logging module in
  \<^verbatim>\<open>utils/redis_conn.py\<close>, and the callback of \<^verbatim>\<open>utils/notification_utils.py\<close>, which only logs.
  Reading the settings file is pydantic's work; the settings are an argument.
\<close>

end
